(* ===== verification/Sdkz_Prelude.thy ===== *)
theory Sdkz_Prelude
  imports Main "HOL-Library.Word" "HOL-Library.Monad_Syntax"
begin

text \<open>
  Shared vocabulary of the development: the machine types of the C sources, bounds-checked
  access to C arrays, NUL-terminated strings inside such arrays, the error numbers the sources
  return, and the generic lemmas the component theories use.

  An operation that reads or writes an array returns an \<open>option\<close>: \<open>None\<close> is an
  access outside the object (undefined behaviour in C), so ``never \<open>None\<close>'' is memory
  safety.
\<close>

unbundle bit_operations_syntax

named_theorems cmem \<open>rules that evaluate array accesses\<close>
named_theorems wordnat \<open>rules that move word arithmetic to natural numbers\<close>
named_theorems cstr \<open>rules about NUL-terminated strings\<close>

section \<open>Types\<close>

type_synonym u8 = "8 word"
type_synonym u16 = "16 word"
type_synonym u32 = "32 word"
type_synonym bytes = "u8 list"

section \<open>Arrays\<close>

definition rd :: "'a list \<Rightarrow> nat \<Rightarrow> 'a option" where
  "rd xs i = (if i < length xs then Some (xs ! i) else None)"

definition wr :: "'a list \<Rightarrow> nat \<Rightarrow> 'a \<Rightarrow> 'a list option" where
  "wr xs i v = (if i < length xs then Some (xs[i := v]) else None)"

text \<open>Writing a run of bytes from an index on, as \<open>memcpy\<close> and \<open>strcpy\<close> do.\<close>

definition wr_run :: "'a list \<Rightarrow> nat \<Rightarrow> 'a list \<Rightarrow> 'a list option" where
  "wr_run xs i vs =
     (if i + length vs \<le> length xs then Some (take i xs @ vs @ drop (i + length vs) xs) else None)"

section \<open>NUL-terminated strings\<close>

text \<open>
  The C string that starts at index \<open>p\<close> of an array: the bytes up to the first NUL, or
  \<open>None\<close> when the array holds no NUL from there on (the library function would run off
  the object).
\<close>

definition cstr_at :: "bytes \<Rightarrow> nat \<Rightarrow> bytes option" where
  "cstr_at xs p =
     (if 0 \<in> set (drop p xs) then Some (takeWhile (\<lambda>b. b \<noteq> 0) (drop p xs)) else None)"

text \<open>\<open>strchr(s, c)\<close> for \<open>c\<close> not NUL: the offset of the first \<open>c\<close> in the string.\<close>

fun strchr :: "bytes \<Rightarrow> u8 \<Rightarrow> nat option" where
  "strchr [] c = None"
| "strchr (b # bs) c = (if b = c then Some 0 else map_option Suc (strchr bs c))"

text \<open>\<open>strcat(dst, src)\<close> on an array: writes \<open>src\<close> and a NUL at the end of the string.\<close>

definition strcat :: "bytes \<Rightarrow> bytes \<Rightarrow> bytes option" where
  "strcat dst src = do {
     s \<leftarrow> cstr_at dst 0;
     wr_run dst (length s) (src @ [0])
   }"

text \<open>String literals as bytes.\<close>

definition lit :: "string \<Rightarrow> bytes" where
  "lit s = map (\<lambda>c. of_nat (of_char c)) s"

section \<open>Numbers in text: \<open>strtol\<close> and \<open>strtoul\<close>\<close>

text \<open>
  The value of a digit in a base (0-9, then letters of either case), and the standard library's
  conversion: leading white space, an optional sign, an optional \<open>0x\<close> in base 16, then
  the longest run of digits; an empty run is 0.
\<close>

definition digit_val :: "nat \<Rightarrow> u8 \<Rightarrow> nat option" where
  "digit_val base b =
     (let n = unat b;
          d = (if 48 \<le> n \<and> n \<le> 57 then n - 48
               else if 65 \<le> n \<and> n \<le> 90 then n - 55
               else if 97 \<le> n \<and> n \<le> 122 then n - 87 else 99)
      in if d < base then Some d else None)"

fun digits_val :: "nat \<Rightarrow> nat \<Rightarrow> bytes \<Rightarrow> nat" where
  "digits_val base acc [] = acc"
| "digits_val base acc (b # bs) =
     (case digit_val base b of None \<Rightarrow> acc | Some d \<Rightarrow> digits_val base (acc * base + d) bs)"

definition is_space :: "u8 \<Rightarrow> bool" where
  "is_space b \<longleftrightarrow> b = 32 \<or> (9 \<le> b \<and> b \<le> 13)"

definition strip_0x :: "bytes \<Rightarrow> bytes" where
  "strip_0x bs =
     (case bs of z # x # d # ds \<Rightarrow>
        if z = 48 \<and> (x = 120 \<or> x = 88) \<and> digit_val 16 d \<noteq> None then d # ds else bs
      | _ \<Rightarrow> bs)"

definition str_to_int :: "nat \<Rightarrow> bytes \<Rightarrow> int" where
  "str_to_int base s =
     (let t = dropWhile is_space s;
          neg = (case t of b # _ \<Rightarrow> b = 45 | [] \<Rightarrow> False);
          u = (case t of b # r \<Rightarrow> if b = 45 \<or> b = 43 then r else t | [] \<Rightarrow> t);
          v = int (digits_val base 0 (if base = 16 then strip_0x u else u))
      in if neg then - v else v)"

text \<open>\<open>long\<close> is 32 bits wide on the targets: \<open>strtol\<close> and \<open>strtoul\<close> saturate.\<close>

definition strtol :: "nat \<Rightarrow> bytes \<Rightarrow> int" where
  "strtol base s = max (- (2 ^ 31)) (min (2 ^ 31 - 1) (str_to_int base s))"

definition strtoul :: "nat \<Rightarrow> bytes \<Rightarrow> u32" where
  "strtoul base s =
     (let v = str_to_int base s in if \<bar>v\<bar> \<ge> 2 ^ 32 then - 1 else word_of_int v)"

section \<open>Error numbers\<close>

definition EIO :: int where "EIO = 5"
definition EBUSY :: int where "EBUSY = 16"
definition ENODEV :: int where "ENODEV = 19"
definition EINVAL :: int where "EINVAL = 22"
definition EROFS :: int where "EROFS = 30"
definition ENOTSUP :: int where "ENOTSUP = 134"
definition ELASTERROR :: int where "ELASTERROR = 2000"

section \<open>Lemmas on the option monad\<close>

lemma bind_SomeE:
  assumes "Option.bind m f = Some y"
  obtains x where "m = Some x" and "f x = Some y"
  using assms by (cases m) auto

lemma map_sum_eq_Inr [simp]: "map_sum f g x = Inr y \<longleftrightarrow> (\<exists>z. x = Inr z \<and> g z = y)"
  by (cases x) auto

lemma map_sum_eq_Inl [simp]: "map_sum f g x = Inl y \<longleftrightarrow> (\<exists>z. x = Inl z \<and> f z = y)"
  by (cases x) auto

section \<open>Lemmas on arrays\<close>

lemma rd_Some [cmem, simp]: "i < length xs \<Longrightarrow> rd xs i = Some (xs ! i)"
  by (simp add: rd_def)

lemma rd_None [simp]: "rd xs i = None \<longleftrightarrow> length xs \<le> i"
  by (simp add: rd_def)

lemma rd_eq_Some: "rd xs i = Some v \<longleftrightarrow> i < length xs \<and> xs ! i = v"
  by (simp add: rd_def)

lemma wr_Some [cmem, simp]: "i < length xs \<Longrightarrow> wr xs i v = Some (xs[i := v])"
  by (simp add: wr_def)

lemma wr_None [simp]: "wr xs i v = None \<longleftrightarrow> length xs \<le> i"
  by (simp add: wr_def)

lemma wr_length: "wr xs i v = Some ys \<Longrightarrow> length ys = length xs"
  by (auto simp: wr_def split: if_splits)

lemma wr_run_length: "wr_run xs i vs = Some ys \<Longrightarrow> length ys = length xs"
  by (auto simp: wr_run_def split: if_splits)

lemma wr_run_take: "wr_run xs i vs = Some ys \<Longrightarrow> take (i + length vs) ys = take i xs @ vs"
  by (auto simp: wr_run_def split: if_splits)

section \<open>Lemmas on strings\<close>

lemma length_lit [simp]: "length (lit s) = length s"
  by (simp add: lit_def)

lemma takeWhile_nonzero_append:
  "0 \<notin> set s \<Longrightarrow> takeWhile (\<lambda>b. b \<noteq> 0) (s @ 0 # r) = s"
  by (induction s) auto

lemma cstr_at_prefix [cstr]:
  assumes "0 \<notin> set s" and "drop p xs = s @ 0 # r"
  shows "cstr_at xs p = Some s"
proof -
  have "0 \<in> set (drop p xs)"
    using assms(2) by simp
  moreover have "takeWhile (\<lambda>b. b \<noteq> 0) (drop p xs) = s"
    unfolding assms(2) using assms(1) by (rule takeWhile_nonzero_append)
  ultimately show ?thesis
    by (simp add: cstr_at_def)
qed

lemma cstr_at_no_nul: "cstr_at xs p = Some s \<Longrightarrow> 0 \<notin> set s"
  by (auto simp: cstr_at_def dest: set_takeWhileD split: if_splits)

lemma cstr_at_split:
  assumes "cstr_at xs p = Some s"
  obtains r where "drop p xs = s @ 0 # r"
proof -
  from assms have z: "0 \<in> set (drop p xs)" and s: "s = takeWhile (\<lambda>b. b \<noteq> 0) (drop p xs)"
    by (auto simp: cstr_at_def split: if_splits)
  from z have ne: "dropWhile (\<lambda>b. b \<noteq> 0) (drop p xs) \<noteq> []"
    by (auto simp: dropWhile_eq_Nil_conv)
  then obtain b r where br: "dropWhile (\<lambda>b. b \<noteq> 0) (drop p xs) = b # r"
    by (cases "dropWhile (\<lambda>b. b \<noteq> 0) (drop p xs)") auto
  with hd_dropWhile [OF ne] have "b = 0"
    by simp
  with br s have "drop p xs = s @ 0 # r"
    using takeWhile_dropWhile_id [of "\<lambda>b. b \<noteq> 0" "drop p xs"] by simp
  then show ?thesis by (rule that)
qed

lemma strchr_append:
  "c \<notin> set xs \<Longrightarrow> strchr (xs @ c # ys) c = Some (length xs)"
  by (induction xs) auto

lemma strchr_None [simp]: "strchr xs c = None \<longleftrightarrow> c \<notin> set xs"
  by (induction xs) auto

lemma strcat_prefix [cstr]:
  assumes "0 \<notin> set s" and "dst = s @ 0 # r" and "length src \<le> length r"
  shows "strcat dst src = Some (s @ src @ 0 # drop (length src) r)"
proof -
  have "cstr_at dst 0 = Some s"
    using assms(1,2) by (intro cstr_at_prefix) simp_all
  moreover have "drop (length s + Suc (length src)) dst = drop (length src) r"
    using assms(2) by simp
  ultimately show ?thesis
    using assms(2,3) by (simp add: strcat_def wr_run_def)
qed

section \<open>Lemmas on words\<close>

lemma unat_ucast_u8_u32 [wordnat, simp]: "unat (ucast (b :: u8) :: u32) = unat b"
  by transfer (simp add: take_bit_eq_mod)

lemma unat_u8_less [simp]: "unat (b :: u8) < 256"
proof -
  have "unat b < 2 ^ LENGTH(8)" by (rule unsigned_less)
  then show ?thesis by simp
qed

lemma unat_u32_less [simp]: "unat (w :: u32) < 4294967296"
proof -
  have "unat w < 2 ^ LENGTH(32)" by (rule unsigned_less)
  then show ?thesis by simp
qed

lemma unat_ucast_u32_u8 [wordnat]: "unat (ucast (w :: u32) :: u8) = unat w mod 256"
proof -
  have "uint (ucast w :: u8) = uint w mod 256"
    by (simp add: unsigned_ucast_eq take_bit_eq_mod)
  then have "nat (uint (ucast w :: u8)) = nat (uint w) mod 256"
    by (simp add: nat_mod_distrib)
  then show ?thesis by simp
qed

lemma word_eq_unatI: "unat v = unat w \<Longrightarrow> v = w" for v w :: "'a::len word"
  by (rule unsigned_word_eqI)

lemma ucast_u8_nat: "(ucast (w :: u32) :: u8) = of_nat (unat w)"
  by (rule of_nat_unat [symmetric])

lemma unat_u32_max [wordnat]: "unat (- 1 :: u32) = 4294967295"
  by (simp add: unsigned_minus_1_eq_mask mask_eq_exp_minus_1)

end
