(* ===== verification/Ascii85.thy ===== *)
theory Ascii85
  imports Sdkz_Prelude
begin

text \<open>
  The Ascii85 codec of \<open>src/lib/hu/ascii85.c\<close>: the encoder and the decoder as the C
  loops over an input buffer and an output buffer, their length estimates and their error codes,
  against a reference codec on byte lists. The input and output buffers are lists; every access
  is bounds-checked, so \<open>None\<close> is an access outside a buffer.
\<close>

section \<open>Constants\<close>

definition base_char :: u8 where
  "base_char = 33"

definition ascii85_in_length_max :: int where
  "ascii85_in_length_max = 65536"

definition ascii85_err_out_buf_too_small :: int where
  "ascii85_err_out_buf_too_small = - 255"

definition ascii85_err_in_buf_too_large :: int where
  "ascii85_err_in_buf_too_large = - 254"

definition ascii85_err_bad_decode_char :: int where
  "ascii85_err_bad_decode_char = - 253"

definition ascii85_err_decode_overflow :: int where
  "ascii85_err_decode_overflow = - 252"

definition ascii85_char_ng :: "u8 \<Rightarrow> bool" where
  "ascii85_char_ng c \<longleftrightarrow> c < 33 \<or> c > 117"

definition ascii85_get_max_encoded_length :: "int \<Rightarrow> int" where
  "ascii85_get_max_encoded_length in_length =
     (if in_length < 0 \<or> in_length > ascii85_in_length_max then ascii85_err_in_buf_too_large
      else ((in_length + 3) div 4) * 5)"

text \<open>\<open>ascii85_decode_z_for_zero\<close> is the constant \<open>true\<close>, so its branch is the live one.\<close>

definition ascii85_get_max_decoded_length :: "int \<Rightarrow> int" where
  "ascii85_get_max_decoded_length in_length =
     (if in_length < 0 \<or> in_length > ascii85_in_length_max then ascii85_err_in_buf_too_large
      else in_length * 4)"

section \<open>The encoder\<close>

text \<open>
  One iteration first gathers a chunk. A full chunk reads four bytes; a short last chunk reads the
  bytes that are left, each guarded by \<open>in_rover < in_length\<close>, and fills with zero bits.
\<close>

definition encode_next :: "bytes \<Rightarrow> nat \<Rightarrow> nat \<Rightarrow> (u32 \<times> nat) option" where
  "encode_next inp in_length in_rover =
     (if in_rover < in_length then do {
        b \<leftarrow> rd inp in_rover;
        Some (ucast b, in_rover + 1)
      } else Some (0, in_rover))"

definition encode_fetch :: "bytes \<Rightarrow> nat \<Rightarrow> nat \<Rightarrow> (u32 \<times> nat) option" where
  "encode_fetch inp in_length in_rover =
     (if in_length - in_rover \<ge> 4 then do {
        b0 \<leftarrow> rd inp in_rover;
        b1 \<leftarrow> rd inp (in_rover + 1);
        b2 \<leftarrow> rd inp (in_rover + 2);
        b3 \<leftarrow> rd inp (in_rover + 3);
        Some (push_bit 24 (ucast b0) OR push_bit 16 (ucast b1) OR push_bit 8 (ucast b2) OR ucast b3,
              in_rover + 4)
      } else do {
        b0 \<leftarrow> rd inp in_rover;
        (w1, r1) \<leftarrow> encode_next inp in_length (in_rover + 1);
        (w2, r2) \<leftarrow> encode_next inp in_length r1;
        (w3, r3) \<leftarrow> encode_next inp in_length r2;
        Some (push_bit 24 (ucast b0) OR push_bit 16 w1 OR push_bit 8 w2 OR w3, r3)
      })"

text \<open>Then it emits \<open>z\<close> for a full zero chunk, or five digits from the last to the first.\<close>

definition encode_emit :: "u32 \<Rightarrow> nat \<Rightarrow> nat \<Rightarrow> bytes \<Rightarrow> (nat \<times> bytes) option" where
  "encode_emit chunk chunk_len out_length outp =
     (if chunk = 0 \<and> chunk_len \<ge> 4 then do {
        outp \<leftarrow> wr outp out_length 122;
        Some (out_length + 1, outp)
      } else do {
        outp \<leftarrow> wr outp (out_length + 4) (ucast (chunk mod 85) + base_char);
        let chunk = chunk div 85;
        outp \<leftarrow> wr outp (out_length + 3) (ucast (chunk mod 85) + base_char);
        let chunk = chunk div 85;
        outp \<leftarrow> wr outp (out_length + 2) (ucast (chunk mod 85) + base_char);
        let chunk = chunk div 85;
        outp \<leftarrow> wr outp (out_length + 1) (ucast (chunk mod 85) + base_char);
        let chunk = chunk div 85;
        outp \<leftarrow> wr outp out_length (ucast chunk + base_char);
        Some (if chunk_len \<ge> 4 then out_length + 5 else out_length + (chunk_len + 1), outp)
      })"

lemma encode_next_ge: "encode_next inp n r = Some (w, r') \<Longrightarrow> r \<le> r'"
  unfolding encode_next_def by (auto elim!: bind_SomeE split: if_splits)

lemma encode_fetch_progress:
  "encode_fetch inp in_length in_rover = Some (chunk, r) \<Longrightarrow> in_rover < r"
  unfolding encode_fetch_def
  by (auto elim!: bind_SomeE split: if_splits prod.splits dest!: encode_next_ge)

function encode_loop :: "bytes \<Rightarrow> nat \<Rightarrow> nat \<Rightarrow> nat \<Rightarrow> bytes \<Rightarrow> (nat \<times> bytes) option" where
  "encode_loop inp in_length in_rover out_length outp =
     (if in_rover < in_length then
        (case encode_fetch inp in_length in_rover of
           None \<Rightarrow> None
         | Some (chunk, r) \<Rightarrow>
             (case encode_emit chunk (in_length - in_rover) out_length outp of
                None \<Rightarrow> None
              | Some (out_length', outp') \<Rightarrow> encode_loop inp in_length r out_length' outp'))
      else Some (out_length, outp))"
  by pat_completeness auto
termination
  by (relation "measure (\<lambda>(inp, in_length, in_rover, out_length, outp). in_length - in_rover)")
     (auto dest: encode_fetch_progress)

definition encode_ascii85 :: "bytes \<Rightarrow> int \<Rightarrow> bytes \<Rightarrow> int \<Rightarrow> (int \<times> bytes) option" where
  "encode_ascii85 inp in_length outp out_max_length =
     (let out_length = ascii85_get_max_encoded_length in_length
      in if out_length < 0 then Some (out_length, outp)
         else if out_length > out_max_length then Some (ascii85_err_out_buf_too_small, outp)
         else map_option (\<lambda>(n, out). (int n, out)) (encode_loop inp (nat in_length) 0 0 outp))"

section \<open>The decoder\<close>

text \<open>Whether one of the (at most five) characters of the chunk is outside the alphabet.\<close>

definition decode_chunk_ng :: "bytes \<Rightarrow> nat \<Rightarrow> nat \<Rightarrow> bool option" where
  "decode_chunk_ng inp in_rover chunk_len = do {
     c0 \<leftarrow> rd inp in_rover;
     if ascii85_char_ng c0 then Some True else do {
     b1 \<leftarrow> (if chunk_len > 1 then map_option ascii85_char_ng (rd inp (in_rover + 1)) else Some False);
     if b1 then Some True else do {
     b2 \<leftarrow> (if chunk_len > 2 then map_option ascii85_char_ng (rd inp (in_rover + 2)) else Some False);
     if b2 then Some True else do {
     b3 \<leftarrow> (if chunk_len > 3 then map_option ascii85_char_ng (rd inp (in_rover + 3)) else Some False);
     if b3 then Some True else
       (if chunk_len > 4 then map_option ascii85_char_ng (rd inp (in_rover + 4)) else Some False)
     }}}
   }"

text \<open>
  The digit at the rover, or 84 (the padding \<open>u\<close>) past the end; a full chunk never reaches
  the end, so both branches of the source read their digits this way.
\<close>

definition decode_next :: "bytes \<Rightarrow> nat \<Rightarrow> nat \<Rightarrow> (u32 \<times> nat) option" where
  "decode_next inp in_length in_rover =
     (if in_rover < in_length then do {
        b \<leftarrow> rd inp in_rover;
        Some (ucast b - ucast base_char, in_rover + 1)
      } else Some (84, in_rover))"

text \<open>The chunk value, or \<open>Inl\<close> of the overflow code, with both overflow guards.\<close>

definition decode_value :: "bytes \<Rightarrow> nat \<Rightarrow> nat \<Rightarrow> (int + u32 \<times> nat) option" where
  "decode_value inp in_length in_rover = do {
     b0 \<leftarrow> rd inp in_rover;
     let chunk = (ucast b0 - ucast base_char :: u32) * 85;
     (d1, r1) \<leftarrow> decode_next inp in_length (in_rover + 1);
     let chunk = (chunk + d1) * 85;
     (d2, r2) \<leftarrow> decode_next inp in_length r1;
     let chunk = (chunk + d2) * 85;
     (d3, r3) \<leftarrow> decode_next inp in_length r2;
     let chunk = chunk + d3;
     if chunk > (- 1) div 85 then Some (Inl ascii85_err_decode_overflow)
     else do {
       (d4, r4) \<leftarrow> decode_next inp in_length r3;
       let addend = (ucast d4 :: u8);
       let chunk = chunk * 85;
       if chunk > - 1 - ucast addend then Some (Inl ascii85_err_decode_overflow)
       else Some (Inr (chunk + ucast addend, r4))
     }
   }"

text \<open>One iteration up to the value: \<open>z\<close>, a bad character, or a value; with the chunk length.\<close>

definition decode_fetch :: "bytes \<Rightarrow> nat \<Rightarrow> nat \<Rightarrow> (int + u32 \<times> nat \<times> nat) option" where
  "decode_fetch inp in_length in_rover = do {
     c \<leftarrow> rd inp in_rover;
     let chunk_len = in_length - in_rover;
     if c = 122 then Some (Inr (0, in_rover + 1, 5))
     else do {
       ng \<leftarrow> decode_chunk_ng inp in_rover chunk_len;
       if ng then Some (Inl ascii85_err_bad_decode_char)
       else map_option (map_sum id (\<lambda>(v, r). (v, r, chunk_len))) (decode_value inp in_length in_rover)
     }
   }"

definition decode_emit :: "u32 \<Rightarrow> nat \<Rightarrow> nat \<Rightarrow> bytes \<Rightarrow> (nat \<times> bytes) option" where
  "decode_emit chunk chunk_len out_length outp = do {
     outp \<leftarrow> wr outp (out_length + 3) (ucast (chunk mod 256));
     let chunk = chunk div 256;
     outp \<leftarrow> wr outp (out_length + 2) (ucast (chunk mod 256));
     let chunk = chunk div 256;
     outp \<leftarrow> wr outp (out_length + 1) (ucast (chunk mod 256));
     let chunk = chunk div 256;
     outp \<leftarrow> wr outp out_length (ucast chunk);
     Some (if chunk_len \<ge> 5 then out_length + 4 else out_length + (chunk_len - 1), outp)
   }"

lemma decode_next_ge: "decode_next inp n r = Some (w, r') \<Longrightarrow> r \<le> r'"
  unfolding decode_next_def by (auto elim!: bind_SomeE split: if_splits)

lemma decode_value_progress:
  "decode_value inp in_length in_rover = Some (Inr (chunk, r)) \<Longrightarrow> in_rover < r"
  unfolding decode_value_def Let_def
  by (auto elim!: bind_SomeE split: if_splits prod.splits dest!: decode_next_ge)

lemma decode_fetch_progress:
  "decode_fetch inp in_length in_rover = Some (Inr (chunk, r, l)) \<Longrightarrow> in_rover < r"
  unfolding decode_fetch_def Let_def
  by (auto elim!: bind_SomeE split: if_splits prod.splits dest!: decode_value_progress)

function decode_loop :: "bytes \<Rightarrow> nat \<Rightarrow> nat \<Rightarrow> nat \<Rightarrow> bytes \<Rightarrow> (int \<times> bytes) option" where
  "decode_loop inp in_length in_rover out_length outp =
     (if in_rover < in_length then
        (case decode_fetch inp in_length in_rover of
           None \<Rightarrow> None
         | Some (Inl err) \<Rightarrow> Some (err, outp)
         | Some (Inr (chunk, r, chunk_len)) \<Rightarrow>
             (case decode_emit chunk chunk_len out_length outp of
                None \<Rightarrow> None
              | Some (out_length', outp') \<Rightarrow> decode_loop inp in_length r out_length' outp'))
      else Some (int out_length, outp))"
  by pat_completeness auto
termination
  by (relation "measure (\<lambda>(inp, in_length, in_rover, out_length, outp). in_length - in_rover)")
     (auto dest: decode_fetch_progress)

definition decode_ascii85 :: "bytes \<Rightarrow> int \<Rightarrow> bytes \<Rightarrow> int \<Rightarrow> (int \<times> bytes) option" where
  "decode_ascii85 inp in_length outp out_max_length =
     (let out_length = ascii85_get_max_decoded_length in_length
      in if out_length < 0 then Some (out_length, outp)
         else if out_length > out_max_length then Some (ascii85_err_out_buf_too_small, outp)
         else decode_loop inp (nat in_length) 0 0 outp)"

declare encode_loop.simps [simp del] decode_loop.simps [simp del]

section \<open>The reference codec\<close>

text \<open>Big-endian value of a chunk, its base-85 digits, and the bytes of a value.\<close>

fun be_val :: "bytes \<Rightarrow> nat" where
  "be_val [] = 0"
| "be_val (b # bs) = unat b * 256 ^ length bs + be_val bs"

definition a85_digits :: "nat \<Rightarrow> bytes" where
  "a85_digits v = map (\<lambda>d. of_nat (d mod 85 + 33))
     [v div 52200625, v div 614125, v div 7225, v div 85, v]"

definition be_bytes :: "nat \<Rightarrow> bytes" where
  "be_bytes v = map of_nat [v div 16777216, v div 65536 mod 256, v div 256 mod 256, v mod 256]"

definition pad_zero :: "bytes \<Rightarrow> bytes" where
  "pad_zero bs = bs @ replicate (4 - length bs) 0"

definition a85_group :: "bytes \<Rightarrow> bytes" where
  "a85_group bs =
     (if length bs = 4 \<and> be_val bs = 0 then [122]
      else take (length bs + 1) (a85_digits (be_val (pad_zero bs))))"

function a85_encode :: "bytes \<Rightarrow> bytes" where
  "a85_encode bs = (if bs = [] then [] else a85_group (take 4 bs) @ a85_encode (drop 4 bs))"
  by pat_completeness auto
termination
  by (relation "measure length") auto

text \<open>Value of a group of digits with \<open>u\<close> as padding, and the reference decoder.\<close>

definition a85_val :: "bytes \<Rightarrow> nat" where
  "a85_val cs = foldl (\<lambda>v c. v * 85 + (unat c - 33)) 0 (cs @ replicate (5 - length cs) 117)"

function a85_decode :: "bytes \<Rightarrow> int + bytes" where
  "a85_decode cs =
     (case cs of [] \<Rightarrow> Inr []
      | c # cs' \<Rightarrow>
          if c = 122 then map_sum id (\<lambda>r. 0 # 0 # 0 # 0 # r) (a85_decode cs')
          else let g = take 5 cs
               in if list_ex ascii85_char_ng g then Inl ascii85_err_bad_decode_char
                  else if a85_val g \<ge> 2 ^ 32 then Inl ascii85_err_decode_overflow
                  else map_sum id (\<lambda>r. take (length g - 1) (be_bytes (a85_val g)) @ r)
                         (a85_decode (drop 5 cs)))"
  by pat_completeness auto
termination
  by (relation "measure length") auto

declare a85_encode.simps [simp del] a85_decode.simps [simp del]

text \<open>A group padded with \<open>u\<close>, the digit of a character, and what a decoder result means.\<close>

definition pad_u :: "bytes \<Rightarrow> bytes" where
  "pad_u g = g @ replicate (5 - length g) 117"

definition dig :: "u8 \<Rightarrow> nat" where
  "dig c = unat c - 33"

definition decodes_to :: "(int \<times> bytes) option \<Rightarrow> nat \<Rightarrow> bytes \<Rightarrow> int + bytes \<Rightarrow> bool" where
  "decodes_to res out_length outp d =
    (\<exists>rc outp'. res = Some (rc, outp') \<and> length outp' = length outp \<and>
      (case d of Inl e \<Rightarrow> rc = e
       | Inr bs \<Rightarrow> rc = int (out_length + length bs) \<and>
           take (out_length + length bs) outp' = take out_length outp @ bs))"

section \<open>Words, buffers and the encoder loop\<close>

lemma drop_ge_cong: "drop m xs = drop m ys \<Longrightarrow> m \<le> k \<Longrightarrow> drop k xs = drop k ys"
  by (metis drop_drop le_add_diff_inverse2)

lemma bit_u8_lt: "bit (b :: u8) n \<Longrightarrow> n < 8"
  using bit_imp_le_length [of b n] by simp

lemma or4:
  "(push_bit 24 (ucast (a::u8)) OR push_bit 16 (ucast (b::u8)) OR push_bit 8 (ucast (c::u8)) OR (ucast (d::u8) :: u32))
   = push_bit 24 (ucast a) + (push_bit 16 (ucast b) + (push_bit 8 (ucast c) + ucast d))"
proof -
  have 1: "push_bit 8 (ucast c) + ucast d = (push_bit 8 (ucast c) OR ucast d :: u32)"
    by (rule disjunctive_add) (auto simp: bit_simps dest!: bit_u8_lt)
  have 2: "push_bit 16 (ucast b) + (push_bit 8 (ucast c) OR ucast d) =
      (push_bit 16 (ucast b) OR (push_bit 8 (ucast c) OR ucast d) :: u32)"
    by (rule disjunctive_add) (auto simp: bit_simps dest!: bit_u8_lt)
  have 3: "push_bit 24 (ucast a) + (push_bit 16 (ucast b) OR (push_bit 8 (ucast c) OR ucast d)) =
      (push_bit 24 (ucast a) OR (push_bit 16 (ucast b) OR (push_bit 8 (ucast c) OR ucast d)) :: u32)"
    by (rule disjunctive_add) (auto simp: bit_simps dest!: bit_u8_lt)
  show ?thesis by (simp add: 1 2 3 or.assoc)
qed

lemma unat_or4:
  "unat (push_bit 24 (ucast (a::u8)) OR push_bit 16 (ucast (b::u8)) OR push_bit 8 (ucast (c::u8)) OR (ucast (d::u8) :: u32))
   = unat a * 16777216 + (unat b * 65536 + (unat c * 256 + unat d))"
proof -
  have "unat a < 256" "unat b < 256" "unat c < 256" "unat d < 256" by simp_all
  then show ?thesis
    unfolding or4 by (simp add: push_bit_eq_mult unat_word_ariths del: unat_u8_less)
qed

lemma split_at5:
  assumes "p + 5 \<le> length xs"
  obtains ps a b c d e qs where "xs = ps @ a # b # c # d # e # qs" and "length ps = p"
proof -
  have "drop p xs = xs ! p # xs ! (p+1) # xs ! (p+2) # xs ! (p+3) # xs ! (p+4) # drop (p + 5) xs"
    using assms by (simp add: Cons_nth_drop_Suc numeral_eq_Suc)
  moreover have "length (take p xs) = p" using assms by simp
  ultimately show ?thesis using append_take_drop_id [of p xs] that by metis
qed

lemma upd5:
  assumes "p + 5 \<le> length xs"
  shows "xs[p+4 := e', p+3 := d', p+2 := c', p+1 := b', p := a'] = take p xs @ [a',b',c',d',e'] @ drop (p+5) xs"
proof -
  obtain ps a b c d e qs where x: "xs = ps @ a # b # c # d # e # qs" and l: "length ps = p"
    using split_at5 [OF assms] .
  show ?thesis
    unfolding x l [symmetric] by (simp add: list_update_append)
qed

lemma split_at4:
  assumes "p + 4 \<le> length xs"
  obtains ps a b c d qs where "xs = ps @ a # b # c # d # qs" and "length ps = p"
proof -
  have "drop p xs = xs ! p # xs ! (p+1) # xs ! (p+2) # xs ! (p+3) # drop (p + 4) xs"
    using assms by (simp add: Cons_nth_drop_Suc numeral_eq_Suc)
  moreover have "length (take p xs) = p" using assms by simp
  ultimately show ?thesis using append_take_drop_id [of p xs] that by metis
qed

lemma upd4:
  assumes "p + 4 \<le> length xs"
  shows "xs[p+3 := d', p+2 := c', p+1 := b', p := a'] = take p xs @ [a',b',c',d'] @ drop (p+4) xs"
proof -
  obtain ps a b c d qs where x: "xs = ps @ a # b # c # d # qs" and l: "length ps = p"
    using split_at4 [OF assms] .
  show ?thesis
    unfolding x l [symmetric] by (simp add: list_update_append)
qed


lemma a85_digit: "(ucast (w mod 85 :: u32) + base_char :: u8) = of_nat (unat w mod 85 + 33)"
  unfolding ucast_u8_nat by (simp add: base_char_def unat_mod)

lemma a85_digit_last:
  "(ucast ((w :: u32) div 85 div 85 div 85 div 85) + base_char :: u8) = of_nat (unat w div 52200625 mod 85 + 33)"
proof -
  have "unat w div 52200625 < 85" using unat_u32_less [of w] by linarith
  then show ?thesis
  unfolding ucast_u8_nat by (simp add: base_char_def unat_div flip: div_mult2_eq)
qed

lemma encode_emit_digits:
  assumes "o1 + 5 \<le> length outp" and "\<not> (chunk = 0 \<and> chunk_len \<ge> 4)"
  shows "encode_emit chunk chunk_len o1 outp =
    Some (o1 + min 5 (chunk_len + 1), take o1 outp @ a85_digits (unat chunk) @ drop (o1 + 5) outp)"
proof -
  have "encode_emit chunk chunk_len o1 outp =
    Some (o1 + min 5 (chunk_len + 1), outp[o1 + 4 := ucast (chunk mod 85) + base_char,
      o1 + 3 := ucast (chunk div 85 mod 85) + base_char,
      o1 + 2 := ucast (chunk div 85 div 85 mod 85) + base_char,
      o1 + 1 := ucast (chunk div 85 div 85 div 85 mod 85) + base_char,
      o1 := ucast (chunk div 85 div 85 div 85 div 85) + base_char])"
    using assms by (simp add: encode_emit_def Let_def min_def del: One_nat_def)
  then show ?thesis
    unfolding upd5 [OF assms(1)] a85_digit a85_digit_last
    by (simp add: a85_digits_def unat_div flip: div_mult2_eq)
qed

lemma take_4_cases:
  assumes "r < n" and "n \<le> length inp"
  shows "take 4 (drop r (take n inp)) = (if n - r \<ge> 4 then [inp ! r, inp ! (r+1), inp ! (r+2), inp ! (r+3)]
    else if n - r = 3 then [inp ! r, inp ! (r+1), inp ! (r+2)]
    else if n - r = 2 then [inp ! r, inp ! (r+1)] else [inp ! r])"
proof -
  have "take 4 (drop r (take n inp)) = map (\<lambda>i. inp ! (r + i)) [0..<min 4 (n - r)]"
    using assms by (intro nth_equalityI) auto
  moreover have "n - r \<ge> 4 \<or> n - r = 3 \<or> n - r = 2 \<or> n - r = 1" using assms(1) by linarith
  ultimately show ?thesis by (auto simp: min_def upt_rec numeral_eq_Suc)
qed

lemma encode_fetch_spec:
  assumes "r < n" and "n \<le> length inp"
  shows "\<exists>chunk. encode_fetch inp n r = Some (chunk, r + length (take 4 (drop r (take n inp)))) \<and>
    unat chunk = be_val (pad_zero (take 4 (drop r (take n inp))))"
proof -
  consider "n - r \<ge> 4" | "n = r + 3" | "n = r + 2" | "n = r + 1" using assms(1) by linarith
  then show ?thesis
  proof cases
    case 1
    then show ?thesis using assms unfolding take_4_cases [OF assms]
      by (simp add: encode_fetch_def pad_zero_def unat_or4)
  next
    case 2
    then show ?thesis using assms unat_or4 [of "inp ! r" "inp ! (r+1)" "inp ! (r+2)" 0]
      unfolding take_4_cases [OF assms] by (simp add: encode_fetch_def encode_next_def pad_zero_def numeral_2_eq_2 numeral_3_eq_3)
  next
    case 3
    then show ?thesis using assms unat_or4 [of "inp ! r" "inp ! (r+1)" 0 0]
      unfolding take_4_cases [OF assms] by (simp add: encode_fetch_def encode_next_def pad_zero_def numeral_2_eq_2 numeral_3_eq_3)
  next
    case 4
    then show ?thesis using assms unat_or4 [of "inp ! r" 0 0 0]
      unfolding take_4_cases [OF assms] by (simp add: encode_fetch_def encode_next_def pad_zero_def numeral_2_eq_2 numeral_3_eq_3)
  qed
qed

lemma be_val_less: "be_val bs < 256 ^ length bs"
proof (induction bs)
  case (Cons b bs)
  have "unat b * 256 ^ length bs + be_val bs < unat b * 256 ^ length bs + 256 ^ length bs"
    using Cons by simp
  also have "\<dots> = (unat b + 1) * 256 ^ length bs" by (simp add: algebra_simps)
  also have "\<dots> \<le> 256 * 256 ^ length bs"
    using unat_u8_less [of b] by (intro mult_le_mono1) linarith
  finally show ?case by simp
qed simp

lemma length_a85_digits [simp]: "length (a85_digits v) = 5"
  by (simp add: a85_digits_def)

lemma length_a85_group: "length g \<le> 4 \<Longrightarrow> length (a85_group g) \<le> 5"
  by (simp add: a85_group_def)

lemma encode_emit_spec:
  assumes "out_length + 5 \<le> length outp" and "g \<noteq> []" and "length g = min 4 chunk_len"
    and "unat chunk = be_val (pad_zero g)"
  shows "\<exists>outp'. encode_emit chunk chunk_len out_length outp = Some (out_length + length (a85_group g), outp')
    \<and> length outp' = length outp
    \<and> take (out_length + length (a85_group g)) outp' = take out_length outp @ a85_group g
    \<and> drop (out_length + 5) outp' = drop (out_length + 5) outp"
proof (cases "chunk = 0 \<and> chunk_len \<ge> 4")
  case True
  with assms have "a85_group g = [122]"
    by (auto simp: a85_group_def pad_zero_def)
  with True assms(1) show ?thesis
    by (simp add: encode_emit_def take_Suc_conv_app_nth)
next
  case False
  have "a85_group g = take (length g + 1) (a85_digits (unat chunk))"
    using False assms(3,4) by (auto simp: a85_group_def pad_zero_def unat_eq_zero)
  moreover have "min 5 (chunk_len + 1) = length g + 1" using assms(3) by simp
  moreover have "take (out_length + length (a85_group g))
      (take out_length outp @ a85_digits (unat chunk) @ drop (out_length + 5) outp) =
      take out_length outp @ take (length (a85_group g)) (a85_digits (unat chunk))"
    using assms(1) length_a85_group [of g] assms(3) by simp
  ultimately show ?thesis
    using assms(1,3) by (simp add: encode_emit_digits [OF assms(1) False] min_def)
qed

lemma chunk_room: "0 < k \<Longrightarrow> 5 + 5 * ((k - min 4 k + 3) div 4) \<le> 5 * ((k + 3) div (4 :: nat))"
proof (cases "4 \<le> k")
  case True
  then have a: "k - min 4 k + 3 = k - 1" and b: "k + 3 = k - 1 + 4"
    by simp_all
  have "(k + 3) div 4 = (k - 1) div 4 + 1"
    unfolding b by simp
  then show ?thesis
    unfolding a by simp
qed simp

lemma encode_loop_spec:
  assumes "in_rover \<le> n" and "n \<le> length inp"
    and "out_length + 5 * ((n - in_rover + 3) div 4) \<le> length outp"
  shows "\<exists>outp'. encode_loop inp n in_rover out_length outp =
      Some (out_length + length (a85_encode (drop in_rover (take n inp))), outp')
    \<and> length outp' = length outp
    \<and> take (out_length + length (a85_encode (drop in_rover (take n inp)))) outp' =
        take out_length outp @ a85_encode (drop in_rover (take n inp))
    \<and> drop (out_length + 5 * ((n - in_rover + 3) div 4)) outp' =
        drop (out_length + 5 * ((n - in_rover + 3) div 4)) outp"
  using assms
proof (induction "n - in_rover" arbitrary: in_rover out_length outp rule: less_induct)
  case less
  show ?case
  proof (cases "in_rover < n")
    case False
    then show ?thesis by (simp add: encode_loop.simps a85_encode.simps)
  next
    case True
    define rest where "rest = drop in_rover (take n inp)"
    define g where "g = take 4 rest"
    have lr: "length rest = n - in_rover" using less.prems by (simp add: rest_def)
    have g: "g \<noteq> []" "length g = min 4 (n - in_rover)" "length g > 0"
      using True lr by (auto simp: g_def)
    obtain chunk where fetch: "encode_fetch inp n in_rover = Some (chunk, in_rover + length g)"
      and val: "unat chunk = be_val (pad_zero g)"
      using encode_fetch_spec [OF True less.prems(2)] by (auto simp: g_def rest_def)
    have e: "n - (in_rover + length g) = n - in_rover - min 4 (n - in_rover)"
      using g(2) by simp
    have room: "out_length + 5 + 5 * ((n - (in_rover + length g) + 3) div 4) \<le> out_length + 5 * ((n - in_rover + 3) div 4)"
      unfolding e using chunk_room [of "n - in_rover"] True by linarith
    then have "out_length + 5 \<le> length outp" using less.prems(3) by linarith
    from encode_emit_spec [OF this g(1,2) val] obtain outp1 where
      emit: "encode_emit chunk (n - in_rover) out_length outp = Some (out_length + length (a85_group g), outp1)"
      and l1: "length outp1 = length outp"
      and t1: "take (out_length + length (a85_group g)) outp1 = take out_length outp @ a85_group g"
      and d1: "drop (out_length + 5) outp1 = drop (out_length + 5) outp"
      by blast
    have gl: "length (a85_group g) \<le> 5" using g(2) by (intro length_a85_group) simp
    have enc: "a85_encode rest = a85_group g @ a85_encode (drop (in_rover + length g) (take n inp))"
      using True lr g(2) by (subst a85_encode.simps) (auto simp: g_def rest_def min_def ac_simps)
    let ?o = "out_length + length (a85_group g)" and ?r = "in_rover + length g"
    have "n - ?r < n - in_rover" "?r \<le> n" using g True by auto
    moreover have "?o + 5 * ((n - ?r + 3) div 4) \<le> length outp1"
      using room gl less.prems(3) l1 by linarith
    ultimately obtain outp2 where
      rec: "encode_loop inp n ?r ?o outp1 = Some (?o + length (a85_encode (drop ?r (take n inp))), outp2)"
      and l2: "length outp2 = length outp1"
      and t2: "take (?o + length (a85_encode (drop ?r (take n inp)))) outp2 =
        take ?o outp1 @ a85_encode (drop ?r (take n inp))"
      and d2: "drop (?o + 5 * ((n - ?r + 3) div 4)) outp2 = drop (?o + 5 * ((n - ?r + 3) div 4)) outp1"
      using less.hyps [of ?r ?o outp1] less.prems(2) by blast
    have "drop (out_length + 5 * ((n - in_rover + 3) div 4)) outp2 =
        drop (out_length + 5 * ((n - in_rover + 3) div 4)) outp"
      by (rule trans [OF drop_ge_cong [OF d2] drop_ge_cong [OF d1]]) (use room gl in linarith)+
    with fetch emit rec l1 l2 t1 t2 True show ?thesis
      by (subst encode_loop.simps) (simp add: enc add.assoc flip: rest_def)
  qed
qed


lemma decode_value_eq:
  fixes x0 x1 x2 x3 x4 :: u32
  assumes "rd inp r = Some b0" and "x0 = ucast b0 - ucast base_char"
    and "decode_next inp n (r + 1) = Some (x1, r1)" and "decode_next inp n r1 = Some (x2, r2)"
    and "decode_next inp n r2 = Some (x3, r3)" and "decode_next inp n r3 = Some (x4, r4)"
    and d: "unat x0 \<le> 84" "unat x1 \<le> 84" "unat x2 \<le> 84" "unat x3 \<le> 84" "unat x4 \<le> 84"
    and v: "v = (((unat x0 * 85 + unat x1) * 85 + unat x2) * 85 + unat x3) * 85 + unat x4"
  shows "decode_value inp n r =
    Some (if v \<ge> 4294967296 then Inl ascii85_err_decode_overflow else Inr (of_nat v, r4))"
proof -
  define c where "c = ((x0 * 85 + x1) * 85 + x2) * 85 + x3"
  define m where "m = ((unat x0 * 85 + unat x1) * 85 + unat x2) * 85 + unat x3"
  have cm: "unat c = m"
    using d unfolding c_def m_def by (simp add: unat_word_ariths)
  have x4: "(ucast (ucast x4 :: u8) :: u32) = x4"
    using d(5) by (intro word_eq_unatI) (simp add: unat_ucast_u32_u8)
  have g1: "c > (- 1) div 85 \<longleftrightarrow> m > 50529027"
    by (simp add: word_less_nat_alt cm)
  have c85: "unat (c * 85) = m * 85" if "m \<le> 50529027"
    using that cm by (simp add: unat_word_ariths)
  have top: "unat (- 1 - x4) = 4294967295 - unat x4"
    using d(5) by (simp add: unat_sub_if' unat_u32_max)
  have g2: "c * 85 > - 1 - x4 \<longleftrightarrow> v \<ge> 4294967296" if "m \<le> 50529027"
    unfolding word_less_nat_alt top c85 [OF that] v m_def using d(5) by linarith
  have nat: "c * 85 + x4 = of_nat v"
    by (simp add: v c_def)
  have val: "decode_value inp n r =
      Some (if c > (- 1) div 85 then Inl ascii85_err_decode_overflow
            else if c * 85 > - 1 - x4 then Inl ascii85_err_decode_overflow
            else Inr (c * 85 + x4, r4))"
    using assms(1-6) unfolding decode_value_def Let_def c_def by (simp add: x4)
  show ?thesis
    unfolding val g1 nat using g2 v m_def by (cases "m > 50529027") auto
qed


lemma good_digit:
  assumes "\<not> ascii85_char_ng c"
  shows "unat (ucast c - ucast base_char :: u32) = dig c" "dig c \<le> 84"
proof -
  have "33 \<le> unat c" "unat c \<le> 117"
    using assms by (simp_all add: ascii85_char_ng_def word_less_nat_alt)
  then show "unat (ucast c - ucast base_char :: u32) = dig c" "dig c \<le> 84"
    by (simp_all add: dig_def base_char_def unat_sub_if')
qed

lemma list5: "length xs = 5 \<Longrightarrow> xs = [xs ! 0, xs ! 1, xs ! 2, xs ! 3, xs ! 4]"
  by (auto simp: numeral_eq_Suc length_Suc_conv)

lemma a85_val_digits:
  assumes "length g \<le> 5"
  shows "a85_val g = (((dig (pad_u g ! 0) * 85 + dig (pad_u g ! 1)) * 85 + dig (pad_u g ! 2)) * 85
    + dig (pad_u g ! 3)) * 85 + dig (pad_u g ! 4)"
proof -
  have "length (pad_u g) = 5" using assms by (simp add: pad_u_def)
  from list5 [OF this] have "foldl (\<lambda>v c. v * 85 + (unat c - 33)) 0 (pad_u g) =
    foldl (\<lambda>v c. v * 85 + dig c) 0 [pad_u g ! 0, pad_u g ! 1, pad_u g ! 2, pad_u g ! 3, pad_u g ! 4]"
    by (simp add: dig_def)
  then show ?thesis by (simp add: a85_val_def pad_u_def)
qed

lemma pad_u_nth:
  assumes "r < n" and "n \<le> length inp" and "i < 5"
  shows "pad_u (take 5 (drop r (take n inp))) ! i = (if r + i < n then inp ! (r + i) else 117)"
  using assms by (auto simp: pad_u_def nth_append)

lemma decode_next_pad:
  "n \<le> length inp \<Longrightarrow> decode_next inp n (min k n) =
     Some (ucast (if k < n then inp ! k else 117) - ucast base_char, min (k + 1) n)"
  by (simp add: decode_next_def base_char_def min_def)

lemma decode_chunk_ng_spec:
  assumes "r < n" and "n \<le> length inp"
  shows "decode_chunk_ng inp r (n - r) = Some (list_ex ascii85_char_ng (take 5 (drop r (take n inp))))"
proof -
  have t: "take 5 (drop r (take n inp)) = map (\<lambda>i. inp ! (r + i)) [0..<min 5 (n - r)]"
    using assms by (intro nth_equalityI) auto
  have u: "[0..<5] = [0, 1, 2, 3, 4]" "[0..<4] = [0, 1, 2, 3]" "[0..<3] = [0, 1, 2]" "[0..<2] = [0, 1]"
    by (simp_all add: upt_rec)
  consider "n - r \<ge> 5" | "n = r + 4" | "n = r + 3" | "n = r + 2" | "n = r + 1" using assms(1) by linarith
  then show ?thesis
    unfolding t using assms(2) by cases (simp_all add: decode_chunk_ng_def u)
qed

lemma pad_u_good:
  assumes "\<not> list_ex ascii85_char_ng g" and "i < length (pad_u g)"
  shows "\<not> ascii85_char_ng (pad_u g ! i)"
proof -
  have "pad_u g ! i \<in> set g \<union> {117}" using nth_mem [OF assms(2)] by (auto simp: pad_u_def)
  then show ?thesis using assms(1) by (auto simp: list_ex_iff ascii85_char_ng_def)
qed

lemma decode_value_spec:
  assumes "r < n" and "n \<le> length inp"
    and "\<not> list_ex ascii85_char_ng (take 5 (drop r (take n inp)))"
  defines "g \<equiv> take 5 (drop r (take n inp))"
  shows "decode_value inp n r =
    Some (if a85_val g \<ge> 4294967296 then Inl ascii85_err_decode_overflow
          else Inr (of_nat (a85_val g), r + length g))"
proof -
  let ?x = "\<lambda>i. ucast (pad_u g ! i) - ucast base_char :: u32"
  have len: "length (pad_u g) = 5" by (simp add: pad_u_def g_def)
  have u: "unat (?x i) = dig (pad_u g ! i)" "unat (?x i) \<le> 84" if "i < 5" for i
    using good_digit [OF pad_u_good] assms(3) that len by (auto simp: g_def)
  have nx: "decode_next inp n (min (r + i) n) = Some (?x i, min (r + i + 1) n)" if "i < 5" for i
    using decode_next_pad [OF assms(2), of "r + i"] pad_u_nth [OF assms(1,2) that] by (simp add: g_def)
  have g0: "inp ! r = pad_u g ! 0" using pad_u_nth [OF assms(1,2), of 0] assms(1) by (simp add: g_def)
  have r0: "rd inp r = Some (pad_u g ! 0)" using assms(1,2) g0 by simp
  have s: "r + 1 = min (r + 1) n" using assms(1) by simp
  have "length g = min 5 (n - r)" using assms(2) by (simp add: g_def)
  then have e: "min (r + 5) n = r + length g" using assms(1) by (auto simp: min_def)
  have "decode_value inp n r = Some (if a85_val g \<ge> 4294967296 then Inl ascii85_err_decode_overflow
      else Inr (of_nat (a85_val g), min (r + 5) n))"
    by (rule decode_value_eq [OF r0 refl, of n "?x 1" "min (r+2) n" "?x 2" "min (r+3) n" "?x 3" "min (r+4) n" "?x 4"])
       (use nx [of 1] nx [of 2] nx [of 3] nx [of 4] u a85_val_digits [of g] s in \<open>simp_all add: g_def\<close>)
  then show ?thesis unfolding e .
qed

section \<open>The decoder loop\<close>

lemma length_be_bytes [simp]: "length (be_bytes v) = 4"
  by (simp add: be_bytes_def)

lemma decode_emit_spec:
  assumes "out_length + 4 \<le> length outp" and "v < 4294967296" and "0 < k"
  shows "\<exists>outp'. decode_emit (of_nat v) k out_length outp =
      Some (out_length + min 4 (k - 1), outp')
    \<and> length outp' = length outp
    \<and> take (out_length + min 4 (k - 1)) outp' = take out_length outp @ take (min 4 (k - 1)) (be_bytes v)"
proof -
  let ?w = "of_nat v :: u32"
  have w: "unat ?w = v" using assms(2) by (simp add: unat_of_nat)
  have "decode_emit ?w k out_length outp = Some (out_length + min 4 (k - 1),
      outp[out_length + 3 := ucast (?w mod 256), out_length + 2 := ucast (?w div 256 mod 256),
        out_length + 1 := ucast (?w div 256 div 256 mod 256), out_length := ucast (?w div 256 div 256 div 256)])"
    using assms(1,3) by (simp add: decode_emit_def Let_def min_def del: One_nat_def) auto
  moreover have "[ucast (?w div 256 div 256 div 256), ucast (?w div 256 div 256 mod 256),
      ucast (?w div 256 mod 256), ucast (?w mod 256)] = be_bytes v"
    unfolding ucast_u8_nat be_bytes_def by (simp add: unat_div unat_mod w flip: div_mult2_eq)
  ultimately show ?thesis
    unfolding upd4 [OF assms(1)] using assms(1) by simp
qed

lemma decode_fetch_z:
  "r < n \<Longrightarrow> n \<le> length inp \<Longrightarrow> inp ! r = 122 \<Longrightarrow> decode_fetch inp n r = Some (Inr (0, r + 1, 5))"
  by (simp add: decode_fetch_def)

lemma decode_fetch_group:
  assumes "r < n" and "n \<le> length inp" and "inp ! r \<noteq> 122"
  defines "g \<equiv> take 5 (drop r (take n inp))"
  shows "decode_fetch inp n r =
    Some (if list_ex ascii85_char_ng g then Inl ascii85_err_bad_decode_char
          else if a85_val g \<ge> 4294967296 then Inl ascii85_err_decode_overflow
          else Inr (of_nat (a85_val g), r + length g, n - r))"
  using assms(1-3) decode_chunk_ng_spec [OF assms(1,2)] decode_value_spec [OF assms(1,2)]
  unfolding g_def decode_fetch_def by (simp add: Let_def)

lemma a85_decode_z: "a85_decode (122 # cs) = map_sum id (\<lambda>r. 0 # 0 # 0 # 0 # r) (a85_decode cs)"
  by (subst a85_decode.simps) simp

lemma a85_decode_group:
  assumes "cs \<noteq> []" and "hd cs \<noteq> 122"
  shows "a85_decode cs =
    (if list_ex ascii85_char_ng (take 5 cs) then Inl ascii85_err_bad_decode_char
     else if a85_val (take 5 cs) \<ge> 4294967296 then Inl ascii85_err_decode_overflow
     else map_sum id (\<lambda>r. take (length (take 5 cs) - 1) (be_bytes (a85_val (take 5 cs))) @ r)
            (a85_decode (drop 5 cs)))"
proof (cases cs)
  case (Cons c cs')
  with assms(2) show ?thesis by (subst a85_decode.simps) (simp add: Let_def)
qed (use assms(1) in simp)

lemma decodes_to_step:
  assumes "decodes_to res (o1 + length bs) outp1 d"
    and "length outp1 = length outp" and "take (o1 + length bs) outp1 = take o1 outp @ bs"
  shows "decodes_to res o1 outp (map_sum id (\<lambda>r. bs @ r) d)"
  using assms by (cases d) (auto simp: decodes_to_def add.assoc)

lemma decode_loop_spec:
  assumes "r \<le> n" and "n \<le> length inp" and "out_length + 4 * (n - r) \<le> length outp"
  shows "decodes_to (decode_loop inp n r out_length outp) out_length outp (a85_decode (drop r (take n inp)))"
  using assms
proof (induction "n - r" arbitrary: r out_length outp rule: less_induct)
  case less
  show ?case
  proof (cases "r < n")
    case False
    then show ?thesis by (simp add: decode_loop.simps a85_decode.simps decodes_to_def)
  next
    case True
    define rest where "rest = drop r (take n inp)"
    have rest: "rest = inp ! r # drop (Suc r) (take n inp)" "length rest = n - r"
      using True less.prems by (auto simp: rest_def Cons_nth_drop_Suc [symmetric])
    have room: "out_length + 4 \<le> length outp" using less.prems(3) True by linarith
    show ?thesis
    proof (cases "inp ! r = 122")
      case z: True
      obtain outp1 where emit: "decode_emit 0 5 out_length outp = Some (out_length + 4, outp1)"
        and l1: "length outp1 = length outp"
        and t1: "take (out_length + 4) outp1 = take out_length outp @ [0, 0, 0, 0]"
        using decode_emit_spec [OF room, of 0 5] by (auto simp: be_bytes_def)
      have lz: "length [0, 0, 0, 0 :: u8] = 4" by simp
      have "decodes_to (decode_loop inp n (r + 1) (out_length + 4) outp1) (out_length + 4) outp1
          (a85_decode (drop (r + 1) (take n inp)))"
        using less.prems True l1 by (intro less.hyps) auto
      from decodes_to_step [of _ out_length "[0, 0, 0, 0]", unfolded lz, OF this l1 t1]
      show ?thesis
        unfolding rest_def [symmetric] rest(1) z a85_decode_z
        by (subst decode_loop.simps) (simp add: True decode_fetch_z less.prems(2) z emit)
    next
      case nz: False
      define g where "g = take 5 rest"
      have lg: "length g = min 5 (n - r)" "0 < length g" "length g - 1 = min 4 (n - r - 1)"
        using rest(2) True by (auto simp: g_def)
      have fetch: "decode_fetch inp n r =
          Some (if list_ex ascii85_char_ng g then Inl ascii85_err_bad_decode_char
            else if a85_val g \<ge> 4294967296 then Inl ascii85_err_decode_overflow
            else Inr (of_nat (a85_val g), r + length g, n - r))"
        unfolding g_def rest_def by (rule decode_fetch_group [OF True less.prems(2) nz])
      have spec: "a85_decode rest =
          (if list_ex ascii85_char_ng g then Inl ascii85_err_bad_decode_char
           else if a85_val g \<ge> 4294967296 then Inl ascii85_err_decode_overflow
           else map_sum id (\<lambda>r. take (length g - 1) (be_bytes (a85_val g)) @ r) (a85_decode (drop 5 rest)))"
        unfolding g_def by (rule a85_decode_group) (simp_all add: rest nz)
      show ?thesis
      proof (cases "list_ex ascii85_char_ng g \<or> a85_val g \<ge> 4294967296")
        case True
        then show ?thesis
          unfolding rest_def [symmetric] spec
          by (subst decode_loop.simps) (auto simp: \<open>r < n\<close> fetch decodes_to_def)
      next
        case good: False
        then have small: "a85_val g < 4294967296" by simp
        have pos: "0 < n - r" using True by simp
        from decode_emit_spec [OF room small pos, folded lg(3)] obtain outp1 where
          emit: "decode_emit (of_nat (a85_val g)) (n - r) out_length outp = Some (out_length + (length g - 1), outp1)"
          and l1: "length outp1 = length outp"
          and t1: "take (out_length + (length g - 1)) outp1 =
            take out_length outp @ take (length g - 1) (be_bytes (a85_val g))"
          by blast
        have lg_le: "length g \<le> n - r" using lg(1) by simp
        have d5: "drop (r + length g) (take n inp) = drop 5 rest"
          using lg(1) less.prems by (auto simp: rest_def min_def ac_simps)
        have len: "length (take (length g - 1) (be_bytes (a85_val g))) = length g - 1"
          using lg by simp
        have "decodes_to (decode_loop inp n (r + length g) (out_length + (length g - 1)) outp1)
            (out_length + (length g - 1)) outp1 (a85_decode (drop (r + length g) (take n inp)))"
          by (intro less.hyps) (use less.prems True lg(2) lg_le l1 in linarith)+
        from decodes_to_step [of _ out_length "take (length g - 1) (be_bytes (a85_val g))", unfolded len, OF this l1 t1]
        show ?thesis
          unfolding rest_def [symmetric] spec using good
          by (subst decode_loop.simps) (simp add: True fetch emit d5)
      qed
    qed
  qed
qed

section \<open>Round trip of the reference codec\<close>

lemma unat_digit: "unat (of_nat (d mod 85 + 33) :: u8) = d mod 85 + 33"
proof -
  have "d mod 85 + 33 < 256" using mod_less_divisor [of 85 d] by linarith
  then show ?thesis unfolding unat_of_nat by simp
qed

lemma digit_good [simp]: "\<not> ascii85_char_ng (of_nat (d mod 85 + 33))" "(of_nat (d mod 85 + 33) :: u8) \<noteq> 122"
proof -
  have u: "unat (of_nat (d mod 85 + 33) :: u8) \<le> 117"
    unfolding unat_digit using mod_less_divisor [of 85 d] by linarith
  show "\<not> ascii85_char_ng (of_nat (d mod 85 + 33))"
    unfolding ascii85_char_ng_def word_less_nat_alt unat_digit using mod_less_divisor [of 85 d] by simp
  show "(of_nat (d mod 85 + 33) :: u8) \<noteq> 122"
  proof
    assume "(of_nat (d mod 85 + 33) :: u8) = 122"
    then show False using u by simp
  qed
qed

lemma dig_digit: "dig (of_nat (d mod 85 + 33)) = d mod 85"
  by (simp only: dig_def unat_digit)

lemma digits_chain:
  fixes v :: nat
  assumes "v < 4294967296"
  obtains q1 q2 q3 where "v = q1 * 85 + v mod 85" "q1 = v div 85"
    "q1 = q2 * 85 + v div 85 mod 85" "q2 = v div 7225"
    "q2 = q3 * 85 + v div 7225 mod 85" "q3 = v div 614125"
    "q3 = v div 52200625 mod 85 * 85 + v div 614125 mod 85"
proof -
  have a: "v div 85 = v div 7225 * 85 + v div 85 mod 85"
    using div_mult_mod_eq [of "v div 85" 85] by (simp add: div_mult2_eq [symmetric])
  have b: "v div 7225 = v div 614125 * 85 + v div 7225 mod 85"
    using div_mult_mod_eq [of "v div 7225" 85] by (simp add: div_mult2_eq [symmetric])
  have "v div 52200625 < 85" using assms by linarith
  then have c: "v div 614125 = v div 52200625 mod 85 * 85 + v div 614125 mod 85"
    using div_mult_mod_eq [of "v div 614125" 85] by (simp add: div_mult2_eq [symmetric])
  show ?thesis
    using that [of "v div 85" "v div 7225" "v div 614125"] a b c div_mult_mod_eq [of v 85] by simp
qed

lemma dig_nth:
  "dig (a85_digits v ! 0) = v div 52200625 mod 85" "dig (a85_digits v ! Suc 0) = v div 614125 mod 85"
  "dig (a85_digits v ! 2) = v div 7225 mod 85" "dig (a85_digits v ! 3) = v div 85 mod 85"
  "dig (a85_digits v ! 4) = v mod 85"
  by (simp_all add: a85_digits_def dig_digit del: of_nat_add)

lemma a85_val_take:
  assumes "v < 4294967296"
  shows "a85_val (take 5 (a85_digits v)) = v"
    "a85_val (take 4 (a85_digits v)) = v div 85 * 85 + 84"
    "a85_val (take 3 (a85_digits v)) = v div 7225 * 7225 + 7224"
    "a85_val (take 2 (a85_digits v)) = v div 614125 * 614125 + 614124"
proof -
  obtain q1 q2 q3 where q: "v = q1 * 85 + v mod 85" "q1 = v div 85"
    "q1 = q2 * 85 + v div 85 mod 85" "q2 = v div 7225"
    "q2 = q3 * 85 + v div 7225 mod 85" "q3 = v div 614125"
    "q3 = v div 52200625 mod 85 * 85 + v div 614125 mod 85"
    using digits_chain [OF assms] .
  have "v div 52200625 < 85" using assms by linarith
  then have q4: "v div 52200625 mod 85 = v div 52200625" by simp
  have u: "dig 117 = 84" by (simp add: dig_def)
  show "a85_val (take 5 (a85_digits v)) = v"
    using q by (simp add: a85_val_digits pad_u_def nth_append dig_nth) 
  show "a85_val (take 4 (a85_digits v)) = v div 85 * 85 + 84"
    using q(3-7) unfolding q(2) by (simp add: a85_val_digits pad_u_def nth_append dig_nth u) 
  show "a85_val (take 3 (a85_digits v)) = v div 7225 * 7225 + 7224"
    using q(5-7) unfolding q(4) by (simp add: a85_val_digits pad_u_def nth_append dig_nth u) 
  show "a85_val (take 2 (a85_digits v)) = v div 614125 * 614125 + 614124"
    using q(7) [unfolded q4] unfolding q(6) by (simp add: a85_val_digits pad_u_def nth_append dig_nth q4 u)
qed

lemma a85_digits_good:
  "list_ex ascii85_char_ng (a85_digits v) = False" "hd (a85_digits v) \<noteq> 122"
  unfolding a85_digits_def by (simp_all add: digit_good del: of_nat_add)


lemma horner256: "x < 256 \<Longrightarrow> (y * 256 + x) div 256 = y" "x < 256 \<Longrightarrow> (y * 256 + x) mod 256 = (x :: nat)"
  by simp_all

lemma be_bytes_horner:
  fixes a b c d :: nat
  assumes "b < 256" "c < 256" "d < 256"
  shows "be_bytes (((a * 256 + b) * 256 + c) * 256 + d) = [of_nat a, of_nat b, of_nat c, of_nat d]"
proof -
  define x where "x = a * 256 + b"
  define y where "y = x * 256 + c"
  define v where "v = y * 256 + d"
  have d: "v div 256 = y" "v mod 256 = d" "y div 256 = x" "y mod 256 = c" "x div 256 = a" "x mod 256 = b"
    unfolding v_def y_def x_def using assms by (simp_all only: horner256)
  then have "v div 65536 = x" "v div 16777216 = a"
    using div_mult2_eq [of v 256 256] div_mult2_eq [of v 256 65536] div_mult2_eq [of y 256 256] by simp_all
  with d show ?thesis
    unfolding x_def [symmetric] y_def [symmetric] v_def [symmetric] be_bytes_def by simp
qed

lemma group_roundtrip:
  assumes "g \<noteq> []" and "length g \<le> 4"
  defines "w \<equiv> a85_val (take (length g + 1) (a85_digits (be_val (pad_zero g))))"
  shows "w < 4294967296" "take (length g) (be_bytes w) = g"
proof -
  have small: "be_val (pad_zero g) < 4294967296"
    using be_val_less [of "pad_zero g"] assms(2) by (simp add: pad_zero_def)
  have r: "x div d * d \<le> x" "x < x div d * d + d" if "0 < d" for x d :: nat
    using div_mult_mod_eq [of x d] mod_less_divisor [OF that, of x] by linarith+
  have "0 < length g" using assms(1) by simp
  then have "length g = 1 \<or> length g = 2 \<or> length g = 3 \<or> length g = 4"
    using assms(2) by linarith
  then consider a where "g = [a]" | a b where "g = [a, b]" | a b c where "g = [a, b, c]"
    | a b c d where "g = [a, b, c, d]"
    by (auto simp: numeral_eq_Suc length_Suc_conv)
  then have "w < 4294967296 \<and> take (length g) (be_bytes w) = g"
  proof cases
    case 1
    then have v: "be_val (pad_zero g) = unat a * 16777216" by (simp add: pad_zero_def numeral_3_eq_3)
    have l: "length g + 1 = 2" using 1 by simp
    have w: "w = unat a * 16777216 div 614125 * 614125 + 614124"
      using a85_val_take(4) [OF small] v unfolding w_def l by simp
    have b: "unat a * 16777216 \<le> w" "w < unat a * 16777216 + 16777216"
      using r [of 614125 "unat a * 16777216"] unfolding w by simp_all
    then have "w div 16777216 = unat a" by (intro div_nat_eqI) simp_all
    then show ?thesis using b(2) 1 unat_u8_less [of a] by (simp add: be_bytes_def del: unat_u8_less)
  next
    case 2
    let ?B = "unat a * 256 + unat b"
    have v: "be_val (pad_zero g) = ?B * 65536" using 2 by (simp add: pad_zero_def numeral_2_eq_2)
    have l: "length g + 1 = 3" using 2 by simp
    have w: "w = ?B * 65536 div 7225 * 7225 + 7224"
      using a85_val_take(3) [OF small] v unfolding w_def l by simp
    have b: "?B * 65536 \<le> w" "w < ?B * 65536 + 65536"
      using r [of 7225 "?B * 65536"] unfolding w by simp_all
    then have q: "w div 65536 = ?B" by (intro div_nat_eqI) simp_all
    have "w div 256 div 256 = ?B" using div_mult2_eq [of w 256 256] q by simp
    then have e: "w = ((unat a * 256 + unat b) * 256 + w div 256 mod 256) * 256 + w mod 256"
      by (metis div_mult_mod_eq)
    have "be_bytes w = [of_nat (unat a), of_nat (unat b), of_nat (w div 256 mod 256), of_nat (w mod 256)]"
      using be_bytes_horner [of "unat b" "w div 256 mod 256" "w mod 256" "unat a"] unfolding e [symmetric] by simp
    then show ?thesis using b(2) 2 unat_u8_less [of a] unat_u8_less [of b] by (simp del: unat_u8_less)
  next
    case 3
    let ?B = "(unat a * 256 + unat b) * 256 + unat c"
    have v: "be_val (pad_zero g) = ?B * 256" using 3 by (simp add: pad_zero_def)
    have l: "length g + 1 = 4" using 3 by simp
    have w: "w = ?B * 256 div 85 * 85 + 84"
      using a85_val_take(2) [OF small] v unfolding w_def l by simp
    have b: "?B * 256 \<le> w" "w < ?B * 256 + 256"
      using r [of 85 "?B * 256"] unfolding w by simp_all
    then have q: "w div 256 = ?B" by (intro div_nat_eqI) simp_all
    have e: "w = ?B * 256 + w mod 256"
      using div_mult_mod_eq [of w 256] unfolding q by linarith
    have "be_bytes w = [of_nat (unat a), of_nat (unat b), of_nat (unat c), of_nat (w mod 256)]"
      using be_bytes_horner [of "unat b" "unat c" "w mod 256" "unat a"] unfolding e [symmetric] by simp
    then show ?thesis using b(2) 3 unat_u8_less [of a] unat_u8_less [of b] unat_u8_less [of c]
      by (simp del: unat_u8_less)
  next
    case 4
    have l: "length g + 1 = 5" using 4 by simp
    have w: "w = be_val g"
      using a85_val_take(1) [OF small] 4 unfolding w_def l by (simp add: pad_zero_def)
    have e: "be_val g = ((unat a * 256 + unat b) * 256 + unat c) * 256 + unat d"
      using 4 by simp
    have "be_bytes w = [of_nat (unat a), of_nat (unat b), of_nat (unat c), of_nat (unat d)]"
      unfolding w e by (rule be_bytes_horner) simp_all
    then show ?thesis
      using small 4 w by (simp add: pad_zero_def)
  qed
  then show "w < 4294967296" "take (length g) (be_bytes w) = g" by simp_all
qed


lemma be_val_zero:
  assumes "length g = 4" and "be_val g = 0"
  shows "g = [0, 0, 0, 0]"
proof -
  obtain a b c d where g: "g = [a, b, c, d]"
    using assms(1) by (auto simp: numeral_eq_Suc length_Suc_conv)
  with assms(2) have "unat a = 0" "unat b = 0" "unat c = 0" "unat d = 0" by simp_all
  then show ?thesis by (simp add: g unat_eq_zero)
qed

lemma a85_roundtrip: "a85_decode (a85_encode bs) = Inr bs"
proof (induction bs rule: a85_encode.induct)
  case (1 bs)
  show ?case
  proof (cases "bs = []")
    case True
    then show ?thesis by (simp add: a85_encode.simps a85_decode.simps)
  next
    case False
    define g where "g = take 4 bs"
    have g: "g \<noteq> []" "length g \<le> 4" "bs = g @ drop 4 bs" using False by (auto simp: g_def)
    have IH: "a85_decode (a85_encode (drop 4 bs)) = Inr (drop 4 bs)" using 1 False by simp
    have enc: "a85_encode bs = a85_group g @ a85_encode (drop 4 bs)"
      using False by (subst a85_encode.simps) (simp add: g_def)
    show ?thesis
    proof (cases "length g = 4 \<and> be_val g = 0")
      case True
      then show ?thesis
        unfolding enc using IH g(3) be_val_zero [of g] by (simp add: a85_group_def a85_decode_z)
    next
      case False
      define ds where "ds = a85_digits (be_val (pad_zero g))"
      have grp: "a85_group g = take (length g + 1) ds" using False by (auto simp: a85_group_def ds_def)
      have ds: "length ds = 5" "list_ex ascii85_char_ng ds = False" "hd ds \<noteq> 122"
        using a85_digits_good by (simp_all add: ds_def)
      have tail: "length g < 4 \<Longrightarrow> drop 4 bs = []" by (auto simp: g_def)
      have t5: "take 5 (a85_encode bs) = take (length g + 1) ds" "drop 5 (a85_encode bs) = a85_encode (drop 4 bs)"
        unfolding enc grp using ds(1) g(2) tail by (cases "length g = 4"; simp add: a85_encode.simps [of "[]"])+
      have ok: "\<not> list_ex ascii85_char_ng (take (length g + 1) ds)"
        using ds(2) by (auto simp: list_ex_iff dest: in_set_takeD)
      have hd: "hd (a85_encode bs) \<noteq> 122" "a85_encode bs \<noteq> []"
        unfolding enc grp using ds by (cases ds; simp)+
      note rt = group_roundtrip [OF g(1,2), folded ds_def]
      have "a85_decode (a85_encode bs) = Inr (take (length g) (be_bytes (a85_val (take (length g + 1) ds))) @ drop 4 bs)"
        unfolding a85_decode_group [OF hd(2,1)] t5 IH using ok rt(1) ds(1) g(2) by simp
      then show ?thesis unfolding rt(2) using g(3) by simp
    qed
  qed
qed

section \<open>Lengths and alphabet\<close>

lemma a85_encode_step:
  "bs \<noteq> [] \<Longrightarrow> a85_encode bs = a85_group (take 4 bs) @ a85_encode (drop 4 bs)"
  by (subst a85_encode.simps) simp

lemma a85_encode_length: "length (a85_encode bs) \<le> 5 * ((length bs + 3) div 4)"
proof (induction bs rule: a85_encode.induct)
  case (1 bs)
  show ?case
  proof (cases "bs = []")
    case False
    then have "length (a85_encode bs) \<le> 5 + 5 * ((length (drop 4 bs) + 3) div 4)"
      using 1 length_a85_group [of "take 4 bs"] by (simp add: a85_encode_step)
    also have "length (drop 4 bs) = length bs - min 4 (length bs)"
      by simp
    also have "5 + 5 * ((length bs - min 4 (length bs) + 3) div 4) \<le> 5 * ((length bs + 3) div 4)"
      using False by (intro chunk_room) simp
    finally show ?thesis .
  qed (simp add: a85_encode.simps)
qed

text \<open>The characters of the encoding: the 85 digits and \<open>z\<close>.\<close>

lemma a85_encode_alphabet: "c \<in> set (a85_encode bs) \<Longrightarrow> \<not> ascii85_char_ng c \<or> c = 122"
proof (induction bs rule: a85_encode.induct)
  case (1 bs)
  then have ne: "bs \<noteq> []" by (auto simp: a85_encode.simps)
  have "c \<in> set (a85_group (take 4 bs)) \<Longrightarrow> \<not> ascii85_char_ng c \<or> c = 122"
    using a85_digits_good(1) [of "be_val (pad_zero (take 4 bs))"]
    by (auto simp: a85_group_def list_ex_iff dest!: in_set_takeD split: if_splits)
  then show ?case
    using 1 ne by (auto simp: a85_encode_step)
qed

lemma a85_decode_length: "a85_decode cs = Inr bs \<Longrightarrow> length bs \<le> 4 * length cs"
proof (induction cs arbitrary: bs rule: a85_decode.induct)
  case (1 cs)
  show ?case
  proof (cases cs)
    case Nil
    then show ?thesis using "1.prems" by (simp add: a85_decode.simps)
  next
    case (Cons c cs')
    show ?thesis
    proof (cases "c = 122")
      case True
      then show ?thesis using 1 Cons by (auto simp: a85_decode_z)
    next
      case False
      then obtain r where r: "a85_decode (drop 5 cs) = Inr r"
        "bs = take (length (take 5 cs) - 1) (be_bytes (a85_val (take 5 cs))) @ r"
        and ok: "\<not> list_ex ascii85_char_ng (take 5 cs)" "\<not> 2 ^ 32 \<le> a85_val (take 5 cs)"
        using "1.prems" Cons by (subst (asm) a85_decode_group) (auto split: if_splits)
      have "length r \<le> 4 * length (drop 5 cs)"
        using "1.IH"(2) [OF Cons False refl] ok r(1) by simp
      then show ?thesis using r(2) Cons by simp
    qed
  qed
qed

lemma a85_decode_length_no_z:
  "a85_decode cs = Inr bs \<Longrightarrow> 122 \<notin> set cs \<Longrightarrow> 5 * length bs \<le> 4 * length cs"
proof (induction cs arbitrary: bs rule: a85_decode.induct)
  case (1 cs)
  show ?case
  proof (cases cs)
    case Nil
    then show ?thesis using "1.prems" by (simp add: a85_decode.simps)
  next
    case (Cons c cs')
    with "1.prems"(2) have nz: "c \<noteq> 122" "122 \<notin> set (drop 5 cs)"
      by (auto dest: in_set_dropD)
    then obtain r where r: "a85_decode (drop 5 cs) = Inr r"
      "bs = take (length (take 5 cs) - 1) (be_bytes (a85_val (take 5 cs))) @ r"
      and ok: "\<not> list_ex ascii85_char_ng (take 5 cs)" "\<not> 2 ^ 32 \<le> a85_val (take 5 cs)"
      using "1.prems"(1) Cons by (subst (asm) a85_decode_group) (auto split: if_splits)
    have "5 * length r \<le> 4 * length (drop 5 cs)"
      using "1.IH"(2) [OF Cons nz(1) refl] ok r(1) nz(2) by simp
    then show ?thesis using r(2) Cons by (auto simp: min_def)
  qed
qed

section \<open>The C entry points against the reference codec\<close>

lemma encode_ascii85_ok:
  assumes "0 \<le> n" and "n \<le> ascii85_in_length_max" and "n \<le> int (length inp)"
    and "ascii85_get_max_encoded_length n \<le> out_max" and "out_max \<le> int (length outp)"
  shows "\<exists>outp'. encode_ascii85 inp n outp out_max =
      Some (int (length (a85_encode (take (nat n) inp))), outp')
    \<and> length outp' = length outp
    \<and> take (length (a85_encode (take (nat n) inp))) outp' = a85_encode (take (nat n) inp)
    \<and> drop (nat (ascii85_get_max_encoded_length n)) outp' =
        drop (nat (ascii85_get_max_encoded_length n)) outp"
proof -
  define k where "k = 5 * ((nat n + 3) div 4)"
  have m: "ascii85_get_max_encoded_length n = int k"
    using assms(1,2) by (simp add: ascii85_get_max_encoded_length_def k_def)
  have "k \<le> length outp"
    using m assms(4,5) by linarith
  moreover have "nat n \<le> length inp"
    using assms(3) by linarith
  ultimately obtain outp' where
    "encode_loop inp (nat n) 0 0 outp = Some (length (a85_encode (take (nat n) inp)), outp')"
    "length outp' = length outp"
    "take (length (a85_encode (take (nat n) inp))) outp' = a85_encode (take (nat n) inp)"
    "drop k outp' = drop k outp"
    using encode_loop_spec [of 0 "nat n" inp 0 outp] by (auto simp: k_def)
  with assms(4) show ?thesis
    unfolding encode_ascii85_def Let_def m by auto
qed

lemma decode_ascii85_ok:
  assumes "0 \<le> n" and "n \<le> ascii85_in_length_max" and "n \<le> int (length inp)"
    and "ascii85_get_max_decoded_length n \<le> out_max" and "out_max \<le> int (length outp)"
  shows "decodes_to (decode_ascii85 inp n outp out_max) 0 outp (a85_decode (take (nat n) inp))"
proof -
  have m: "ascii85_get_max_decoded_length n = n * 4"
    using assms(1,2) by (simp add: ascii85_get_max_decoded_length_def)
  have "0 + 4 * (nat n - 0) \<le> length outp"
    using assms m by linarith
  from decode_loop_spec [OF _ _ this, of inp] assms(1,3)
  show ?thesis
    unfolding decode_ascii85_def Let_def using assms(1,4) by (simp add: m)
qed

lemma decodes_to_iff:
  "decodes_to res k outp (Inl e) \<longleftrightarrow> (\<exists>outp'. res = Some (e, outp') \<and> length outp' = length outp)"
  "decodes_to res k outp (Inr bs) \<longleftrightarrow> (\<exists>outp'. res = Some (int (k + length bs), outp') \<and>
     length outp' = length outp \<and> take (k + length bs) outp' = take k outp @ bs)"
  by (auto simp: decodes_to_def)

lemma encode_ascii85_err:
  "n < 0 \<or> n > ascii85_in_length_max \<Longrightarrow>
     encode_ascii85 inp n outp out_max = Some (ascii85_err_in_buf_too_large, outp)"
  "0 \<le> n \<Longrightarrow> n \<le> ascii85_in_length_max \<Longrightarrow> out_max < ascii85_get_max_encoded_length n \<Longrightarrow>
     encode_ascii85 inp n outp out_max = Some (ascii85_err_out_buf_too_small, outp)"
  by (auto simp: encode_ascii85_def ascii85_get_max_encoded_length_def
      ascii85_err_in_buf_too_large_def Let_def)

lemma decode_ascii85_err:
  "n < 0 \<or> n > ascii85_in_length_max \<Longrightarrow>
     decode_ascii85 inp n outp out_max = Some (ascii85_err_in_buf_too_large, outp)"
  "0 \<le> n \<Longrightarrow> n \<le> ascii85_in_length_max \<Longrightarrow> out_max < ascii85_get_max_decoded_length n \<Longrightarrow>
     decode_ascii85 inp n outp out_max = Some (ascii85_err_out_buf_too_small, outp)"
  by (auto simp: decode_ascii85_def ascii85_get_max_decoded_length_def
      ascii85_err_in_buf_too_large_def Let_def)

lemmas ascii85_err_defs = ascii85_err_in_buf_too_large_def ascii85_err_out_buf_too_small_def
  ascii85_err_bad_decode_char_def ascii85_err_decode_overflow_def

lemma a85_decode_errors:
  "a85_decode cs = Inl e \<Longrightarrow> e = ascii85_err_bad_decode_char \<or> e = ascii85_err_decode_overflow"
proof (induction cs arbitrary: e rule: a85_decode.induct)
  case (1 cs)
  show ?case
  proof (cases cs)
    case (Cons c cs')
    then show ?thesis
      using 1 by (cases "c = 122") (auto simp: a85_decode_z a85_decode_group split: if_splits)
  qed (use "1.prems" in \<open>simp add: a85_decode.simps\<close>)
qed

lemma encode_ascii85_range:
  assumes "n \<le> int (length inp)" and "out_max \<le> int (length outp)"
  shows "\<exists>rc outp'. encode_ascii85 inp n outp out_max = Some (rc, outp') \<and> length outp' = length outp
      \<and> (rc \<in> {ascii85_err_in_buf_too_large, ascii85_err_out_buf_too_small}
         \<or> 0 \<le> rc \<and> rc \<le> ascii85_get_max_encoded_length n \<and> rc \<le> out_max \<and> rc < 2 ^ 31)"
proof -
  consider "n < 0 \<or> n > ascii85_in_length_max" | "0 \<le> n" "n \<le> ascii85_in_length_max"
    by linarith
  then show ?thesis
  proof cases
    case 2
    have len: "length (take (nat n) inp) = nat n" using assms(1) by simp
    have "length (a85_encode (take (nat n) inp)) \<le> 5 * ((nat n + 3) div 4)"
      using a85_encode_length [of "take (nat n) inp"] len by simp
    then have "int (length (a85_encode (take (nat n) inp))) \<le> int (5 * ((nat n + 3) div 4))"
      by (simp only: of_nat_le_iff)
    then have "int (length (a85_encode (take (nat n) inp))) \<le> ascii85_get_max_encoded_length n"
      "ascii85_get_max_encoded_length n < 2 ^ 31"
      using 2 zdiv_int [of "nat n + 3" 4]
      by (simp_all add: ascii85_get_max_encoded_length_def ascii85_in_length_max_def)
    then show ?thesis
      using encode_ascii85_ok [OF 2 assms(1) _ assms(2)] encode_ascii85_err(2) [OF 2, of out_max inp outp]
      by (cases "ascii85_get_max_encoded_length n \<le> out_max") auto
  qed (use encode_ascii85_err(1) in auto)
qed

lemma decode_ascii85_range:
  assumes "n \<le> int (length inp)" and "out_max \<le> int (length outp)"
  shows "\<exists>rc outp'. decode_ascii85 inp n outp out_max = Some (rc, outp') \<and> length outp' = length outp
      \<and> (rc \<in> {ascii85_err_in_buf_too_large, ascii85_err_out_buf_too_small,
               ascii85_err_bad_decode_char, ascii85_err_decode_overflow}
         \<or> 0 \<le> rc \<and> rc \<le> ascii85_get_max_decoded_length n \<and> rc \<le> out_max \<and> rc < 2 ^ 31)"
proof -
  consider "n < 0 \<or> n > ascii85_in_length_max" | "0 \<le> n" "n \<le> ascii85_in_length_max"
    by linarith
  then show ?thesis
  proof cases
    case 2
    have m: "ascii85_get_max_decoded_length n = n * 4" "n * 4 < 2 ^ 31"
      using 2 by (simp_all add: ascii85_get_max_decoded_length_def ascii85_in_length_max_def)
    have len: "length (take (nat n) inp) = nat n" using assms(1) by simp
    show ?thesis
    proof (cases "n * 4 \<le> out_max")
      case True
      with m have "ascii85_get_max_decoded_length n \<le> out_max" by simp
      note ok = decode_ascii85_ok [OF 2 assms(1) this assms(2)]
      show ?thesis
      proof (cases "a85_decode (take (nat n) inp)")
        case (Inl e)
        then show ?thesis using ok a85_decode_errors [OF Inl] by (auto simp: decodes_to_iff)
      next
        case (Inr bs)
        then have "int (length bs) \<le> n * 4" using a85_decode_length [OF Inr] 2(1) len by simp
        then show ?thesis using Inr ok m True by (auto simp: decodes_to_iff)
      qed
    next
      case False
      then show ?thesis using decode_ascii85_err(2) [OF 2, of out_max inp outp] m by simp
    qed
  qed (use decode_ascii85_err(1) in auto)
qed

section \<open>The codec contract\<close>

text \<open>What a client of a codec relies on: decoding undoes encoding.\<close>

locale byte_codec =
  fixes enc :: "'a list \<Rightarrow> 'b list"
    and dec :: "'b list \<Rightarrow> 'e + 'a list"
  assumes dec_enc: "dec (enc xs) = Inr xs"
begin

lemma enc_inject: "enc xs = enc ys \<longleftrightarrow> xs = ys"
proof
  assume "enc xs = enc ys"
  then have "dec (enc xs) = dec (enc ys)" by simp
  then show "xs = ys" by (simp add: dec_enc)
qed simp

lemma enc_never_rejected: "dec (enc xs) \<noteq> Inl e"
  by (simp add: dec_enc)

end

interpretation a85: byte_codec a85_encode a85_decode
  by unfold_locales (rule a85_roundtrip)

section \<open>Properties\<close>

text \<open>
  Claim C4. The encoder is correct and memory safe: for every input length in range that the input
  buffer holds, and an output buffer of at least the announced maximum length, \<open>encode_ascii85\<close>
  accesses nothing outside the two buffers, returns the length of the Ascii85 text of the input,
  leaves that text at the start of the output buffer, and does not touch the output past the
  announced maximum length.
\<close>

theorem encode_ascii85_correct:
  assumes "0 \<le> n" and "n \<le> ascii85_in_length_max" and "n \<le> int (length inp)"
    and "ascii85_get_max_encoded_length n \<le> out_max" and "out_max \<le> int (length outp)"
  shows "\<exists>outp'. encode_ascii85 inp n outp out_max =
      Some (int (length (a85_encode (take (nat n) inp))), outp')
    \<and> length outp' = length outp
    \<and> take (length (a85_encode (take (nat n) inp))) outp' = a85_encode (take (nat n) inp)
    \<and> drop (nat (ascii85_get_max_encoded_length n)) outp' =
        drop (nat (ascii85_get_max_encoded_length n)) outp"
  using assms by (rule encode_ascii85_ok)

theorem encode_ascii85_correct_witness:
  "\<exists>outp'. encode_ascii85 [77, 97, 110] 3 (replicate 7 0) 5 =
      Some (int (length (a85_encode (take (nat 3) [77, 97, 110]))), outp')
    \<and> length outp' = 7"
  using encode_ascii85_correct [of 3 "[77, 97, 110]" 5 "replicate 7 0"]
  by (auto simp: ascii85_in_length_max_def ascii85_get_max_encoded_length_def)

text \<open>
  Claim C5. The decoder is correct and memory safe on every input, malformed ones included: with an
  output buffer of the announced maximum length, \<open>decode_ascii85\<close> accesses nothing outside
  its buffers; it returns the bad-character or the overflow code exactly when the reference decoder
  rejects the text with that code, and otherwise the decoded length, with the decoded bytes at the
  start of the output buffer.
\<close>

theorem decode_ascii85_correct:
  assumes "0 \<le> n" and "n \<le> ascii85_in_length_max" and "n \<le> int (length inp)"
    and "ascii85_get_max_decoded_length n \<le> out_max" and "out_max \<le> int (length outp)"
  shows "\<exists>rc outp'. decode_ascii85 inp n outp out_max = Some (rc, outp')
    \<and> length outp' = length outp
    \<and> (case a85_decode (take (nat n) inp) of
         Inl e \<Rightarrow> rc = e \<and> (e = ascii85_err_bad_decode_char \<or> e = ascii85_err_decode_overflow)
       | Inr bs \<Rightarrow> rc = int (length bs) \<and> take (length bs) outp' = bs)"
  using decode_ascii85_ok [OF assms] a85_decode_errors [of "take (nat n) inp"]
  by (cases "a85_decode (take (nat n) inp)") (auto simp: decodes_to_iff)

theorem decode_ascii85_correct_witness:
  "\<exists>rc outp'. decode_ascii85 [57, 106, 113, 111] 4 (replicate 16 0) 16 = Some (rc, outp')
    \<and> length outp' = 16"
  using decode_ascii85_correct [of 4 "[57, 106, 113, 111]" 16 "replicate 16 0"]
  by (auto simp: ascii85_in_length_max_def ascii85_get_max_decoded_length_def)

text \<open>
  Claim C6. Round trip through the two C functions: when the encoder has succeeded with a text of
  \<open>m\<close> characters, decoding the text it left in its output buffer, into a buffer of the announced
  size, returns the input length and restores the input bytes if \<open>m\<close> is at most the limit of 65536 for
  what the decoder reads.  A longer text, which the encoder makes of a long input, is refused by the decoder
  as too large, whatever the output buffer, and nothing is written.
\<close>

theorem ascii85_round_trip:
  assumes "encode_ascii85 inp n outp out_max = Some (m, enc)" and "0 \<le> m"
    and "n \<le> int (length inp)" and "out_max \<le> int (length outp)"
    and "ascii85_get_max_decoded_length m \<le> out2_max" and "out2_max \<le> int (length outp2)"
  shows "if m \<le> ascii85_in_length_max
    then \<exists>outp2'. decode_ascii85 enc m outp2 out2_max = Some (n, outp2') \<and> take (nat n) outp2' = take (nat n) inp
    else decode_ascii85 enc m outp2 out2_max = Some (ascii85_err_in_buf_too_large, outp2)"
proof (cases "m \<le> ascii85_in_length_max")
  case True
  have n: "0 \<le> n" "n \<le> ascii85_in_length_max" "ascii85_get_max_encoded_length n \<le> out_max"
    using encode_ascii85_err [where n = n and inp = inp and outp = outp and out_max = out_max] assms(1,2)
    by (auto simp: ascii85_err_defs intro: leI)
  from encode_ascii85_ok [OF n(1,2) assms(3) n(3) assms(4)] assms(1)
  have m: "m = int (length (a85_encode (take (nat n) inp)))" and l: "length enc = length outp"
    and t: "take (nat m) enc = a85_encode (take (nat n) inp)"
    by auto
  have "length (take (nat m) enc) = nat m" using t m by simp
  then have "m \<le> int (length enc)" using assms(2) by simp
  from decode_ascii85_ok [OF assms(2) True this assms(5,6)] n(1) assms(3) True show ?thesis
    by (auto simp: t a85.dec_enc decodes_to_iff)
next
  case False
  then show ?thesis using decode_ascii85_err(1) [of m enc outp2 out2_max] by simp
qed

text \<open>The second case occurs: 65536 bytes that are not zero make a text of 81920 characters.\<close>

lemma a85_encode_nonzero:
  "length bs mod 4 = 0 \<Longrightarrow> \<forall>b\<in>set bs. b \<noteq> 0 \<Longrightarrow> length (a85_encode bs) = length bs div 4 * 5"
proof (induction bs rule: a85_encode.induct)
  case (1 bs)
  show ?case
  proof (cases "bs = []")
    case False
    then have l: "4 \<le> length bs" "length (drop 4 bs) mod 4 = 0" using 1(2) by (cases "length bs < 4"; simp add: mod_if)+
    have "b \<noteq> 0" if "b \<in> set (take 4 bs)" for b using 1(3) that in_set_takeD by metis
    then have "be_val (take 4 bs) \<noteq> 0" using False by (cases "take 4 bs") (auto simp: unat_eq_0)
    then have "length (a85_group (take 4 bs)) = 5" using l(1) by (simp add: a85_group_def)
    moreover have "length (a85_encode (drop 4 bs)) = length (drop 4 bs) div 4 * 5"
      using 1(1) [OF False l(2)] 1(3) by (auto dest: in_set_dropD)
    ultimately show ?thesis using l(1) False by (simp add: a85_encode_step le_div_geq)
  qed (simp add: a85_encode.simps)
qed

lemma ascii85_round_trip_limit:
  assumes "length inp = 65536" and "\<forall>b\<in>set inp. b \<noteq> 0" and "length outp = 81920"
  shows "\<exists>enc. encode_ascii85 inp 65536 outp 81920 = Some (81920, enc) \<and>
    decode_ascii85 enc 81920 outp2 out2_max = Some (ascii85_err_in_buf_too_large, outp2)"
  using encode_ascii85_ok [of 65536 inp 81920 outp] a85_encode_nonzero [of inp] assms
    decode_ascii85_err(1) [of 81920 _ outp2 out2_max]
  by (auto simp: ascii85_in_length_max_def ascii85_get_max_encoded_length_def)

theorem ascii85_round_trip_witness:
  "\<exists>outp2'. decode_ascii85 [57, 106, 113, 111, 62] 4 (replicate 16 0) 16 = Some (3, outp2')
    \<and> take (nat 3) outp2' = take (nat 3) [77, 97, 110]"
proof -
  have e: "encode_ascii85 [77, 97, 110] 3 (replicate 5 0) 5 = Some (4, [57, 106, 113, 111, 62])"
    by code_simp
  show ?thesis
    using ascii85_round_trip [OF e, of 16 "replicate 16 0"]
    by (simp add: ascii85_in_length_max_def ascii85_get_max_decoded_length_def)
qed

text \<open>
  Claim C7. Both entry points return on every input and stay within the ranges their documentation
  gives: with buffers as long as the lengths passed, the result is one of the documented error
  codes or a count between 0 and the announced maximum, never an access outside a buffer; in
  particular every count fits 32 bits.
\<close>

theorem ascii85_total_and_bounded:
  assumes "n \<le> int (length inp)" and "out_max \<le> int (length outp)"
  shows "(\<exists>rc outp'. encode_ascii85 inp n outp out_max = Some (rc, outp') \<and> length outp' = length outp
      \<and> (rc \<in> {ascii85_err_in_buf_too_large, ascii85_err_out_buf_too_small}
         \<or> 0 \<le> rc \<and> rc \<le> ascii85_get_max_encoded_length n \<and> rc \<le> out_max \<and> rc < 2 ^ 31))
    \<and> (\<exists>rc outp'. decode_ascii85 inp n outp out_max = Some (rc, outp') \<and> length outp' = length outp
      \<and> (rc \<in> {ascii85_err_in_buf_too_large, ascii85_err_out_buf_too_small,
               ascii85_err_bad_decode_char, ascii85_err_decode_overflow}
         \<or> 0 \<le> rc \<and> rc \<le> ascii85_get_max_decoded_length n \<and> rc \<le> out_max \<and> rc < 2 ^ 31))"
  using encode_ascii85_range [OF assms] decode_ascii85_range [OF assms] by (rule conjI)

theorem ascii85_total_and_bounded_witness:
  "\<exists>rc outp'. decode_ascii85 [1, 2] 2 (replicate 8 0) 8 = Some (rc, outp') \<and> length outp' = 8
      \<and> (rc \<in> {ascii85_err_in_buf_too_large, ascii85_err_out_buf_too_small,
               ascii85_err_bad_decode_char, ascii85_err_decode_overflow}
         \<or> 0 \<le> rc \<and> rc \<le> ascii85_get_max_decoded_length 2 \<and> rc \<le> 8 \<and> rc < 2 ^ 31)"
  using ascii85_total_and_bounded [of 2 "[1, 2]" 8 "replicate 8 0"] by simp

end
