(* ===== verification/Palloc.thy ===== *)
theory Palloc
  imports Sdkz_Prelude
begin

text \<open>
  The pool allocator of \<open>src/lib/hu/palloc.c\<close>. Pointers and \<open>size_t\<close> are 32 bits wide
  (the Cortex-M targets), so a link header is 8 bytes. The state holds the header words of every
  address, the address of the static \<open>_anchor\<close>, the payload bytes and the static counters;
  the null pointer is 0. A walk along the free list returns \<open>None\<close> when it dereferences a
  null pointer or never ends, and \<open>prealloc\<close> when its copy overlaps itself or faults.

  The semaphore \<open>palloc_sem\<close> makes the part of \<open>palloc\<close> after \<open>k_sem_take\<close> one
  step (\<open>palloc_crit\<close>); the tests and the read of \<open>_anchor.next\<close> before it are a
  step of their own, as in the source.

  The second half relates the header words to a list of free blocks and shows that allocation is
  first fit and release is an ordered insertion with coalescing on that list, that the invariant of
  the pool is kept, and that live blocks never overlap.
\<close>

section \<open>State\<close>

type_synonym addr = u32

record link =
  lnext :: addr
  flagNsize :: u32

record pool =
  anchor_at :: addr
  links :: "addr \<Rightarrow> link"
  payload :: "addr \<Rightarrow> u8"
  ppool_last :: addr
  pool_size :: u32
  free_size :: u32
  num_alloc :: u32
  num_free :: u32

definition ALIGNED_MASK :: u32 where
  "ALIGNED_MASK = 3"

definition ALIGNED_VALUE :: "u32 \<Rightarrow> u32" where
  "ALIGNED_VALUE a = (a + ALIGNED_MASK) AND NOT ALIGNED_MASK"

definition PALLOC_ALLOCATED :: u32 where
  "PALLOC_ALLOCATED = 0x80000000"

definition sizeof_link_t :: u32 where
  "sizeof_link_t = 8"

abbreviation anchor_next :: "pool \<Rightarrow> addr" where
  "anchor_next s \<equiv> lnext (links s (anchor_at s))"

text \<open>The initial value of the static variables: an empty anchor and no pool.\<close>

definition palloc_static :: "addr \<Rightarrow> (addr \<Rightarrow> link) \<Rightarrow> (addr \<Rightarrow> u8) \<Rightarrow> pool" where
  "palloc_static anchor mem bytes =
     \<lparr>anchor_at = anchor, links = mem(anchor := \<lparr>lnext = 0, flagNsize = 0\<rparr>), payload = bytes,
      ppool_last = 0, pool_size = 0, free_size = 0, num_alloc = 0, num_free = 0\<rparr>"

section \<open>Header updates\<close>

definition set_next :: "addr \<Rightarrow> addr \<Rightarrow> pool \<Rightarrow> pool" where
  "set_next a n s = s\<lparr>links := (links s)(a := (links s a)\<lparr>lnext := n\<rparr>)\<rparr>"

definition set_size :: "addr \<Rightarrow> u32 \<Rightarrow> pool \<Rightarrow> pool" where
  "set_size a n s = s\<lparr>links := (links s)(a := (links s a)\<lparr>flagNsize := n\<rparr>)\<rparr>"

definition set_link :: "addr \<Rightarrow> u32 \<Rightarrow> addr \<Rightarrow> pool \<Rightarrow> pool" where
  "set_link a sz n s = set_next a n (set_size a sz s)"

definition set_block :: "addr \<Rightarrow> addr \<Rightarrow> u32 \<Rightarrow> addr \<Rightarrow> addr \<Rightarrow> pool \<Rightarrow> pool" where
  "set_block pstart pend sz n plink s =
     (let s = set_link pstart sz pend s;
          s = set_link pend 0 n s
      in if plink \<noteq> 0 then set_next plink pstart s else s)"

section \<open>Allocation\<close>

partial_function (option) palloc_scan ::
  "(addr \<Rightarrow> link) \<Rightarrow> u32 \<Rightarrow> addr \<Rightarrow> addr \<Rightarrow> (addr \<times> addr) option" where
  "palloc_scan h sz prev plink =
     (if plink = 0 then None
      else if flagNsize (h plink) < sz \<and> lnext (h plink) \<noteq> 0
           then palloc_scan h sz plink (lnext (h plink))
      else Some (prev, plink))"

text \<open>The block found is unlinked, split when the rest is worth a block, and marked allocated.\<close>

definition palloc_take :: "u32 \<Rightarrow> addr \<Rightarrow> addr \<Rightarrow> pool \<Rightarrow> addr \<times> pool" where
  "palloc_take sz prev plink s =
     (let ptr = lnext (links s prev) + sizeof_link_t;
          s = set_next prev (lnext (links s plink)) s;
          s = (if flagNsize (links s plink) - sz > sizeof_link_t * 2 then
                 let next_plink = plink + sz;
                     s = set_link next_plink (flagNsize (links s plink) - sz)
                           (lnext (links s prev)) s;
                     s = set_size plink sz s
                 in set_next prev next_plink s
               else s);
          s = s\<lparr>free_size := free_size s - flagNsize (links s plink)\<rparr>;
          s = set_size plink (flagNsize (links s plink) OR PALLOC_ALLOCATED) s;
          s = set_next plink 0 s
      in (ptr, s\<lparr>num_alloc := num_alloc s + 1\<rparr>))"

definition palloc_crit :: "u32 \<Rightarrow> addr \<Rightarrow> addr \<Rightarrow> pool \<Rightarrow> (addr \<times> pool) option" where
  "palloc_crit sz prev_plink plink s = do {
     (prev_plink, plink) \<leftarrow> palloc_scan (links s) sz prev_plink plink;
     if plink = ppool_last s then Some (0, s)
     else Some (palloc_take sz prev_plink plink s)
   }"

text \<open>
  The part before the semaphore: \<open>None\<close> is the early return of NULL, \<open>Some\<close> holds the
  rounded size and the first link, read without the semaphore.
\<close>

definition palloc_enter :: "u32 \<Rightarrow> pool \<Rightarrow> (u32 \<times> addr) option" where
  "palloc_enter sz s =
     (if anchor_next s = 0 \<or> sz = 0 then None
      else let sz = ALIGNED_VALUE (sz + sizeof_link_t)
           in if sz AND PALLOC_ALLOCATED \<noteq> 0 then None
              else if sz > free_size s then None
              else Some (sz, anchor_next s))"

definition palloc :: "u32 \<Rightarrow> pool \<Rightarrow> (addr \<times> pool) option" where
  "palloc sz s =
     (case palloc_enter sz s of
        None \<Rightarrow> Some (0, s)
      | Some (sz, plink) \<Rightarrow> palloc_crit sz (anchor_at s) plink s)"

section \<open>Release\<close>

partial_function (option) insert_scan :: "(addr \<Rightarrow> link) \<Rightarrow> addr \<Rightarrow> addr \<Rightarrow> addr option" where
  "insert_scan h plink itor =
     (if itor = 0 then None
      else if lnext (h itor) < plink then insert_scan h plink (lnext (h itor))
      else Some itor)"

definition insert_at :: "addr \<Rightarrow> addr \<Rightarrow> pool \<Rightarrow> pool" where
  "insert_at itor plink s =
     (let (plink, s) =
            (if itor + flagNsize (links s itor) = plink
             then (itor, set_size itor (flagNsize (links s itor) + flagNsize (links s plink)) s)
             else (plink, s));
          inext = lnext (links s itor);
          s = (if plink + flagNsize (links s plink) = inext then
                 (if inext \<noteq> ppool_last s
                  then set_link plink (flagNsize (links s plink) + flagNsize (links s inext))
                         (lnext (links s inext)) s
                  else set_next plink (ppool_last s) s)
               else set_next plink inext s)
      in if itor \<noteq> plink then set_next itor plink s else s)"

definition insert_link :: "addr \<Rightarrow> pool \<Rightarrow> pool option" where
  "insert_link plink s = do {
     itor \<leftarrow> insert_scan (links s) plink (anchor_at s);
     Some (insert_at itor plink s)
   }"

definition pfree :: "addr \<Rightarrow> pool \<Rightarrow> pool option" where
  "pfree p s =
     (if p = 0 then Some s
      else let plink = p - sizeof_link_t
           in if flagNsize (links s plink) AND PALLOC_ALLOCATED \<noteq> 0 \<and> lnext (links s plink) = 0
              then do {
                let s = set_size plink (flagNsize (links s plink) AND NOT PALLOC_ALLOCATED) s;
                let s = s\<lparr>free_size := free_size s + flagNsize (links s plink)\<rparr>;
                s \<leftarrow> insert_link plink s;
                Some (s\<lparr>num_free := num_free s + 1\<rparr>)
              }
              else Some s)"

section \<open>Cleared allocation, reallocation, statistics\<close>

definition mem_set :: "addr \<Rightarrow> u8 \<Rightarrow> u32 \<Rightarrow> pool \<Rightarrow> pool" where
  "mem_set p b n s = s\<lparr>payload := (\<lambda>a. if a - p < n then b else payload s a)\<rparr>"

text \<open>
  \<open>memcpy (dst, src, n)\<close> where only \<open>own\<close> bytes from \<open>src\<close> on belong to the source block.
  What lies past them (the header of the next block, other payloads, memory outside the pool) is read
  through \<open>beyond\<close>, where \<open>None\<close> is a fault. Overlapping regions are undefined
  for \<open>memcpy\<close>: the result is \<open>None\<close>, as for a fault.
\<close>

definition mem_copy :: "(addr \<Rightarrow> u8 option) \<Rightarrow> addr \<Rightarrow> addr \<Rightarrow> u32 \<Rightarrow> u32 \<Rightarrow> pool \<Rightarrow> pool option" where
  "mem_copy beyond dst src own n s =
     (if dst - src < n \<or> src - dst < n then None
      else if \<not> list_all (\<lambda>i. beyond (src + of_nat i) \<noteq> None) [unat own ..< unat n] then None
      else Some (s\<lparr>payload := (\<lambda>a. if a - dst < n
             then (if a - dst < own then payload s (src + (a - dst)) else the (beyond (src + (a - dst))))
             else payload s a)\<rparr>))"

definition pcalloc :: "u32 \<Rightarrow> u32 \<Rightarrow> pool \<Rightarrow> (addr \<times> pool) option" where
  "pcalloc num sz s =
     (let tsize = num * sz
      in if tsize > 0 then do {
           (ptr, s) \<leftarrow> palloc tsize s;
           Some (ptr, if ptr \<noteq> 0 then mem_set ptr 0 tsize s else s)
         }
         else Some (0, s))"

definition prealloc :: "(addr \<Rightarrow> u8 option) \<Rightarrow> addr \<Rightarrow> u32 \<Rightarrow> pool \<Rightarrow> (addr \<times> pool) option" where
  "prealloc beyond ap nbytes s =
     (if ap = 0 then palloc nbytes s
      else let plink = ap - sizeof_link_t;
               csize = flagNsize (links s plink) AND NOT PALLOC_ALLOCATED
           in if csize < nbytes then do {
                (ptr, s) \<leftarrow> palloc nbytes s;
                if ptr \<noteq> 0 then do {
                  s \<leftarrow> mem_copy beyond ptr ap (csize - sizeof_link_t) nbytes s;
                  s \<leftarrow> pfree ap s;
                  Some (ptr, s)
                } else Some (ptr, s)
              }
              else Some (ap, s))"

record palloc_stat =
  st_links :: u32
  st_largest :: u32
  st_smallest :: u32

partial_function (option) stats_scan :: "(addr \<Rightarrow> link) \<Rightarrow> palloc_stat \<Rightarrow> addr \<Rightarrow> palloc_stat option" where
  "stats_scan h st itor =
     (if itor = 0 then Some st
      else let n = flagNsize (h itor);
               st = st\<lparr>st_links := st_links st + 1\<rparr>;
               st = (if st_largest st < n then st\<lparr>st_largest := n\<rparr> else st);
               st = (if n > 0 \<and> st_smallest st > n then st\<lparr>st_smallest := n\<rparr> else st)
           in stats_scan h st (lnext (h itor)))"

text \<open>The results: the free size, then largest, smallest and number of links through pointers.\<close>

definition palloc_stats :: "pool \<Rightarrow> (u32 \<times> palloc_stat) option" where
  "palloc_stats s = do {
     st \<leftarrow> stats_scan (links s) \<lparr>st_links = 0, st_largest = 0, st_smallest = - 1\<rparr> (anchor_next s);
     let smallest = (if st_smallest st = - 1 then 0 else st_smallest st);
     Some (free_size s, st\<lparr>st_smallest := smallest - sizeof_link_t,
                           st_largest := st_largest st - sizeof_link_t\<rparr>)
   }"

section \<open>Adding a pool\<close>

partial_function (option) init_scan ::
  "(addr \<Rightarrow> link) \<Rightarrow> addr \<Rightarrow> addr \<Rightarrow> addr \<Rightarrow> (addr \<times> addr) option" where
  "init_scan h start prev_pstart next_pstart =
     (if next_pstart \<noteq> 0 \<and> next_pstart < start
      then init_scan h start (if lnext (h next_pstart) \<noteq> 0 then next_pstart else prev_pstart)
             (lnext (h next_pstart))
      else Some (prev_pstart, next_pstart))"

definition palloc_init :: "addr \<Rightarrow> addr \<Rightarrow> pool \<Rightarrow> pool option" where
  "palloc_init pstart pend s =
     (let start = ALIGNED_VALUE pstart;
          pool_end = ALIGNED_VALUE pend;
          block_size = pool_end - start
      in if block_size > sizeof_link_t * 2 then do {
           (prev_pstart, next_pstart) \<leftarrow>
             init_scan (links s) start (anchor_at s) (anchor_next s);
           let (block_size, s) =
             (if next_pstart = 0 then
                let plink = ppool_last s;
                    s = s\<lparr>ppool_last := start + block_size - sizeof_link_t\<rparr>;
                    s = set_block start (ppool_last s) (block_size - sizeof_link_t) 0 plink s
                in (block_size,
                    if anchor_next s = 0 then set_link (anchor_at s) 0 start s else s)
              else if next_pstart > start then
                (block_size,
                 set_block start (start + block_size - sizeof_link_t) (block_size - sizeof_link_t)
                   next_pstart prev_pstart s)
              else (0, s));
           Some (if block_size \<noteq> 0
                 then s\<lparr>free_size := free_size s + flagNsize (links s start),
                        pool_size := pool_size s + block_size\<rparr>
                 else s)
         }
         else Some s)"

section \<open>Free lists as lists of blocks\<close>

type_synonym blk = "addr \<times> u32"

text \<open>The header words from \<open>p\<close> on represent the blocks \<open>xs\<close> and end at \<open>q\<close>.\<close>

primrec seg :: "(addr \<Rightarrow> link) \<Rightarrow> addr \<Rightarrow> blk list \<Rightarrow> addr \<Rightarrow> bool" where
  "seg h p [] q \<longleftrightarrow> p = q"
| "seg h p (b # bs) q \<longleftrightarrow>
     p = fst b \<and> p \<noteq> 0 \<and> flagNsize (h p) = snd b \<and> seg h (lnext (h p)) bs q"

text \<open>The memory of a block (its header at least), and blocks that do not overlap.\<close>

definition bend :: "blk \<Rightarrow> nat" where
  "bend b = unat (fst b) + max 8 (unat (snd b))"

definition before :: "blk \<Rightarrow> blk \<Rightarrow> bool" where
  "before b c \<longleftrightarrow> bend b \<le> unat (fst c)"

definition apart :: "blk \<Rightarrow> blk \<Rightarrow> bool" where
  "apart b c \<longleftrightarrow> before b c \<or> before c b"

text \<open>First-fit allocation on the list of free blocks.\<close>

fun ff_alloc :: "u32 \<Rightarrow> blk list \<Rightarrow> (blk \<times> blk list) option" where
  "ff_alloc n [] = None"
| "ff_alloc n (b # bs) =
     (if snd b < n then map_option (\<lambda>(c, cs). (c, b # cs)) (ff_alloc n bs)
      else if snd b - n > sizeof_link_t * 2
           then Some ((fst b, n), (fst b + n, snd b - n) # bs)
      else Some (b, bs))"

text \<open>Release: join with the next block unless that is the end mark, insert in address order.\<close>

fun join_right :: "addr \<Rightarrow> blk \<Rightarrow> blk list \<Rightarrow> blk list" where
  "join_right l b [] = [b]"
| "join_right l b (d # ds) =
     (if fst b + snd b = fst d \<and> fst d \<noteq> l then (fst b, snd b + snd d) # ds else b # d # ds)"

definition join_left :: "addr \<Rightarrow> blk list \<Rightarrow> blk \<Rightarrow> blk list \<Rightarrow> blk list" where
  "join_left l xs b ys =
     (if xs \<noteq> [] \<and> fst (last xs) + snd (last xs) = fst b
      then butlast xs @ join_right l (fst (last xs), snd (last xs) + snd b) ys
      else xs @ join_right l b ys)"

definition co_insert :: "addr \<Rightarrow> blk \<Rightarrow> blk list \<Rightarrow> blk list" where
  "co_insert l b fs =
     join_left l (takeWhile (\<lambda>c. fst c < fst b) fs) b (dropWhile (\<lambda>c. fst c < fst b) fs)"

text \<open>
  The layout of a pool with end mark \<open>l\<close>: the free list is in address order and ends in the end
  mark; free and live blocks lie inside the address space and within less than \<open>2 ^ 31\<close> bytes
  of each other, and do not overlap each other or the anchor; live blocks lie below the end mark.
\<close>

definition layout :: "addr \<Rightarrow> addr \<Rightarrow> blk list \<Rightarrow> blk set \<Rightarrow> bool" where
  "layout anchor l fs al \<longleftrightarrow>
     (fs = [] \<longrightarrow> l = 0 \<and> al = {}) \<and>
     (fs \<noteq> [] \<longrightarrow> last fs = (l, 0) \<and> (\<forall>b\<in>al. before b (l, 0))) \<and>
     sorted_wrt before fs \<and>
     (\<forall>b\<in>al. \<forall>c\<in>al. b \<noteq> c \<longrightarrow> apart b c) \<and>
     (\<forall>b\<in>set fs. \<forall>c\<in>al. apart b c) \<and>
     (\<forall>b\<in>set fs \<union> al. fst b \<noteq> 0 \<and> bend b < 2 ^ 32 \<and> apart (anchor, 0) b) \<and>
     (\<forall>b\<in>set fs \<union> al. \<forall>c\<in>set fs \<union> al. bend b < unat (fst c) + 2 ^ 31)"

text \<open>A live block carries the allocated flag and a null link.\<close>

definition live_in :: "(addr \<Rightarrow> link) \<Rightarrow> blk \<Rightarrow> bool" where
  "live_in h b \<longleftrightarrow> h (fst b) = \<lparr>lnext = 0, flagNsize = snd b OR PALLOC_ALLOCATED\<rparr>"

text \<open>
  The invariant: the list that starts at the anchor holds the blocks \<open>fs\<close>, the blocks
  \<open>al\<close> are live, and \<open>_free_size\<close> is the sum of the free blocks.
\<close>

definition pool_inv :: "pool \<Rightarrow> blk list \<Rightarrow> blk set \<Rightarrow> bool" where
  "pool_inv s fs al \<longleftrightarrow>
     anchor_at s \<noteq> 0 \<and>
     seg (links s) (anchor_at s) ((anchor_at s, 0) # fs) 0 \<and>
     layout (anchor_at s) (ppool_last s) fs al \<and>
     (\<forall>b\<in>al. live_in (links s) b) \<and>
     unat (free_size s) = sum_list (map (\<lambda>b. unat (snd b)) fs)"

section \<open>Header updates and segments\<close>

lemma link_eta:
  "l\<lparr>lnext := r\<rparr> = \<lparr>lnext = r, flagNsize = flagNsize l\<rparr>"
  "l\<lparr>flagNsize := n\<rparr> = \<lparr>lnext = lnext l, flagNsize = n\<rparr>" for l :: link
  by (cases l, simp)+

lemma set_next_sel [simp]:
  "links (set_next a n s) = (links s)(a := (links s a)\<lparr>lnext := n\<rparr>)"
  "anchor_at (set_next a n s) = anchor_at s" "ppool_last (set_next a n s) = ppool_last s"
  "free_size (set_next a n s) = free_size s" "payload (set_next a n s) = payload s"
  by (simp_all add: set_next_def)

lemma set_size_sel [simp]:
  "links (set_size a n s) = (links s)(a := (links s a)\<lparr>flagNsize := n\<rparr>)"
  "anchor_at (set_size a n s) = anchor_at s" "ppool_last (set_size a n s) = ppool_last s"
  "free_size (set_size a n s) = free_size s" "payload (set_size a n s) = payload s"
  by (simp_all add: set_size_def)

lemma set_link_sel [simp]:
  "links (set_link a z n s) = (links s)(a := \<lparr>lnext = n, flagNsize = z\<rparr>)"
  "anchor_at (set_link a z n s) = anchor_at s" "ppool_last (set_link a z n s) = ppool_last s"
  "free_size (set_link a z n s) = free_size s" "payload (set_link a z n s) = payload s"
  by (simp_all add: set_link_def link_eta)

lemma seg_append: "seg h p (xs @ ys) q \<longleftrightarrow> (\<exists>r. seg h p xs r \<and> seg h r ys q)"
  by (induction xs arbitrary: p) auto

lemma seg_upd [simp]: "a \<notin> fst ` set xs \<Longrightarrow> seg (h(a := l)) p xs q = seg h p xs q"
  by (induction xs arbitrary: p) auto

lemma seg_relink:
  assumes "seg h p (xs @ [b]) q" and "fst b \<notin> fst ` set xs"
  shows "seg (h(fst b := \<lparr>lnext = r, flagNsize = n\<rparr>)) p (xs @ [(fst b, n)]) r"
  using assms by (auto simp: seg_append)

lemma seg_last_next: "seg h p (xs @ [b]) q \<Longrightarrow> lnext (h (fst b)) = q \<and> flagNsize (h (fst b)) = snd b"
  by (auto simp: seg_append)

lemma seg_hd: "seg h p (b # xs) q \<Longrightarrow> p = fst b"
  by simp

section \<open>Order of blocks\<close>

lemma before_less: "before b c \<Longrightarrow> fst b < fst c"
  by (auto simp: before_def bend_def word_less_nat_alt max_def split: if_splits)

lemma apart_sym: "apart b c \<longleftrightarrow> apart c b"
  by (auto simp: apart_def)

lemma apart_neq: "apart b c \<Longrightarrow> fst b \<noteq> fst c"
  by (auto simp: apart_def dest: before_less)

lemma sorted_before_distinct: "sorted_wrt before fs \<Longrightarrow> distinct (map fst fs)"
proof (induction fs)
  case (Cons b fs)
  then have "fst b \<notin> fst ` set fs" by (auto dest!: before_less)
  with Cons show ?case by simp
qed simp

lemma sorted_before_less: "sorted_wrt before (xs @ b # ys) \<Longrightarrow> c \<in> set xs \<Longrightarrow> fst c < fst b"
  by (auto simp: sorted_wrt_append dest: before_less)

lemma before_trans: "before a b \<Longrightarrow> before b c \<Longrightarrow> before a c"
  by (auto simp: before_def bend_def max_def split: if_splits)

section \<open>The scans\<close>

declare palloc_scan.simps [code] insert_scan.simps [code]

lemma palloc_scan_seg:
  assumes "seg h p fs 0" and "fs \<noteq> []"
  shows "\<exists>xs b ys. fs = xs @ b # ys \<and> (\<forall>c\<in>set xs. snd c < n) \<and> (snd b < n \<longrightarrow> ys = []) \<and>
    palloc_scan h n prev p = Some (last (prev # map fst xs), fst b)"
  using assms
proof (induction fs arbitrary: p prev)
  case (Cons b fs)
  then have p: "p = fst b" "p \<noteq> 0" "flagNsize (h p) = snd b" "seg h (lnext (h p)) fs 0"
    by auto
  show ?case
  proof (cases "snd b < n \<and> fs \<noteq> []")
    case True
    with p(4) have nx: "lnext (h p) \<noteq> 0" by (cases fs) auto
    from Cons.IH [OF p(4)] True obtain xs c ys where "fs = xs @ c # ys" "\<forall>c\<in>set xs. snd c < n"
      "snd c < n \<longrightarrow> ys = []" "palloc_scan h n p (lnext (h p)) = Some (last (p # map fst xs), fst c)"
      by blast
    with True p nx show ?thesis
      by (intro exI [of _ "b # xs"] exI [of _ c] exI [of _ ys]) (auto simp: palloc_scan.simps [of h n prev "fst b"])
  next
    case False
    moreover have "\<not> (flagNsize (h p) < n \<and> lnext (h p) \<noteq> 0)"
      using False p by (cases fs) auto
    ultimately show ?thesis
      using p by (intro exI [of _ "[]"] exI [of _ b] exI [of _ fs]) (auto simp: palloc_scan.simps [of h n prev "fst b"])
  qed
qed simp

lemma insert_scan_seg:
  assumes "seg h p (c # xs @ ys) 0" and "\<forall>b\<in>set xs. fst b < a" and "ys \<noteq> []" and "\<not> fst (hd ys) < a"
  shows "insert_scan h a p = Some (last (fst c # map fst xs))"
  using assms
proof (induction xs arbitrary: p c)
  case Nil
  then show ?case
    by (cases ys) (auto simp: insert_scan.simps [of h a "fst c"])
next
  case (Cons b xs)
  then have "insert_scan h a (fst b) = Some (last (fst b # map fst xs))" by auto
  with Cons.prems show ?case
    by (auto simp: insert_scan.simps [of h a "fst c"])
qed

section \<open>The allocated flag and alignment\<close>

lemma bit31: "bit (n :: u32) 31 \<longleftrightarrow> unat n \<ge> 2 ^ 31"
proof -
  have "bit n 31 = bit (unat n) 31"
    by (simp add: bit_unsigned_iff)
  also have "\<dots> = odd (unat n div 2 ^ 31)"
    by (rule bit_iff_odd)
  finally have "bit n 31 = odd (unat n div 2 ^ 31)" .
  moreover have "unat n div 2 ^ 31 < 2" using unat_u32_less [of n] by (simp add: less_mult_imp_div_less del: unat_u32_less)
  ultimately show ?thesis
    by (auto simp: less_2_cases_iff div_eq_0_iff)
qed

lemma palloc_flag_exp: "PALLOC_ALLOCATED = 2 ^ 31"
  by (simp add: PALLOC_ALLOCATED_def)

lemma flag_clear: "n AND PALLOC_ALLOCATED = 0 \<longleftrightarrow> unat n < 2 ^ 31"
  unfolding palloc_flag_exp and_exp_eq_0_iff_not_bit bit31 by (rule not_le)

lemma flag_set: "(n OR PALLOC_ALLOCATED) AND PALLOC_ALLOCATED \<noteq> 0"
  unfolding palloc_flag_exp and_exp_eq_0_iff_not_bit by (simp only: bit_or_iff bit_exp_iff) simp

lemma flag_strip:
  assumes "unat n < 2 ^ 31"
  shows "(n OR PALLOC_ALLOCATED) AND NOT PALLOC_ALLOCATED = n"
proof (rule bit_eqI)
  fix k
  have "\<not> bit n 31" using assms bit31 [of n] by simp
  then show "bit ((n OR PALLOC_ALLOCATED) AND NOT PALLOC_ALLOCATED) k = bit n k"
    unfolding palloc_flag_exp bit_and_iff bit_or_iff bit_not_iff bit_exp_iff
    using bit_imp_le_length [of n k] by auto
qed

lemma and_not_3: "x AND NOT 3 = x - x mod (4 :: u32)"
proof -
  have m: "(3 :: u32) = mask 2" by (simp add: mask_eq_exp_minus_1)
  have "x AND NOT (mask 2) = push_bit 2 (drop_bit 2 x)"
  proof (rule bit_eqI)
    fix n
    have "2 \<le> n \<Longrightarrow> Suc (Suc (n - 2)) = n" by simp
    then show "bit (x AND NOT (mask 2)) n = bit (push_bit 2 (drop_bit 2 x)) n"
      by (cases "2 \<le> n") (auto simp: bit_and_iff bit_not_iff bit_mask_iff bit_push_bit_iff bit_drop_bit_eq
        intro: bit_imp_le_length)
  qed
  also have "\<dots> = x - take_bit 2 x"
    using bits_ident [of 2 x] by (metis add_diff_cancel_right')
  finally show ?thesis
    unfolding m by (simp add: take_bit_eq_mod)
qed

lemma unat_aligned:
  assumes "unat a + 3 < 2 ^ 32"
  shows "unat (ALIGNED_VALUE a) = (unat a + 3) div 4 * 4"
proof -
  have s: "unat (a + 3) = unat a + 3" using assms by (simp add: unat_word_ariths)
  have m: "unat ((a + 3) mod 4) = (unat a + 3) mod 4" by (simp only: unat_mod s) simp
  then have "unat (a + 3 - (a + 3) mod 4) = (unat a + 3) - (unat a + 3) mod 4"
    using s by (subst unat_sub) (simp_all add: word_le_nat_alt del: unat_mod)
  then show ?thesis
    unfolding ALIGNED_VALUE_def ALIGNED_MASK_def and_not_3 by (simp only: minus_mod_eq_div_mult)
qed

text \<open>The rounded request: large enough for header and payload, and more than a header.\<close>

lemma request_size:
  assumes "n \<noteq> 0" and "unat n \<le> 0xFFFFFFF4"
  shows "unat n + 8 \<le> unat (ALIGNED_VALUE (n + sizeof_link_t))"
    and "8 < unat (ALIGNED_VALUE (n + sizeof_link_t))"
    and "unat (ALIGNED_VALUE (n + sizeof_link_t)) < unat n + 12"
proof -
  have n: "0 < unat n" using assms(1) by (simp add: unat_gt_0)
  have s: "unat (n + sizeof_link_t) = unat n + 8"
    using assms(2) by (simp add: sizeof_link_t_def unat_word_ariths)
  have a: "unat (ALIGNED_VALUE (n + sizeof_link_t)) = (unat n + 8 + 3) div 4 * 4"
    using unat_aligned [of "n + sizeof_link_t"] s assms(2) by simp
  show "unat n + 8 \<le> unat (ALIGNED_VALUE (n + sizeof_link_t))"
    "unat (ALIGNED_VALUE (n + sizeof_link_t)) < unat n + 12"
    unfolding a by linarith+
  with n show "8 < unat (ALIGNED_VALUE (n + sizeof_link_t))" by linarith
qed

section \<open>First fit keeps the layout\<close>

text \<open>A block inside another one is before and apart from the same blocks.\<close>

definition within :: "blk \<Rightarrow> blk \<Rightarrow> bool" where
  "within b c \<longleftrightarrow> unat (fst c) \<le> unat (fst b) \<and> bend b \<le> bend c"

lemma within_before:
  "within b c \<Longrightarrow> before d c \<Longrightarrow> before d b"
  "within b c \<Longrightarrow> before c d \<Longrightarrow> before b d"
  by (auto simp: within_def before_def)

lemma within_apart: "within b c \<Longrightarrow> apart d c \<Longrightarrow> apart d b"
  by (auto simp: apart_def dest: within_before)

lemma before_bend: "before b c \<Longrightarrow> unat (fst b) < unat (fst c)"
  by (auto simp: before_def bend_def)

lemma bend_greater: "unat (fst b) < bend b" "unat (fst b) + unat (snd b) \<le> bend b"
  by (auto simp: bend_def)

lemma block_split:
  assumes "bend (a, k) < 2 ^ 32" and "n \<le> k" and "k - n > sizeof_link_t * 2" and "8 \<le> unat n"
  shows "unat (a + n) = unat a + unat n" and "unat (k - n) = unat k - unat n"
    and "within (a, n) (a, k)" and "within (a + n, k - n) (a, k)"
    and "before (a, n) (a + n, k - n)" and "unat n < unat k"
proof -
  have kn: "unat n \<le> unat k" using assms(2) by (simp add: word_le_nat_alt)
  show k: "unat (k - n) = unat k - unat n" using assms(2) by (rule unat_sub)
  have big: "16 < unat k - unat n"
    using assms(3) by (simp add: sizeof_link_t_def word_less_nat_alt k)
  show a: "unat (a + n) = unat a + unat n"
    using assms(1) kn by (simp add: bend_def unat_word_ariths)
  show "within (a, n) (a, k)" "within (a + n, k - n) (a, k)" "before (a, n) (a + n, k - n)" "unat n < unat k"
    using kn k a big assms(4) by (auto simp: within_def before_def bend_def)
qed

lemma ff_alloc_append:
  assumes "\<forall>c\<in>set xs. snd c < n"
  shows "ff_alloc n (xs @ ys) = map_option (\<lambda>(c, cs). (c, xs @ cs)) (ff_alloc n ys)"
  using assms by (induction xs) (cases "ff_alloc n ys"; auto)+

lemma ff_alloc_None: "ff_alloc n fs = None \<longleftrightarrow> (\<forall>b\<in>set fs. snd b < n)"
  by (induction fs) auto

lemma ff_alloc_SomeE:
  assumes "ff_alloc n fs = Some (b, fs')"
  obtains xs k ys where "fs = xs @ (fst b, k) # ys" and "\<forall>c\<in>set xs. snd c < n" and "n \<le> k"
    and "b = (fst b, if k - n > sizeof_link_t * 2 then n else k)"
    and "fs' = xs @ (if k - n > sizeof_link_t * 2 then [(fst b + n, k - n)] else []) @ ys"
  using assms
proof (induction fs arbitrary: fs' thesis)
  case (Cons c cs)
  show ?case
  proof (cases "snd c < n")
    case True
    with Cons.prems(2) obtain cs' where "ff_alloc n cs = Some (b, cs')" "fs' = c # cs'"
      by auto
    with True show ?thesis
      using Cons.IH [of cs'] Cons.prems(1) by (metis append_Cons set_ConsD)
  next
    case False
    with Cons.prems(2) show ?thesis
      by (intro Cons.prems(1) [of "[]" "snd c" cs]) (auto split: if_splits)
  qed
qed simp

lemma layout_last:
  assumes "layout anchor l (xs @ (a, k) # ys) al" and "0 < unat k"
  shows "ys \<noteq> []" and "last ys = (l, 0)" and "a \<noteq> l"
proof -
  show ys: "ys \<noteq> []" using assms by (auto simp: layout_def)
  with assms(1) show l: "last ys = (l, 0)" by (auto simp: layout_def)
  have "before (a, k) (last ys)"
    using assms(1) last_in_set [OF ys] by (simp add: layout_def sorted_wrt_append)
  then show "a \<noteq> l" using l before_less by fastforce
qed

lemma layout_take:
  assumes "layout anchor l (xs @ b # ys) al" and "0 < unat (snd b)"
  shows "layout anchor l (xs @ ys) (insert b al)"
proof -
  have ys: "ys \<noteq> []" "last ys = (l, 0)"
    using layout_last [of anchor l xs "fst b" "snd b" ys al] assms by auto
  then have "(l, 0) \<in> set ys" by (metis last_in_set)
  with ys assms(1) show ?thesis
    by (auto simp: layout_def sorted_wrt_append apart_def)
qed

lemma layout_split:
  assumes "layout anchor l (xs @ b # ys) al" and "0 < unat (snd b)"
    and "within c b" "within d b" "before c d"
  shows "layout anchor l (xs @ c # d # ys) al"
proof -
  have ys: "ys \<noteq> []" "last ys = (l, 0)"
    using layout_last [of anchor l xs "fst b" "snd b" ys al] assms by auto
  have nz: "fst b \<noteq> 0" "bend b < 2 ^ 32" "apart (anchor, 0) b" and al: "\<forall>e\<in>al. apart b e"
    and sp: "\<forall>e\<in>set xs \<union> set ys \<union> al. bend e < unat (fst b) + 2 ^ 31 \<and> bend b < unat (fst e) + 2 ^ 31"
      "bend b < unat (fst b) + 2 ^ 31"
    using assms(1) by (auto simp: layout_def)
  have cd: "fst e \<noteq> 0 \<and> bend e < 2 ^ 32 \<and> apart (anchor, 0) e \<and> (\<forall>c\<in>al. apart e c)"
    if "within e b" for e
  proof -
    have "unat (fst e) \<noteq> 0" using that nz(1) by (auto simp: within_def unat_gt_0 [symmetric])
    moreover have "\<forall>c\<in>al. apart e c" using within_apart [OF that] al apart_sym by blast
    ultimately show ?thesis using that nz within_apart [OF that] by (auto simp: within_def)
  qed
  have s: "bend e < unat (fst c) + 2 ^ 31" "bend c < unat (fst e) + 2 ^ 31"
      "bend e < unat (fst d) + 2 ^ 31" "bend d < unat (fst e) + 2 ^ 31"
    if "e \<in> set xs \<union> set ys \<union> al" for e
    using sp(1) that assms(3,4) unfolding within_def by (meson add_le_mono1 order_less_le_trans order_le_less_trans)+
  show ?thesis
    using assms ys cd [OF assms(3)] cd [OF assms(4)] within_before [OF assms(3)] within_before [OF assms(4)]
      s sp(2)
    by (auto simp: layout_def sorted_wrt_append within_def)
qed

lemma ff_alloc_layout:
  assumes "layout anchor l fs al" and "ff_alloc n fs = Some (b, fs')" and "8 \<le> unat n"
  shows "layout anchor l fs' (insert b al)"
proof -
  obtain xs k ys where fs: "fs = xs @ (fst b, k) # ys" and k: "n \<le> k"
    and b: "b = (fst b, if k - n > sizeof_link_t * 2 then n else k)"
    and fs': "fs' = xs @ (if k - n > sizeof_link_t * 2 then [(fst b + n, k - n)] else []) @ ys"
    using assms(2) by (rule ff_alloc_SomeE)
  have kpos: "0 < unat k" using k assms(3) by (simp add: word_le_nat_alt)
  have bk: "bend (fst b, k) < 2 ^ 32" using assms(1) fs by (auto simp: layout_def)
  show ?thesis
  proof (cases "k - n > sizeof_link_t * 2")
    case True
    note sp = block_split [OF bk k True assms(3)]
    have "layout anchor l (xs @ (fst b, n) # (fst b + n, k - n) # ys) al"
      using layout_split [OF _ _ sp(3-5)] assms(1) fs kpos by simp
    from layout_take [OF this] show ?thesis
      using True b fs' assms(3) by simp
  next
    case False
    then show ?thesis
      using layout_take [of anchor l xs "(fst b, k)" ys al] assms(1) fs fs' b kpos by simp
  qed
qed

section \<open>Allocation on header words\<close>

lemma layout_placed:
  "layout anchor l fs al \<Longrightarrow> b \<in> set fs \<union> al \<Longrightarrow> fst b \<noteq> 0 \<and> bend b < 2 ^ 32 \<and> apart (anchor, 0) b"
  unfolding layout_def by blast

lemma layout_span:
  "layout anchor l fs al \<Longrightarrow> b \<in> set fs \<union> al \<Longrightarrow> c \<in> set fs \<union> al \<Longrightarrow> bend b < unat (fst c) + 2 ^ 31"
  unfolding layout_def by blast

lemma layout_size: "layout anchor l fs al \<Longrightarrow> b \<in> set fs \<union> al \<Longrightarrow> unat (snd b) < 2 ^ 31"
  using layout_span [of anchor l fs al b b] bend_greater(2) [of b] by linarith

lemma layout_sorted: "layout anchor l fs al \<Longrightarrow> sorted_wrt before fs"
  unfolding layout_def by blast

lemma layout_cross: "layout anchor l fs al \<Longrightarrow> b \<in> set fs \<Longrightarrow> c \<in> al \<Longrightarrow> apart b c"
  unfolding layout_def by blast

lemma layout_neq_anchor: "layout anchor l fs al \<Longrightarrow> b \<in> set fs \<union> al \<Longrightarrow> fst b \<noteq> anchor"
  using layout_placed [of anchor l fs al b] apart_neq [of "(anchor, 0)" b] by auto

lemma layout_neq_cross: "layout anchor l fs al \<Longrightarrow> b \<in> al \<Longrightarrow> fst b \<notin> fst ` set ((anchor, 0) # fs)"
  using layout_cross [of anchor l fs al _ b] apart_neq [of _ b] layout_neq_anchor [of anchor l fs al b]
  by (auto simp: image_iff) (metis fst_conv)

lemma seg_distinct_anchor:
  assumes "layout anchor l fs al"
  shows "distinct (map fst ((anchor, 0) # fs))"
  using sorted_before_distinct [OF layout_sorted [OF assms]] layout_neq_anchor [OF assms] by force

text \<open>Unlinking \<open>b\<close> after \<open>c\<close>, and putting a new block in its place.\<close>

lemma seg_unlink:
  assumes "seg h p (ps @ c # b # ys) q" and "distinct (map fst (ps @ c # b # ys))"
  shows "seg (h(fst c := \<lparr>lnext = lnext (h (fst b)), flagNsize = snd c\<rparr>)) p (ps @ c # ys) q"
  using assms by (auto simp: seg_append)

lemma seg_insert:
  assumes "seg h p (ps @ c # ys) q" and "distinct (map fst (ps @ c # ys))"
    and "fst b \<notin> fst ` set (ps @ c # ys)" and "fst b \<noteq> 0"
  shows "seg (h(fst c := \<lparr>lnext = fst b, flagNsize = snd c\<rparr>,
                fst b := \<lparr>lnext = lnext (h (fst c)), flagNsize = snd b\<rparr>)) p (ps @ c # b # ys) q"
  using assms by (auto simp: seg_append image_Un)

lemma palloc_take_eq:
  assumes "p \<noteq> a" and "flagNsize (links s a) - n > sizeof_link_t * 2 \<Longrightarrow> a + n \<noteq> p" and "n \<noteq> 0"
  shows "palloc_take n p a s =
    (let h = links s; k = flagNsize (h a); split = (k - n > sizeof_link_t * 2) in
     (lnext (h p) + sizeof_link_t,
      s\<lparr>links :=
          (if split
           then h(p := \<lparr>lnext = a + n, flagNsize = flagNsize (h p)\<rparr>,
                  a + n := \<lparr>lnext = lnext (h a), flagNsize = k - n\<rparr>,
                  a := \<lparr>lnext = 0, flagNsize = n OR PALLOC_ALLOCATED\<rparr>)
           else h(p := \<lparr>lnext = lnext (h a), flagNsize = flagNsize (h p)\<rparr>,
                  a := \<lparr>lnext = 0, flagNsize = k OR PALLOC_ALLOCATED\<rparr>)),
        free_size := free_size s - (if split then n else k),
        num_alloc := num_alloc s + 1\<rparr>))"
  using assms
  by (auto simp: palloc_take_def Let_def set_next_def set_size_def set_link_def link_eta fun_upd_twist
    intro!: arg_cong [of _ _ "\<lambda>h. links_update h _"] ext)

lemma sum_free_ge: "b \<in> set fs \<Longrightarrow> unat (snd b) \<le> sum_list (map (\<lambda>b. unat (snd b)) fs)" for fs :: "blk list"
  by (induction fs) auto

lemma palloc_enter_None:
  assumes "pool_inv s fs al" and "palloc_enter sz s = None" and "sz \<noteq> 0"
  shows "ff_alloc (ALIGNED_VALUE (sz + sizeof_link_t)) fs = None"
proof (unfold ff_alloc_None, intro ballI)
  define n where "n = ALIGNED_VALUE (sz + sizeof_link_t)"
  fix b assume b: "b \<in> set fs"
  then have "anchor_next s \<noteq> 0"
    using assms(1) by (cases fs) (auto simp: pool_inv_def layout_def)
  then have "n AND PALLOC_ALLOCATED \<noteq> 0 \<or> n > free_size s"
    using assms(2,3) by (auto simp: palloc_enter_def n_def Let_def split: if_splits)
  moreover have "unat (snd b) < 2 ^ 31"
    using assms(1) b layout_size [of "anchor_at s" "ppool_last s" fs al b] by (simp add: pool_inv_def)
  moreover have "unat (snd b) \<le> unat (free_size s)"
    using assms(1) sum_free_ge [OF b] by (simp add: pool_inv_def)
  ultimately show "snd b < ALIGNED_VALUE (sz + sizeof_link_t)"
    using flag_clear [of n] by (auto simp: word_less_nat_alt n_def)
qed

lemma palloc_enter_Some:
  assumes "palloc_enter sz s = Some (n, p)"
  shows "n = ALIGNED_VALUE (sz + sizeof_link_t)" "p = anchor_next s" "sz \<noteq> 0" "p \<noteq> 0"
  using assms by (auto simp: palloc_enter_def Let_def split: if_splits)

lemma seg_fresh:
  assumes "layout anchor l (xs @ b # ys) al" and "within c b" and "fst c \<noteq> fst b"
  shows "fst c \<notin> fst ` (set ((anchor, 0) # xs @ b # ys) \<union> al)"
proof -
  have "apart (anchor, 0) c"
    using within_apart [OF assms(2)] layout_placed [OF assms(1), of b] by simp
  from apart_neq [OF this] have "anchor \<noteq> fst c" by simp
  moreover have "fst e \<noteq> fst c" if "e \<in> set xs \<union> set ys \<union> al" for e
  proof (rule apart_neq [OF within_apart [OF assms(2)]])
    show "apart e b"
      using that layout_sorted [OF assms(1)] layout_cross [OF assms(1), of b e]
      by (auto simp: sorted_wrt_append apart_def)
  qed
  ultimately show ?thesis using assms(3) by (auto simp: image_iff) (metis Un_iff fst_conv)+
qed

text \<open>A free block, the link before it, and what the headers around it hold.\<close>

lemma free_list_at:
  assumes inv: "pool_inv s (xs @ (a, k) # ys) al" and p: "p = last (anchor_at s # map fst xs)"
  obtains ps c where "(anchor_at s, 0) # xs = ps @ [c]" and "p = fst c"
    and "distinct (map fst (ps @ c # (a, k) # ys))"
    and "seg (links s) (anchor_at s) (ps @ c # (a, k) # ys) 0"
    and "lnext (links s p) = a" and "flagNsize (links s p) = snd c" and "flagNsize (links s a) = k"
    and "\<forall>b\<in>al. live_in (links s) b \<and> fst b \<noteq> a \<and> fst b \<noteq> p" and "unat k \<le> unat (free_size s)"
proof -
  let ?A = "(anchor_at s, 0 :: u32)"
  have lay: "layout (anchor_at s) (ppool_last s) (xs @ (a, k) # ys) al"
    and sg: "seg (links s) (anchor_at s) (?A # xs @ (a, k) # ys) 0"
    using inv by (simp_all add: pool_inv_def)
  obtain ps c where pc: "?A # xs = ps @ [c]" by (metis rev_exhaust list.distinct(1))
  have "p = fst (last (?A # xs))" using p by (simp add: last_map)
  then have pfc: "p = fst c" unfolding pc by simp
  have app: "?A # xs @ (a, k) # ys = ps @ c # (a, k) # ys" using pc by (metis append.assoc append_Cons append_Nil)
  have "live_in (links s) b \<and> fst b \<noteq> a \<and> fst b \<noteq> p" if b: "b \<in> al" for b
    using layout_neq_cross [OF lay b] inv b pfc unfolding app by (auto simp: pool_inv_def)
  moreover have "unat k \<le> unat (free_size s)"
    using inv sum_free_ge [of "(a, k)" "xs @ (a, k) # ys"] by (simp add: pool_inv_def)
  moreover note sg [unfolded app] seg_distinct_anchor [OF lay, unfolded app]
  ultimately show ?thesis
    using that [OF pc pfc] pfc by (auto simp: seg_append)
qed

text \<open>The critical section takes the block that first fit chooses, whole or split.\<close>

lemma palloc_take_split:
  assumes inv: "pool_inv s (xs @ (a, k) # ys) al" and nk: "n \<le> k" "8 \<le> unat n"
    and p: "p = last (anchor_at s # map fst xs)" and split: "k - n > sizeof_link_t * 2"
  shows "\<exists>s'. palloc_take n p a s = (a + sizeof_link_t, s') \<and> payload s' = payload s \<and>
    pool_inv s' (xs @ (a + n, k - n) # ys) (insert (a, n) al)"
proof -
  let ?h = "links s" and ?A = "(anchor_at s, 0 :: u32)"
  obtain ps c where pc: "?A # xs = ps @ [c]" and pfc: "p = fst c"
    and d: "distinct (map fst (ps @ c # (a, k) # ys))"
    and sg: "seg ?h (anchor_at s) (ps @ c # (a, k) # ys) 0"
    and hc: "lnext (?h p) = a" "flagNsize (?h p) = snd c" and ha: "flagNsize (?h a) = k"
    and alive: "\<forall>b\<in>al. live_in ?h b \<and> fst b \<noteq> a \<and> fst b \<noteq> p" and fk: "unat k \<le> unat (free_size s)"
    using inv p by (rule free_list_at)
  have lay: "layout (anchor_at s) (ppool_last s) (xs @ (a, k) # ys) al" using inv by (simp add: pool_inv_def)
  have n0: "n \<noteq> 0" using nk(2) by auto
  have "bend (a, k) < 2 ^ 32" using layout_placed [OF lay, of "(a, k)"] by simp
  note sp = block_split [OF this nk(1) split nk(2)]
  have fr: "a + n \<notin> fst ` (set (?A # xs @ (a, k) # ys) \<union> al)"
    using seg_fresh [OF lay sp(4)] n0 by simp
  have "set (ps @ c # ys) \<subseteq> set (?A # xs @ (a, k) # ys)" using arg_cong [OF pc, of set] by auto
  with fr have fr': "a + n \<notin> fst ` set (ps @ c # ys)" "a + n \<noteq> p" using pfc by auto
  have an0: "a + n \<noteq> 0" using sp(1) nk(2) by (auto simp: unat_gt_0 [symmetric])
  let ?h' = "?h(p := \<lparr>lnext = a + n, flagNsize = snd c\<rparr>,
                a + n := \<lparr>lnext = lnext (?h a), flagNsize = k - n\<rparr>,
                a := \<lparr>lnext = 0, flagNsize = n OR PALLOC_ALLOCATED\<rparr>)"
  have "a \<notin> fst ` set (ps @ c # (a + n, k - n) # ys)" using d n0 by auto
  then have "seg ?h' (anchor_at s) (ps @ c # (a + n, k - n) # ys) 0"
    using seg_insert [OF seg_unlink [OF sg d], of "(a + n, k - n)"] d fr' an0 pfc by auto
  then have "seg ?h' (anchor_at s) (?A # xs @ (a + n, k - n) # ys) 0"
    using pc by (metis append.assoc append_Cons append_Nil)
  moreover have "layout (anchor_at s) (ppool_last s) (xs @ (a + n, k - n) # ys) (insert (a, n) al)"
    using layout_take [OF layout_split [OF lay _ sp(3-5)]] nk(2) sp(6) by simp
  moreover have "\<forall>b\<in>insert (a, n) al. live_in ?h' b"
    using alive fr by (auto simp: live_in_def image_iff dest!: bspec)
  moreover have "unat (free_size s - n) = sum_list (map (\<lambda>b. unat (snd b)) (xs @ (a + n, k - n) # ys))"
    using inv fk sp(2,6) by (subst unat_sub) (auto simp: word_le_nat_alt pool_inv_def)
  moreover have "palloc_take n p a s =
      (a + sizeof_link_t, s\<lparr>links := ?h', free_size := free_size s - n, num_alloc := num_alloc s + 1\<rparr>)"
    using split d fr'(2) n0 by (subst palloc_take_eq) (auto simp: pfc hc [unfolded pfc] ha Let_def)
  ultimately show ?thesis
    using inv by (simp add: pool_inv_def)
qed

lemma palloc_take_whole:
  assumes inv: "pool_inv s (xs @ (a, k) # ys) al" and nk: "n \<le> k" "8 \<le> unat n"
    and p: "p = last (anchor_at s # map fst xs)" and whole: "\<not> k - n > sizeof_link_t * 2"
  shows "\<exists>s'. palloc_take n p a s = (a + sizeof_link_t, s') \<and> payload s' = payload s \<and>
    pool_inv s' (xs @ ys) (insert (a, k) al)"
proof -
  let ?h = "links s" and ?A = "(anchor_at s, 0 :: u32)"
  obtain ps c where pc: "?A # xs = ps @ [c]" and pfc: "p = fst c"
    and d: "distinct (map fst (ps @ c # (a, k) # ys))"
    and sg: "seg ?h (anchor_at s) (ps @ c # (a, k) # ys) 0"
    and hc: "lnext (?h p) = a" "flagNsize (?h p) = snd c" and ha: "flagNsize (?h a) = k"
    and alive: "\<forall>b\<in>al. live_in ?h b \<and> fst b \<noteq> a \<and> fst b \<noteq> p" and fk: "unat k \<le> unat (free_size s)"
    using inv p by (rule free_list_at)
  let ?h' = "?h(p := \<lparr>lnext = lnext (?h a), flagNsize = snd c\<rparr>,
                a := \<lparr>lnext = 0, flagNsize = k OR PALLOC_ALLOCATED\<rparr>)"
  have "a \<notin> fst ` set (ps @ c # ys)" using d by auto
  then have "seg ?h' (anchor_at s) (ps @ c # ys) 0"
    using seg_unlink [OF sg d] pfc by simp
  then have "seg ?h' (anchor_at s) (?A # xs @ ys) 0"
    using pc by (metis append.assoc append_Cons append_Nil)
  moreover have "layout (anchor_at s) (ppool_last s) (xs @ ys) (insert (a, k) al)"
    using inv layout_take [of _ _ xs "(a, k)"] nk by (simp add: pool_inv_def word_le_nat_alt)
  moreover have "\<forall>b\<in>insert (a, k) al. live_in ?h' b"
    using alive by (auto simp: live_in_def)
  moreover have "unat (free_size s - k) = sum_list (map (\<lambda>b. unat (snd b)) (xs @ ys))"
    using inv fk by (subst unat_sub) (auto simp: word_le_nat_alt pool_inv_def)
  moreover have "palloc_take n p a s =
      (a + sizeof_link_t, s\<lparr>links := ?h', free_size := free_size s - k, num_alloc := num_alloc s + 1\<rparr>)"
    using whole d nk(2) by (subst palloc_take_eq) (auto simp: pfc hc [unfolded pfc] ha Let_def)
  ultimately show ?thesis
    using inv by (simp add: pool_inv_def)
qed

text \<open>Allocation refines first fit on the list of free blocks.\<close>

lemma palloc_refines_rounded:
  assumes inv: "pool_inv s fs al" and sz: "sz \<noteq> 0" "8 \<le> unat (ALIGNED_VALUE (sz + sizeof_link_t))"
  shows "case ff_alloc (ALIGNED_VALUE (sz + sizeof_link_t)) fs of
      None \<Rightarrow> palloc sz s = Some (0, s)
    | Some (b, fs') \<Rightarrow> \<exists>s'. palloc sz s = Some (fst b + sizeof_link_t, s') \<and>
        payload s' = payload s \<and> pool_inv s' fs' (insert b al)"
proof (cases "palloc_enter sz s")
  case None
  with palloc_enter_None [OF inv None sz(1)] show ?thesis by (simp add: palloc_def)
next
  case (Some np)
  define n where "n = ALIGNED_VALUE (sz + sizeof_link_t)"
  have en: "palloc_enter sz s = Some (n, anchor_next s)" and nz: "anchor_next s \<noteq> 0"
    using Some palloc_enter_Some by (cases np; fastforce simp: n_def)+
  have n8: "8 \<le> unat n" using sz(2) by (simp add: n_def)
  have sg: "seg (links s) (anchor_next s) fs 0" and lay: "layout (anchor_at s) (ppool_last s) fs al"
    using inv by (simp_all add: pool_inv_def)
  from sg nz have "fs \<noteq> []" by auto
  from palloc_scan_seg [OF sg this, of n "anchor_at s"] obtain xs b ys where fs: "fs = xs @ b # ys"
    and xs: "\<forall>c\<in>set xs. snd c < n" and b: "snd b < n \<longrightarrow> ys = []"
    and scan: "palloc_scan (links s) n (anchor_at s) (anchor_next s) =
      Some (last (anchor_at s # map fst xs), fst b)" by blast
  note simps = palloc_def en palloc_crit_def scan
  show ?thesis
  proof (cases "snd b < n")
    case True
    then have "ff_alloc n fs = None" "fst b = ppool_last s"
      using xs b fs lay by (auto simp: ff_alloc_None layout_def)
    then show ?thesis by (simp add: simps n_def [symmetric])
  next
    case False
    have inv': "pool_inv s (xs @ (fst b, snd b) # ys) al" using inv fs by simp
    have le: "n \<le> snd b" using False by simp
    have "fst b \<noteq> ppool_last s"
      using layout_last(3) [of _ _ xs "fst b" "snd b" ys al] lay fs le n8 by (simp add: word_le_nat_alt)
    then show ?thesis
      using ff_alloc_append [OF xs, of "b # ys"] False fs
        palloc_take_split [OF inv' le n8 refl] palloc_take_whole [OF inv' le n8 refl]
      by (auto simp: simps n_def [symmetric])
  qed
qed

lemma palloc_refines:
  assumes "pool_inv s fs al" and "sz \<noteq> 0" and "unat sz \<le> 0xFFFFFFF4"
  shows "case ff_alloc (ALIGNED_VALUE (sz + sizeof_link_t)) fs of
      None \<Rightarrow> palloc sz s = Some (0, s)
    | Some (b, fs') \<Rightarrow> \<exists>s'. palloc sz s = Some (fst b + sizeof_link_t, s') \<and>
        payload s' = payload s \<and> pool_inv s' fs' (insert b al)"
  using request_size(2) [OF assms(2,3)] by (intro palloc_refines_rounded [OF assms(1,2)]) simp

section \<open>Release keeps the layout\<close>

abbreviation total :: "blk list \<Rightarrow> nat" where
  "total fs \<equiv> sum_list (map (\<lambda>b. unat (snd b)) fs)"

lemma total_bound:
  assumes "sorted_wrt before fs" and "\<forall>b\<in>set fs. m \<le> unat (fst b) \<and> bend b \<le> M" and "m \<le> M"
  shows "m + total fs \<le> M"
  using assms
proof (induction fs arbitrary: m)
  case (Cons b fs)
  have "bend b + total fs \<le> M"
    using Cons.prems by (intro Cons.IH) (auto simp: before_def)
  moreover have "m + unat (snd b) \<le> bend b" using Cons.prems(2) bend_greater(2) [of b] by simp
  ultimately show ?case by simp
qed simp

lemma layout_total: "layout anchor l fs al \<Longrightarrow> total fs < 2 ^ 32"
  using total_bound [of fs 0 "2 ^ 32 - 1"] layout_sorted [of anchor l fs al] layout_placed [of anchor l fs al]
  by fastforce

lemma joined:
  assumes "before c d" and "fst c + snd c = fst d" and "bend d < 2 ^ 32"
  shows "unat (snd c + snd d) = unat (snd c) + unat (snd d)"
    and "bend (fst c, snd c + snd d) \<le> bend d" and "unat (fst d) = unat (fst c) + unat (snd c)"
proof -
  have "unat (fst c) + unat (snd c) < 2 ^ 32"
    using assms(1,3) bend_greater [of c] bend_greater [of d] by (simp add: before_def)
  then show d: "unat (fst d) = unat (fst c) + unat (snd c)"
    unfolding assms(2) [symmetric] by (simp add: unat_word_ariths)
  show s: "unat (snd c + snd d) = unat (snd c) + unat (snd d)"
    using d assms(3) bend_greater(2) [of d] by (simp add: unat_word_ariths)
  have "8 \<le> unat (snd c)" using d assms(1) by (simp add: before_def bend_def)
  with d s show "bend (fst c, snd c + snd d) \<le> bend d" by (simp add: bend_def)
qed

lemma layout_join:
  assumes lay: "layout anchor l (xs @ c # d # ys) al" and adj: "fst c + snd c = fst d" and l: "fst d \<noteq> l"
  shows "layout anchor l (xs @ (fst c, snd c + snd d) # ys) al"
    and "total (xs @ (fst c, snd c + snd d) # ys) = total (xs @ c # d # ys)"
proof -
  let ?j = "(fst c, snd c + snd d)"
  have cd: "before c d" using layout_sorted [OF lay] by (simp add: sorted_wrt_append)
  have d: "bend d < 2 ^ 32" using layout_placed [OF lay, of d] by simp
  note j = joined [OF cd adj d]
  show "total (xs @ ?j # ys) = total (xs @ c # d # ys)" using j(1) by simp
  have ys: "ys \<noteq> []" using lay l by (auto simp: layout_def)
  have jb: "before d e \<Longrightarrow> before ?j e" "before e ?j \<longleftrightarrow> before e c" for e
    using j(2) by (simp_all add: before_def)
  have ap: "apart e ?j" if "apart e c" "apart e d" for e
  proof (cases "before e c \<or> before d e")
    case False
    with that have "before c e" "before e d" by (auto simp: apart_def)
    then have "bend c < unat (fst d)" using bend_greater(1) [of e] by (simp add: before_def)
    moreover note j(3)
    ultimately show ?thesis using bend_greater(2) [of c] by simp
  qed (auto simp: apart_def jb)
  have al: "apart ?j e" if "e \<in> al" for e
    using ap [of e] layout_cross [OF lay _ that] apart_sym by auto
  have sp: "bend ?j < unat (fst e) + 2 ^ 31" if "e \<in> set (xs @ c # d # ys) \<union> al" for e
    using layout_span [OF lay, of d e] that j(2) by simp
  show "layout anchor l (xs @ ?j # ys) al"
    using lay ys ap [of "(anchor, 0)"] al jb sp order_le_less_trans [OF j(2) d]
    unfolding layout_def sorted_wrt_append by auto
qed

lemma layout_return:
  assumes lay: "layout anchor l fs al" and b: "b \<in> al"
    and fs: "fs = xs @ ys" and xs: "\<forall>c\<in>set xs. fst c < fst b" and ys: "\<forall>c\<in>set ys. \<not> fst c < fst b"
  shows "layout anchor l (xs @ b # ys) (al - {b})" and "ys \<noteq> []"
proof -
  have bl: "before b (l, 0)" and ne: "fs \<noteq> []" "last fs = (l, 0)" using lay b by (auto simp: layout_def)
  then show ys0: "ys \<noteq> []" using fs xs before_less [OF bl] last_in_set [of xs] by (cases "ys = []") (auto dest!: bspec)
  have "before c b" if "c \<in> set xs" for c
    using layout_cross [OF lay, of c b] that fs b xs before_less [of b c] by (auto simp: apart_def)
  moreover have "before b c" if "c \<in> set ys" for c
    using layout_cross [OF lay, of c b] that fs b ys before_less [of c b] by (auto simp: apart_def)
  ultimately show "layout anchor l (xs @ b # ys) (al - {b})"
    using lay b fs ys0 by (auto simp: layout_def sorted_wrt_append)
qed

lemma join_right_layout:
  assumes "layout anchor l (xs @ b # ys) al"
  shows "layout anchor l (xs @ join_right l b ys) al \<and> total (xs @ join_right l b ys) = total (xs @ b # ys)"
  using assms layout_join [of anchor l xs b "hd ys" "tl ys" al] by (cases ys) auto

lemma join_left_layout:
  assumes "layout anchor l (xs @ b # ys) al" and "fst b \<noteq> l"
  shows "layout anchor l (join_left l xs b ys) al \<and> total (join_left l xs b ys) = total (xs @ b # ys)"
proof (cases "xs \<noteq> [] \<and> fst (last xs) + snd (last xs) = fst b")
  case True
  then have xs: "xs = butlast xs @ [last xs]" by simp
  then have "layout anchor l (butlast xs @ last xs # b # ys) al" using assms(1)
    by (metis append.assoc append_Cons append_Nil)
  from layout_join [OF this _ assms(2)] True
  have "layout anchor l (butlast xs @ (fst (last xs), snd (last xs) + snd b) # ys) al"
    "total (butlast xs @ (fst (last xs), snd (last xs) + snd b) # ys) = total (butlast xs @ last xs # b # ys)"
    by simp_all
  moreover have "total (butlast xs @ last xs # b # ys) = total (xs @ b # ys)"
    by (subst (3) xs) simp
  ultimately show ?thesis
    using join_right_layout [of anchor l "butlast xs" "(fst (last xs), snd (last xs) + snd b)" ys al] True
    by (simp add: join_left_def)
next
  case False
  then show ?thesis using join_right_layout [OF assms(1)] by (auto simp: join_left_def)
qed

lemma co_insert_layout:
  assumes lay: "layout anchor l fs al" and b: "b \<in> al"
  shows "layout anchor l (co_insert l b fs) (al - {b}) \<and> total (co_insert l b fs) = total fs + unat (snd b)"
proof -
  let ?xs = "takeWhile (\<lambda>c. fst c < fst b) fs" and ?ys = "dropWhile (\<lambda>c. fst c < fst b) fs"
  have fs: "fs = ?xs @ ?ys" by simp
  have xs: "\<forall>c\<in>set ?xs. fst c < fst b" by (auto dest: set_takeWhileD)
  have "\<not> fst c < fst b" if "c \<in> set ?ys" for c
  proof (cases ?ys)
    case Nil
    with that show ?thesis by (metis empty_iff list.set(1))
  next
    case (Cons d ds)
    then have "\<not> fst d < fst b" by (metis hd_dropWhile list.distinct(1) list.sel(1))
    moreover have "sorted_wrt before (d # ds)"
      using layout_sorted [OF lay] unfolding Cons [symmetric] by (subst (asm) fs) (simp add: sorted_wrt_append)
    ultimately show ?thesis using that Cons before_less [of d c] by auto
  qed
  then have ys: "\<forall>c\<in>set ?ys. \<not> fst c < fst b" by blast
  have "fst b \<noteq> l" using lay b before_less [of b "(l, 0)"] by (auto simp: layout_def)
  with join_left_layout [OF layout_return(1) [OF lay b fs xs ys]]
  have "layout anchor l (co_insert l b fs) (al - {b})" "total (co_insert l b fs) = total (?xs @ b # ?ys)"
    by (simp_all add: co_insert_def)
  moreover have "total (?xs @ b # ?ys) = total (?xs @ ?ys) + unat (snd b)"
    by (simp del: takeWhile_dropWhile_id)
  ultimately show ?thesis by (simp only: takeWhile_dropWhile_id)
qed

section \<open>Release on header words\<close>

lemma payload_start:
  assumes "bend b < 2 ^ 32"
  shows "unat (fst b + sizeof_link_t) = unat (fst b) + 8" and "fst b + sizeof_link_t \<noteq> 0"
proof -
  have "unat (fst b) + 8 < 2 ^ 32" using assms by (simp add: bend_def)
  then show u: "unat (fst b + sizeof_link_t) = unat (fst b) + 8"
    by (simp add: sizeof_link_t_def unat_word_ariths)
  then show "fst b + sizeof_link_t \<noteq> 0" by (metis add_eq_0_iff_both_eq_0 unat_0 zero_neq_numeral)
qed

lemma insert_at_left:
  assumes "c + flagNsize (links s c) = b" and "lnext (links s c) = d" and "d \<noteq> c"
  shows "insert_at c b s = s\<lparr>links := (links s)(c :=
    let m = flagNsize (links s c) + flagNsize (links s b)
    in if c + m = d \<and> d \<noteq> ppool_last s then \<lparr>lnext = lnext (links s d), flagNsize = m + flagNsize (links s d)\<rparr>
       else \<lparr>lnext = d, flagNsize = m\<rparr>)\<rparr>"
  using assms by (simp add: insert_at_def set_next_def set_size_def set_link_def link_eta Let_def)

lemma insert_at_right:
  assumes "c + flagNsize (links s c) \<noteq> b" and "lnext (links s c) = d" and "b \<noteq> c"
  shows "insert_at c b s = s\<lparr>links := (links s)(b :=
    (if b + flagNsize (links s b) = d \<and> d \<noteq> ppool_last s
     then \<lparr>lnext = lnext (links s d), flagNsize = flagNsize (links s b) + flagNsize (links s d)\<rparr>
     else \<lparr>lnext = d, flagNsize = flagNsize (links s b)\<rparr>), c := \<lparr>lnext = b, flagNsize = flagNsize (links s c)\<rparr>)\<rparr>"
  using assms by (simp add: insert_at_def set_next_def set_size_def set_link_def link_eta Let_def)

lemma insert_at_seg:
  assumes sg: "seg (links s) p (ps @ c # d # ds) q" and di: "distinct (map fst (ps @ c # d # ds))"
    and b: "fst b \<notin> fst ` set (ps @ c # d # ds)" "fst b \<noteq> 0" "flagNsize (links s (fst b)) = snd b"
  shows "seg (links (insert_at (fst c) (fst b) s)) p
    (if fst c + snd c = fst b then ps @ join_right (ppool_last s) (fst c, snd c + snd b) (d # ds)
     else ps @ c # join_right (ppool_last s) b (d # ds)) q"
proof -
  have h: "lnext (links s (fst c)) = fst d" "flagNsize (links s (fst c)) = snd c" "flagNsize (links s (fst d)) = snd d"
    and sgs: "seg (links s) p ps (fst c)" "seg (links s) (lnext (links s (fst d))) ds q" "fst c \<noteq> 0" "fst d \<noteq> 0"
    using sg by (auto simp: seg_append)
  have n: "fst c \<notin> fst ` set ps" "fst c \<notin> fst ` set ds" "fst c \<noteq> fst d"
    "fst b \<notin> fst ` set ps" "fst b \<notin> fst ` set ds" "fst b \<noteq> fst d" "fst b \<noteq> fst c"
    using di b(1) by auto
  show ?thesis
  proof (cases "fst c + snd c = fst b")
    case True
    show ?thesis
      by (subst insert_at_left [of _ _ _ "fst d"]) (use True h n sgs b in \<open>auto simp: seg_append Let_def\<close>)
  next
    case False
    show ?thesis
      by (subst insert_at_right [of _ _ _ "fst d"]) (use False h n sgs b in \<open>auto simp: seg_append\<close>)
  qed
qed

lemma insert_at_other:
  assumes "lnext (links s a) \<noteq> a" and "b \<noteq> a"
  shows "x \<noteq> a \<Longrightarrow> x \<noteq> b \<Longrightarrow> links (insert_at a b s) x = links s x"
    and "anchor_at (insert_at a b s) = anchor_at s" and "ppool_last (insert_at a b s) = ppool_last s"
    and "free_size (insert_at a b s) = free_size s" and "payload (insert_at a b s) = payload s"
  using insert_at_left [of a s b, OF _ refl assms(1)] insert_at_right [of a s b, OF _ refl assms(2)]
  by (cases "a + flagNsize (links s a) = b"; simp)+

text \<open>Freeing the live block \<open>b\<close> inserts it into the free list, joined with its neighbours.\<close>

lemma insert_link_refines:
  assumes nz: "anchor_at s \<noteq> 0" and sg: "seg (links s) (anchor_at s) ((anchor_at s, 0) # fs) 0"
    and lay: "layout (anchor_at s) (ppool_last s) fs al" and b: "b \<in> al"
    and hb: "flagNsize (links s (fst b)) = snd b"
  shows "\<exists>s'. insert_link (fst b) s = Some s' \<and> anchor_at s' = anchor_at s \<and> ppool_last s' = ppool_last s \<and>
    free_size s' = free_size s \<and> payload s' = payload s \<and>
    seg (links s') (anchor_at s) ((anchor_at s, 0) # co_insert (ppool_last s) b fs) 0 \<and>
    (\<forall>c\<in>al - {b}. links s' (fst c) = links s (fst c))"
proof -
  let ?A = "(anchor_at s, 0 :: u32)"
  define xs ys where "xs = takeWhile (\<lambda>c. fst c < fst b) fs" and "ys = dropWhile (\<lambda>c. fst c < fst b) fs"
  have fs: "fs = xs @ ys" by (simp add: xs_def ys_def)
  have xs: "\<forall>c\<in>set xs. fst c < fst b" unfolding xs_def by (auto dest: set_takeWhileD)
  have "(ppool_last s, 0) \<in> set fs \<and> before b (ppool_last s, 0)"
    using lay b last_in_set [of fs] by (cases "fs = []") (simp_all add: layout_def)
  then have "ys \<noteq> []"
    using before_less [of b "(ppool_last s, 0)"] unfolding ys_def dropWhile_eq_Nil_conv
    by (metis fst_conv order_less_asym)
  then obtain d ds where ys: "ys = d # ds" "\<not> fst d < fst b"
    unfolding ys_def by (metis hd_dropWhile list.collapse)
  obtain ps c where pc: "?A # xs = ps @ [c]" by (metis rev_exhaust list.distinct(1))
  have app: "?A # fs = ps @ c # d # ds" using pc fs ys by (metis append.assoc append_Cons append_Nil)
  have c: "last (anchor_at s # map fst xs) = fst c"
    using arg_cong [OF pc, of last] by (cases "xs = []") (auto simp: last_map)
  have "insert_scan (links s) (fst b) (anchor_at s) = Some (fst c)"
    using insert_scan_seg [of "links s" "anchor_at s" ?A xs ys "fst b"] sg fs xs ys c by simp
  then have il: "insert_link (fst b) s = Some (insert_at (fst c) (fst b) s)" by (simp add: insert_link_def)
  have "seg (links (insert_at (fst c) (fst b) s)) (anchor_at s)
      (if fst c + snd c = fst b then ps @ join_right (ppool_last s) (fst c, snd c + snd b) (d # ds)
       else ps @ c # join_right (ppool_last s) b (d # ds)) 0"
    using sg seg_distinct_anchor [OF lay] layout_neq_cross [OF lay b] layout_placed [OF lay, of b] b hb
    unfolding app by (intro insert_at_seg) auto
  moreover have "(if fst c + snd c = fst b then ps @ join_right (ppool_last s) (fst c, snd c + snd b) (d # ds)
       else ps @ c # join_right (ppool_last s) b (d # ds)) = ?A # co_insert (ppool_last s) b fs"
    using pc layout_neq_anchor [OF lay, of b] b
    by (cases xs rule: rev_cases)
      (auto simp: co_insert_def xs_def [symmetric] ys_def [symmetric] ys(1) join_left_def)
  moreover have "fst e \<noteq> fst c \<and> fst e \<noteq> fst b" if e: "e \<in> al - {b}" for e
    using layout_neq_cross [OF lay, of e] lay b e apart_neq [of b e] unfolding app by (auto simp: layout_def)
  moreover have "lnext (links s (fst c)) \<noteq> fst c" "fst b \<noteq> fst c"
    using sg seg_distinct_anchor [OF lay] layout_neq_cross [OF lay b] unfolding app by (auto simp: seg_append)
  ultimately show ?thesis
    using insert_at_other [of s "fst c" "fst b"] by (simp add: il)
qed

lemma pfree_refines:
  assumes inv: "pool_inv s fs al" and b: "b \<in> al"
  shows "\<exists>s'. pfree (fst b + sizeof_link_t) s = Some s' \<and> payload s' = payload s \<and>
    pool_inv s' (co_insert (ppool_last s) b fs) (al - {b})"
proof -
  have nz: "anchor_at s \<noteq> 0" and sg: "seg (links s) (anchor_at s) ((anchor_at s, 0) # fs) 0"
    and lay: "layout (anchor_at s) (ppool_last s) fs al" and live: "\<forall>c\<in>al. live_in (links s) c"
    and fr: "unat (free_size s) = total fs"
    using inv by (simp_all add: pool_inv_def)
  have p0: "fst b + sizeof_link_t \<noteq> 0"
    using layout_placed [OF lay, of b] b payload_start(2) [of b] by simp
  define s1 where "s1 = set_size (fst b) (snd b) s\<lparr>free_size := free_size s + snd b\<rparr>"
  have hb: "links s (fst b) = \<lparr>lnext = 0, flagNsize = snd b OR PALLOC_ALLOCATED\<rparr>"
    using live b by (simp add: live_in_def)
  have st: "(snd b OR PALLOC_ALLOCATED) AND NOT PALLOC_ALLOCATED = snd b"
    using layout_size [OF lay, of b] b by (intro flag_strip) simp
  obtain s' where s': "insert_link (fst b) s1 = Some s'" "anchor_at s' = anchor_at s" "ppool_last s' = ppool_last s"
    "free_size s' = free_size s + snd b" "payload s' = payload s"
    "seg (links s') (anchor_at s) ((anchor_at s, 0) # co_insert (ppool_last s) b fs) 0"
    "\<forall>c\<in>al - {b}. links s' (fst c) = links s1 (fst c)"
    using insert_link_refines [of s1 fs al b] nz sg lay b layout_neq_cross [OF lay b] by (auto simp: s1_def)
  have "pfree (fst b + sizeof_link_t) s = Some (s'\<lparr>num_free := num_free s' + 1\<rparr>)"
    using p0 s'(1) flag_set [of "snd b"] by (simp add: pfree_def hb st s1_def Let_def)
  moreover have "unat (free_size s + snd b) = total fs + unat (snd b)"
    using co_insert_layout [OF lay b] layout_total fr by (subst unat_word_ariths) (simp, fastforce)
  moreover have "\<forall>c\<in>al - {b}. live_in (links s') c"
  proof
    fix c assume c: "c \<in> al - {b}"
    then have "fst c \<noteq> fst b" using lay b apart_neq [of c b] by (auto simp: layout_def)
    with c s'(7) live show "live_in (links s') c" by (simp add: live_in_def s1_def)
  qed
  ultimately show ?thesis
    using s' nz co_insert_layout [OF lay b] by (auto simp: pool_inv_def)
qed

section \<open>Adding a pool keeps the invariant\<close>

declare init_scan.simps [code] stats_scan.simps [code]

lemma init_scan_seg:
  assumes "seg h p (xs @ ys) 0" and "\<forall>c\<in>set xs. fst c < a" and "ys \<noteq> []" and "\<not> fst (hd ys) < a"
  shows "init_scan h a prev p = Some (last (prev # map fst xs), fst (hd ys))"
  using assms
proof (induction xs arbitrary: p prev)
  case Nil
  then show ?case by (cases ys) (auto simp: init_scan.simps [of h a prev p])
next
  case (Cons c xs)
  then have "lnext (h p) \<noteq> 0" by (cases xs; cases ys) auto
  with Cons show ?case by (auto simp: init_scan.simps [of h a prev "fst c"])
qed

lemma init_scan_end:
  assumes "seg h p xs 0" and "\<forall>c\<in>set xs. fst c < a"
  shows "\<exists>q. init_scan h a prev p = Some (q, 0)"
  using assms
proof (induction xs arbitrary: p prev)
  case Nil
  then show ?case by (simp add: init_scan.simps [of h a prev 0])
next
  case (Cons c xs)
  let ?prev = "if lnext (h p) \<noteq> 0 then p else prev"
  have "\<exists>q. init_scan h a ?prev (lnext (h p)) = Some (q, 0)"
    using Cons.prems by (intro Cons.IH) auto
  moreover have "init_scan h a prev p = init_scan h a ?prev (lnext (h p))"
    using Cons.prems by (subst init_scan.simps) auto
  ultimately show ?case by simp
qed

text \<open>The two blocks of a new region: one free block and the end mark.\<close>

definition region_blocks :: "addr \<Rightarrow> u32 \<Rightarrow> blk list" where
  "region_blocks start n = [(start, n - sizeof_link_t), (start + n - sizeof_link_t, 0)]"

text \<open>A region that may be added: in the address space and apart from all that is in use.\<close>

definition region_ok :: "addr \<Rightarrow> blk list \<Rightarrow> blk set \<Rightarrow> blk \<Rightarrow> bool" where
  "region_ok anchor fs al r \<longleftrightarrow>
     fst r \<noteq> 0 \<and> bend r < 2 ^ 32 \<and> unat (snd r) < 2 ^ 31 \<and> apart (anchor, 0) r \<and>
     (\<forall>b\<in>set fs \<union> al. apart b r \<and> bend b < unat (fst r) + 2 ^ 31 \<and> bend r < unat (fst b) + 2 ^ 31)"

lemma region_parts:
  assumes "bend (a, n) < 2 ^ 32" and "n > sizeof_link_t * 2"
  shows "within (a, n - sizeof_link_t) (a, n)" and "within (a + n - sizeof_link_t, 0) (a, n)"
    and "before (a, n - sizeof_link_t) (a + n - sizeof_link_t, 0)"
    and "unat (n - sizeof_link_t) = unat n - 8"
proof -
  have n: "16 < unat n" using assms(2) by (simp add: sizeof_link_t_def word_less_nat_alt)
  then show n8: "unat (n - sizeof_link_t) = unat n - 8"
    by (simp add: sizeof_link_t_def unat_sub word_le_nat_alt)
  have "unat (a + n) = unat a + unat n"
    using assms(1) n by (simp add: bend_def unat_word_ariths)
  then have "unat (a + n - sizeof_link_t) = unat a + unat n - 8"
    using n by (simp add: sizeof_link_t_def unat_sub word_le_nat_alt)
  then show "within (a, n - sizeof_link_t) (a, n)" "within (a + n - sizeof_link_t, 0) (a, n)"
    "before (a, n - sizeof_link_t) (a + n - sizeof_link_t, 0)"
    using n n8 by (simp_all add: within_def before_def bend_def)
qed

lemma region_apart: "region_ok anchor fs al r \<Longrightarrow> b \<in> set fs \<union> al \<Longrightarrow> apart b r"
  by (simp add: region_ok_def)

lemma region_member:
  assumes r: "region_ok anchor fs al r" and c: "within c r"
  shows "fst c \<noteq> 0 \<and> bend c < 2 ^ 32 \<and> apart (anchor, 0) c"
    and "b \<in> set fs \<union> al \<Longrightarrow> apart b c \<and> bend b < unat (fst c) + 2 ^ 31 \<and> bend c < unat (fst b) + 2 ^ 31"
proof -
  have "fst c \<noteq> 0" using r c by (auto simp: region_ok_def within_def unat_gt_0 [symmetric])
  then show "fst c \<noteq> 0 \<and> bend c < 2 ^ 32 \<and> apart (anchor, 0) c"
    using r c within_apart [OF c] by (auto simp: region_ok_def within_def)
  show "apart b c \<and> bend b < unat (fst c) + 2 ^ 31 \<and> bend c < unat (fst b) + 2 ^ 31" if "b \<in> set fs \<union> al"
  proof -
    have "apart b r" "bend b < unat (fst r) + 2 ^ 31" "bend r < unat (fst b) + 2 ^ 31"
      using r that by (auto simp: region_ok_def)
    with c within_apart [OF c] show ?thesis by (auto simp: within_def)
  qed
qed

lemma region_fresh:
  assumes "region_ok anchor fs al r" and "within c r"
  shows "fst c \<notin> fst ` (set ((anchor, 0) # fs) \<union> al)"
  using region_member [OF assms] apart_neq [of "(anchor, 0)" c] apart_neq [of _ c] by auto metis+

lemma layout_add:
  assumes lay: "layout anchor l (xs @ ys) al" and r: "region_ok anchor (xs @ ys) al r"
    and xs: "\<forall>b\<in>set xs. fst b < fst r" and ys: "\<forall>b\<in>set ys. fst r < fst b"
    and cd: "within c r" "within d r" "before c d"
    and l': "l' = (if ys = [] then fst d else l)" and d0: "snd d = 0"
  shows "layout anchor l' (xs @ c # d # ys) al"
proof -
  note mc = region_member [OF r cd(1)] and md = region_member [OF r cd(2)]
  have bx: "before b r" if "b \<in> set xs" for b
    using region_apart [OF r, of b] that xs before_less [of r b] by (auto simp: apart_def)
  have byy: "before r b" if "b \<in> set ys" for b
    using region_apart [OF r, of b] that ys before_less [of b r] by (auto simp: apart_def)
  note wb = within_before [OF cd(1)] within_before [OF cd(2)]
  have self: "bend r < unat (fst r) + 2 ^ 31" using r by (auto simp: region_ok_def bend_def)
  have cds: "bend c < unat (fst c) + 2 ^ 31" "bend c < unat (fst d) + 2 ^ 31"
      "bend d < unat (fst c) + 2 ^ 31" "bend d < unat (fst d) + 2 ^ 31"
    using cd(1,2) self by (auto simp: within_def)
  have alb: "before b d" if "b \<in> al" "ys = []" for b
  proof -
    have "xs \<noteq> []" "before b (last xs)" using lay that by (auto simp: layout_def)
    then show ?thesis using bx [of "last xs"] wb(3) before_trans by auto
  qed
  have dl: "d = (fst d, 0)" using d0 by (simp add: prod_eq_iff)
  show ?thesis
    using lay mc md bx byy wb cd(3) cds alb dl l'
    unfolding layout_def sorted_wrt_append by (cases "ys = []") (auto simp: apart_sym)
qed


lemma seg_splice:
  assumes "seg h p (ps @ c # ys) q" and "distinct (map fst (ps @ c # ys))"
    and "fst b \<notin> fst ` set (ps @ c # ys)" "fst b \<noteq> 0" and "fst d \<notin> fst ` set (ps @ c # ys)" "fst d \<noteq> 0"
    and "fst b \<noteq> fst d"
  shows "seg (h(fst b := \<lparr>lnext = fst d, flagNsize = snd b\<rparr>,
                fst d := \<lparr>lnext = lnext (h (fst c)), flagNsize = snd d\<rparr>,
                fst c := \<lparr>lnext = fst b, flagNsize = snd c\<rparr>)) p (ps @ c # b # d # ys) q"
  using assms by (auto simp: seg_append image_Un)

text \<open>The link after which \<open>palloc_init\<close> puts the new blocks, and the header words it writes.\<close>

lemma palloc_init_links:
  assumes inv: "pool_inv s (xs @ ys) al" and xs: "\<forall>b\<in>set xs. fst b < start" and ys: "\<forall>b\<in>set ys. start < fst b"
    and st: "start = ALIGNED_VALUE pstart" and n: "n = ALIGNED_VALUE pend - start" "n > sizeof_link_t * 2"
    and fr: "start \<notin> fst ` set ((anchor_at s, 0) # xs @ ys)" "start \<noteq> 0"
      "start + n - sizeof_link_t \<notin> fst ` set ((anchor_at s, 0) # xs @ ys)" "start + n - sizeof_link_t \<noteq> start"
    and pc: "(anchor_at s, 0) # xs = ps @ [c]"
  shows "palloc_init pstart pend s = Some (s\<lparr>
    links := (links s)(start := \<lparr>lnext = start + n - sizeof_link_t, flagNsize = n - sizeof_link_t\<rparr>,
                start + n - sizeof_link_t := \<lparr>lnext = lnext (links s (fst c)), flagNsize = 0\<rparr>,
                fst c := \<lparr>lnext = start, flagNsize = snd c\<rparr>),
    ppool_last := (if ys = [] then start + n - sizeof_link_t else ppool_last s),
    free_size := free_size s + (n - sizeof_link_t), pool_size := pool_size s + n\<rparr>)"
proof -
  let ?m = "start + n - sizeof_link_t"
  have sg: "seg (links s) (anchor_next s) (xs @ ys) 0" "flagNsize (links s (anchor_at s)) = 0"
    and lay: "layout (anchor_at s) (ppool_last s) (xs @ ys) al" using inv by (auto simp: pool_inv_def)
  have app: "(anchor_at s, 0) # xs @ ys = ps @ c # ys" using pc by (metis append.assoc append_Cons append_Nil)
  have sg': "seg (links s) (anchor_at s) (ps @ c # ys) 0"
    using inv unfolding pool_inv_def app by blast
  have fc: "fst c = last (anchor_at s # map fst xs)"
    using arg_cong [OF pc, of last] by (cases "xs = []") (auto simp: last_map)
  have cm: "fst c \<noteq> start" "fst c \<noteq> ?m" and cf: "flagNsize (links s (fst c)) = snd c" and n0: "n \<noteq> 0" "fst c \<noteq> 0"
    and am: "anchor_at s \<noteq> start" "anchor_at s \<noteq> ?m"
    using fr fr(1,3) [unfolded app] sg' n(2) by (auto simp: seg_append sizeof_link_t_def)
  note simps = Let_def set_block_def set_link_def set_next_def set_size_def link_eta
  show ?thesis
  proof (cases "ys = []")
    case True
    then obtain q where q: "init_scan (links s) start (anchor_at s) (anchor_next s) = Some (q, 0)"
      using init_scan_end [of "links s" "anchor_next s" xs start "anchor_at s"] sg(1) xs by auto
    have c: "fst c = (if xs = [] then anchor_at s else ppool_last s)" "lnext (links s (fst c)) = 0"
      "xs \<noteq> [] \<Longrightarrow> ppool_last s \<noteq> 0 \<and> anchor_next s \<noteq> 0" "xs = [] \<Longrightarrow> ppool_last s = 0 \<and> anchor_next s = 0"
    proof -
      have lx: "xs \<noteq> [] \<Longrightarrow> last xs = (ppool_last s, 0)" "xs = [] \<Longrightarrow> ppool_last s = 0" 
        using lay True by (auto simp: layout_def)
      then show "fst c = (if xs = [] then anchor_at s else ppool_last s)"
        using fc by (simp add: last_map)
      show "xs = [] \<Longrightarrow> ppool_last s = 0 \<and> anchor_next s = 0"
        using lay sg(1) True by (simp add: layout_def)
      show "xs \<noteq> [] \<Longrightarrow> ppool_last s \<noteq> 0 \<and> anchor_next s \<noteq> 0"
        using sg(1) layout_placed [OF lay, of "last xs"] lx last_in_set [of xs] by (cases xs) fastforce+
      show "lnext (links s (fst c)) = 0" using sg' True by (auto simp: seg_append)
    qed
    show ?thesis
      using True c cm am fr n(2) n0 cf sg(2)
      unfolding palloc_init_def Let_def st [symmetric] n(1) [symmetric] q
      by (cases "xs = []") (simp_all add: simps)
  next
    case False
    have q: "init_scan (links s) start (anchor_at s) (anchor_next s) = Some (fst c, fst (hd ys))"
      using init_scan_seg [OF sg(1) xs False] ys False by (cases ys) (auto simp: fc)
    have c: "lnext (links s (fst c)) = fst (hd ys)" "fst (hd ys) > start" "fst (hd ys) \<noteq> 0"
      using False sg' ys by (cases ys; auto simp: seg_append)+
    show ?thesis
      using False c cm am fr n(2) n0 cf sg(2)
      unfolding palloc_init_def Let_def st [symmetric] n(1) [symmetric] q
      by (simp add: simps)
  qed
qed


lemma sorted_dropWhile_ge:
  "sorted_wrt before fs \<Longrightarrow> c \<in> set (dropWhile (\<lambda>b. fst b < a) fs) \<Longrightarrow> \<not> fst c < a"
proof (induction fs)
  case (Cons d fs)
  then show ?case using before_less [of d c] by (cases "fst d < a") auto
qed simp

text \<open>Adding a region that is apart from everything in use extends the free list in address order.\<close>

lemma palloc_init_refines:
  assumes inv: "pool_inv s fs al" and st: "start = ALIGNED_VALUE pstart"
    and n: "n = ALIGNED_VALUE pend - start" "n > sizeof_link_t * 2"
    and r: "region_ok (anchor_at s) fs al (start, n)"
  defines "fs' \<equiv> takeWhile (\<lambda>b. fst b < start) fs @ region_blocks start n @ dropWhile (\<lambda>b. fst b < start) fs"
  shows "\<exists>s'. palloc_init pstart pend s = Some s' \<and> pool_inv s' fs' al \<and> payload s' = payload s"
proof -
  let ?A = "(anchor_at s, 0 :: u32)" and ?c = "(start, n - sizeof_link_t)" and ?d = "(start + n - sizeof_link_t, 0)"
  define xs ys where "xs = takeWhile (\<lambda>b. fst b < start) fs" and "ys = dropWhile (\<lambda>b. fst b < start) fs"
  have fs: "fs = xs @ ys" by (simp add: xs_def ys_def)
  have fs': "fs' = xs @ ?c # ?d # ys" by (simp add: fs'_def xs_def ys_def region_blocks_def)
  have lay: "layout (anchor_at s) (ppool_last s) (xs @ ys) al" and sg: "seg (links s) (anchor_at s) (?A # xs @ ys) 0"
    using inv fs by (simp_all add: pool_inv_def)
  have r': "region_ok (anchor_at s) (xs @ ys) al (start, n)" using r fs by simp
  have "bend (start, n) < 2 ^ 32" using r by (simp add: region_ok_def)
  note parts = region_parts [OF this n(2)]
  note mc = region_member [OF r' parts(1)] and md = region_member [OF r' parts(2)]
  have xs: "\<forall>b\<in>set xs. fst b < start" unfolding xs_def by (auto dest: set_takeWhileD)
  have fr: "e \<notin> fst ` (set (?A # xs @ ys) \<union> al)" if "e = start \<or> e = start + n - sizeof_link_t" for e
    using that region_fresh [OF r' parts(1)] region_fresh [OF r' parts(2)] by auto
  have ys: "\<forall>b\<in>set ys. start < fst b"
    using sorted_dropWhile_ge [OF layout_sorted [OF lay [folded fs]], of _ start] fr [of start]
    unfolding ys_def [symmetric] by (metis (no_types, lifting) UnI1 UnI2 image_eqI linorder_neqE set_append set_subset_Cons subsetD)
  have ne: "start + n - sizeof_link_t \<noteq> start" using before_less [OF parts(3)] by auto
  obtain ps c where pc: "?A # xs = ps @ [c]" by (metis rev_exhaust list.distinct(1))
  have app: "?A # xs @ zs = ps @ c # zs" for zs using pc by (metis append.assoc append_Cons append_Nil)
  let ?h = "(links s)(start := \<lparr>lnext = start + n - sizeof_link_t, flagNsize = n - sizeof_link_t\<rparr>,
                start + n - sizeof_link_t := \<lparr>lnext = lnext (links s (fst c)), flagNsize = 0\<rparr>,
                fst c := \<lparr>lnext = start, flagNsize = snd c\<rparr>)"
  have "seg ?h (anchor_at s) (ps @ c # ?c # ?d # ys) 0"
    using seg_splice [OF sg [unfolded app] seg_distinct_anchor [OF lay, unfolded app], of ?c ?d]
      fr [unfolded app] mc(1) md(1) ne by auto
  then have "seg ?h (anchor_at s) (?A # fs') 0" by (simp add: fs' app)
  moreover have "layout (anchor_at s) (if ys = [] then start + n - sizeof_link_t else ppool_last s) fs' al"
    unfolding fs' using layout_add [OF lay r' _ _ parts(1-3)] xs ys by (cases "ys = []") simp_all
  moreover from this have "unat (free_size s + (n - sizeof_link_t)) = total fs'"
    using layout_total inv parts(4) by (subst unat_word_ariths) (fastforce simp: pool_inv_def fs fs')
  moreover have "\<forall>b\<in>al. live_in ?h b"
    using inv fr layout_neq_cross [OF lay, unfolded app] by (auto simp: pool_inv_def live_in_def image_iff)
  moreover have "start \<notin> fst ` set (?A # xs @ ys)" "start + n - sizeof_link_t \<notin> fst ` set (?A # xs @ ys)"
    using fr by blast+
  note eq = palloc_init_links [OF inv [unfolded fs] xs ys st n this(1) _ this(2) ne pc]
  ultimately show ?thesis
    using mc(1) inv by (simp add: eq pool_inv_def)
qed

section \<open>The allocator interface\<close>

text \<open>
  What a client may rely on: an allocation always returns, with null or with a block that fits and
  is new; a release of a live block always returns; live blocks are disjoint.
\<close>

datatype 'r client_op = Alloc 'r | Free nat

text \<open>A client that keeps its live pointers in a list; \<open>Free i\<close> releases the \<open>i\<close>-th one.\<close>

fun run_client ::
  "('r \<Rightarrow> 's \<Rightarrow> ('p \<times> 's) option) \<Rightarrow> ('p \<Rightarrow> 's \<Rightarrow> 's option) \<Rightarrow> 'p \<Rightarrow> 'r client_op list \<Rightarrow>
   's \<times> 'p list \<Rightarrow> ('s \<times> 'p list) option" where
  "run_client alloc release null [] st = Some st"
| "run_client alloc release null (Alloc r # ops) (s, ps) = do {
     (p, s) \<leftarrow> alloc r s;
     run_client alloc release null ops (s, if p = null then ps else p # ps)
   }"
| "run_client alloc release null (Free i # ops) (s, ps) =
     (if i < length ps
      then do {
        s \<leftarrow> release (ps ! i) s;
        run_client alloc release null ops (s, take i ps @ drop (Suc i) ps)
      }
      else run_client alloc release null ops (s, ps))"

locale allocator =
  fixes alloc :: "'r \<Rightarrow> 's \<Rightarrow> ('p \<times> 's) option" and release :: "'p \<Rightarrow> 's \<Rightarrow> 's option" and null :: 'p
    and inv :: "'s \<Rightarrow> 'b set \<Rightarrow> bool" and ptr :: "'b \<Rightarrow> 'p" and request_ok :: "'r \<Rightarrow> bool"
    and fits :: "'r \<Rightarrow> 'b \<Rightarrow> bool" and disjoint_blocks :: "'b \<Rightarrow> 'b \<Rightarrow> bool"
  assumes alloc_law: "inv s al \<Longrightarrow> request_ok r \<Longrightarrow>
      alloc r s = Some (null, s) \<or>
      (\<exists>b s'. alloc r s = Some (ptr b, s') \<and> ptr b \<noteq> null \<and> b \<notin> al \<and> fits r b \<and> inv s' (insert b al))"
    and release_law: "inv s al \<Longrightarrow> b \<in> al \<Longrightarrow> \<exists>s'. release (ptr b) s = Some s' \<and> inv s' (al - {b})"
    and disjoint_law: "inv s al \<Longrightarrow> b \<in> al \<Longrightarrow> c \<in> al \<Longrightarrow> b \<noteq> c \<Longrightarrow> disjoint_blocks b c"
begin

lemma take_drop_distinct:
  assumes "distinct bs" and "i < length bs"
  shows "distinct (take i bs @ drop (Suc i) bs) \<and> set (take i bs @ drop (Suc i) bs) = set bs - {bs ! i}"
  using assms id_take_nth_drop [OF assms(2)]
  by (metis Diff_insert_absorb Un_insert_right distinct.simps(2) distinct_append list.simps(15)
      not_distinct_conv_prefix set_append disjoint_insert(1) insert_Diff1 Un_iff distinct_remove1
      remove1_append)

lemma client_runs:
  assumes "inv s (set bs)" and "distinct bs" and "\<forall>r. Alloc r \<in> set ops \<longrightarrow> request_ok r"
  shows "\<exists>s' bs'. run_client alloc release null ops (s, map ptr bs) = Some (s', map ptr bs') \<and>
    inv s' (set bs') \<and> distinct bs' \<and> (\<forall>b\<in>set bs'. \<forall>c\<in>set bs'. b \<noteq> c \<longrightarrow> disjoint_blocks b c)"
  using assms
proof (induction ops arbitrary: s bs)
  case Nil
  then show ?case using disjoint_law by auto
next
  case (Cons x ops)
  show ?case
  proof (cases x)
    case (Alloc r)
    with Cons.prems have "request_ok r" by simp
    from alloc_law [OF Cons.prems(1) this] show ?thesis
    proof (elim disjE exE conjE)
      assume "alloc r s = Some (null, s)"
      then show ?thesis using Cons Alloc by simp
    next
      fix b s' assume b: "alloc r s = Some (ptr b, s')" "ptr b \<noteq> null" "b \<notin> set bs" "inv s' (insert b (set bs))"
      then show ?thesis using Cons.IH [of s' "b # bs"] Cons.prems Alloc by simp
    qed
  next
    case (Free i)
    show ?thesis
    proof (cases "i < length bs")
      case True
      from release_law [OF Cons.prems(1) nth_mem [OF True]] obtain s' where
        s': "release (ptr (bs ! i)) s = Some s'" "inv s' (set bs - {bs ! i})" by blast
      then show ?thesis
        using Cons.IH [of s' "take i bs @ drop (Suc i) bs"] Cons.prems take_drop_distinct [OF Cons.prems(2) True] True Free
        by (simp add: take_map drop_map)
    next
      case False
      with Cons Free show ?thesis by simp
    qed
  qed
qed

end

text \<open>The bytes a client may use of a block of the pool: after the header, up to its size.\<close>

definition pool_ok :: "pool \<Rightarrow> blk set \<Rightarrow> bool" where
  "pool_ok s al \<longleftrightarrow> (\<exists>fs. pool_inv s fs al)"

definition palloc_request :: "u32 \<Rightarrow> bool" where
  "palloc_request sz \<longleftrightarrow> unat sz \<le> 0xFFFFFFF4"

definition block_fits :: "u32 \<Rightarrow> blk \<Rightarrow> bool" where
  "block_fits sz b \<longleftrightarrow> unat sz + 8 \<le> unat (snd b)"

definition usable :: "blk \<Rightarrow> nat set" where
  "usable b = {unat (fst b) + 8 ..< unat (fst b) + unat (snd b)}"

lemma usable_within: "x \<in> usable b \<Longrightarrow> unat (fst b) \<le> x \<and> x < bend b"
  using bend_greater(2) [of b] by (auto simp: usable_def)

lemma apart_usable:
  assumes "apart b c"
  shows "usable b \<inter> usable c = {}"
proof (rule equals0I)
  fix x assume "x \<in> usable b \<inter> usable c"
  then have "unat (fst b) \<le> x" "x < bend b" "unat (fst c) \<le> x" "x < bend c"
    using usable_within by auto
  with assms show False by (auto simp: apart_def before_def)
qed

lemma ff_alloc_size: "ff_alloc n fs = Some (b, fs') \<Longrightarrow> n \<le> snd b"
  by (induction fs arbitrary: fs') (auto split: if_splits)

lemma ff_alloc_new:
  assumes "layout anchor l fs al" and "ff_alloc n fs = Some (b, fs')" and "8 \<le> unat n"
  shows "b \<notin> al" and "fst b \<noteq> 0 \<and> bend b < 2 ^ 32" 
proof -
  obtain xs k ys where fs: "fs = xs @ (fst b, k) # ys" 
    using assms(2) by (rule ff_alloc_SomeE)
  show "b \<notin> al" using layout_neq_cross [OF assms(1), of b] fs by auto
  show "fst b \<noteq> 0 \<and> bend b < 2 ^ 32"
    using layout_placed [OF ff_alloc_layout [OF assms], of b] by simp
qed

interpretation pl: allocator palloc pfree 0 pool_ok "\<lambda>b. fst b + sizeof_link_t" palloc_request block_fits
  "\<lambda>b c. usable b \<inter> usable c = {}"
proof
  fix s al and sz :: u32
  assume "pool_ok s al" and r: "palloc_request sz"
  then obtain fs where inv: "pool_inv s fs al" by (auto simp: pool_ok_def)
  then have lay: "layout (anchor_at s) (ppool_last s) fs al" by (simp add: pool_inv_def)
  show "palloc sz s = Some (0, s) \<or>
    (\<exists>b s'. palloc sz s = Some (fst b + sizeof_link_t, s') \<and> fst b + sizeof_link_t \<noteq> 0 \<and> b \<notin> al \<and>
       block_fits sz b \<and> pool_ok s' (insert b al))"
  proof (cases "sz = 0")
    case True
    then show ?thesis by (simp add: palloc_def palloc_enter_def)
  next
    case False
    let ?n = "ALIGNED_VALUE (sz + sizeof_link_t)"
    have sz: "unat sz \<le> 0xFFFFFFF4" using r by (simp add: palloc_request_def)
    show ?thesis
    proof (cases "ff_alloc ?n fs")
      case None
      with palloc_refines [OF inv False sz] show ?thesis by simp
    next
      case (Some bf)
      then obtain b fs' where ff: "ff_alloc ?n fs = Some (b, fs')" by (cases bf) auto
      moreover have "block_fits sz b"
        using request_size(1) [OF False sz] ff_alloc_size [OF ff] by (simp add: block_fits_def word_le_nat_alt)
      moreover have "fst b + sizeof_link_t \<noteq> 0" "b \<notin> al"
        using ff_alloc_new [OF lay ff] request_size(2) [OF False sz] payload_start(2) by (meson less_imp_le)+
      moreover obtain s' where "palloc sz s = Some (fst b + sizeof_link_t, s')" "pool_ok s' (insert b al)"
        using palloc_refines [OF inv False sz] ff by (auto simp: pool_ok_def)
      ultimately show ?thesis by blast
    qed
  qed
next
  fix s al and b :: blk
  assume "pool_ok s al" "b \<in> al"
  then show "\<exists>s'. pfree (fst b + sizeof_link_t) s = Some s' \<and> pool_ok s' (al - {b})"
    using pfree_refines unfolding pool_ok_def by metis
next
  fix s al and b c :: blk
  assume "pool_ok s al" "b \<in> al" "c \<in> al" "b \<noteq> c"
  then have "apart b c" by (auto simp: pool_ok_def pool_inv_def layout_def)
  then show "usable b \<inter> usable c = {}" by (rule apart_usable)
qed


lemma palloc_first_fit_lemma:
  assumes "pool_inv s fs al" and "sz \<noteq> 0" and "unat sz \<le> 0xFFFFFFF4"
  shows "case ff_alloc (ALIGNED_VALUE (sz + sizeof_link_t)) fs of
      None \<Rightarrow> palloc sz s = Some (0, s)
    | Some (b, fs') \<Rightarrow> \<exists>s'. palloc sz s = Some (fst b + sizeof_link_t, s') \<and> block_fits sz b \<and>
        payload s' = payload s \<and> pool_inv s' fs' (insert b al)"
proof (cases "ff_alloc (ALIGNED_VALUE (sz + sizeof_link_t)) fs")
  case (Some bf)
  then show ?thesis
    using palloc_refines [OF assms] request_size(1) [OF assms(2,3)] ff_alloc_size [of _ fs "fst bf" "snd bf"]
    by (cases bf) (fastforce simp: block_fits_def word_le_nat_alt)
qed (use palloc_refines [OF assms] in simp)

section \<open>Properties\<close>

text \<open>
  Claim C8. \<open>palloc\<close> is first fit: on a pool whose free list holds the blocks \<open>fs\<close> in address
  order and whose live blocks are \<open>al\<close>, a request returns null and changes nothing when no free
  block is large enough for the rounded size; otherwise it returns the payload of the first block that
  is, split when more than two headers remain, and the pool invariant holds of the new free list and
  the live blocks with the new one. The scan ends in both cases. (Requests up to
  \<open>0xFFFFFFF4\<close> bytes: above that the rounding wraps.)
\<close>

theorem palloc_first_fit:
  assumes "pool_inv s fs al" and "sz \<noteq> 0" and "unat sz \<le> 0xFFFFFFF4"
  shows "case ff_alloc (ALIGNED_VALUE (sz + sizeof_link_t)) fs of
      None \<Rightarrow> palloc sz s = Some (0, s)
    | Some (b, fs') \<Rightarrow> \<exists>s'. palloc sz s = Some (fst b + sizeof_link_t, s') \<and> block_fits sz b \<and>
        payload s' = payload s \<and> pool_inv s' fs' (insert b al)"
  using assms by (rule palloc_first_fit_lemma)

text \<open>A pool after one call of \<open>palloc_init\<close> on an empty allocator, for the witnesses.\<close>

lemma pool_inv_static: "anchor \<noteq> 0 \<Longrightarrow> pool_inv (palloc_static anchor mem bytes) [] {}"
  by (simp add: pool_inv_def palloc_static_def layout_def)

definition pool_ex :: pool where
  "pool_ex = the (palloc_init 0x100 0x200 (palloc_static 0x40 (\<lambda>a. \<lparr>lnext = 0, flagNsize = 0\<rparr>) (\<lambda>a. 0)))"

lemma pool_ex_inv: "pool_inv pool_ex [(0x100, 0xF8), (0x1F8, 0)] {}"
proof -
  let ?s = "palloc_static 0x40 (\<lambda>a. \<lparr>lnext = 0, flagNsize = 0\<rparr>) (\<lambda>a. 0)"
  have a: "ALIGNED_VALUE 0x100 = 0x100" "ALIGNED_VALUE 0x200 = 0x200" by (simp_all add: ALIGNED_VALUE_def ALIGNED_MASK_def)
  have "region_ok (anchor_at ?s) [] {} (0x100, 0x100)"
    by (simp add: region_ok_def palloc_static_def bend_def apart_def before_def)
  then have "\<exists>s'. palloc_init 0x100 0x200 ?s = Some s' \<and>
      pool_inv s' (takeWhile (\<lambda>b. fst b < 0x100) [] @ region_blocks 0x100 0x100 @ dropWhile (\<lambda>b. fst b < 0x100) []) {} \<and>
      payload s' = payload ?s"
    by (intro palloc_init_refines pool_inv_static) (simp_all add: a sizeof_link_t_def)
  then show ?thesis by (auto simp: pool_ex_def region_blocks_def sizeof_link_t_def)
qed

theorem palloc_first_fit_witness:
  "\<exists>s'. palloc 20 pool_ex = Some (0x108, s') \<and> block_fits 20 (0x100, 28) \<and>
     payload s' = payload pool_ex \<and> pool_inv s' [(0x11C, 0xDC), (0x1F8, 0)] {(0x100, 28)}"
  using palloc_first_fit [OF pool_ex_inv, of 20]
  by (simp add: ALIGNED_VALUE_def ALIGNED_MASK_def sizeof_link_t_def)

text \<open>
  Claim C9. \<open>pfree\<close> of the payload of a live block returns, inserts the block into the free list
  in address order, joined with the free block that ends where it starts and with the one that starts
  where it ends (the end mark excepted), and the pool invariant holds again without that live block.
\<close>

theorem pfree_coalesces:
  assumes "pool_inv s fs al" and "b \<in> al"
  shows "\<exists>s'. pfree (fst b + sizeof_link_t) s = Some s' \<and> payload s' = payload s \<and>
    pool_inv s' (co_insert (ppool_last s) b fs) (al - {b})"
  using assms by (rule pfree_refines)

lemma pool_ex_last: "ppool_last pool_ex = 0x1F8"
  using pool_ex_inv by (simp add: pool_inv_def layout_def)

lemma pool_ex_alloc:
  obtains s where "palloc 20 pool_ex = Some (0x108, s)" and "pool_inv s [(0x11C, 0xDC), (0x1F8, 0)] {(0x100, 28)}"
    and "payload s = payload pool_ex" and "ppool_last s = 0x1F8"
proof -
  have "ff_alloc 28 [(0x100, 0xF8), (0x1F8, 0)] = Some ((0x100, 28), [(0x11C, 0xDC), (0x1F8, 0)])"
    by (simp add: sizeof_link_t_def)
  moreover have "ALIGNED_VALUE (20 + sizeof_link_t) = 28"
    by (simp add: ALIGNED_VALUE_def ALIGNED_MASK_def sizeof_link_t_def)
  ultimately obtain s where s: "palloc 20 pool_ex = Some (0x108, s)" "payload s = payload pool_ex"
    "pool_inv s [(0x11C, 0xDC), (0x1F8, 0)] {(0x100, 28)}"
    using palloc_refines [OF pool_ex_inv, of 20] by (auto simp: sizeof_link_t_def)
  from s(3) have "ppool_last s = 0x1F8" by (simp add: pool_inv_def layout_def)
  with s show ?thesis by (intro that)
qed

theorem pfree_coalesces_witness:
  "\<exists>s s'. palloc 20 pool_ex = Some (0x108, s) \<and> pfree 0x108 s = Some s' \<and>
     pool_inv s' [(0x100, 0xF8), (0x1F8, 0)] {}"
proof -
  obtain s where s: "palloc 20 pool_ex = Some (0x108, s)" "pool_inv s [(0x11C, 0xDC), (0x1F8, 0)] {(0x100, 28)}"
    "ppool_last s = 0x1F8" by (rule pool_ex_alloc)
  have "co_insert (ppool_last s) (0x100, 28) [(0x11C, 0xDC), (0x1F8, 0)] = [(0x100, 0xF8), (0x1F8, 0)]"
    by (simp add: s(3) co_insert_def join_left_def)
  with pfree_coalesces [OF s(2), of "(0x100, 28)"] s(1) show ?thesis
    by (auto simp: sizeof_link_t_def)
qed

text \<open>
  Claim C10. \<open>palloc_init\<close> with a region that is apart from every free and live block, in the
  address space and longer than two headers after rounding returns and extends the free list in
  address order with the region's free block and its end mark, whether the region lies before, between
  or after the pools already there; live blocks are kept and the pool invariant holds.
\<close>

theorem palloc_init_adds_region:
  assumes "pool_inv s fs al" and "start = ALIGNED_VALUE pstart" and "n = ALIGNED_VALUE pend - start"
    and "n > sizeof_link_t * 2" and "region_ok (anchor_at s) fs al (start, n)"
  shows "\<exists>s'. palloc_init pstart pend s = Some s' \<and>
    pool_inv s' (takeWhile (\<lambda>b. fst b < start) fs @ region_blocks start n @ dropWhile (\<lambda>b. fst b < start) fs) al \<and>
    payload s' = payload s"
  using assms by (rule palloc_init_refines)

theorem palloc_init_adds_region_witness:
  "\<exists>s'. palloc_init 0x301 0x3FE pool_ex = Some s' \<and>
     pool_inv s' [(0x100, 0xF8), (0x1F8, 0), (0x304, 0xF4), (0x3F8, 0)] {}"
proof -
  have a: "ALIGNED_VALUE 0x301 = 0x304" "ALIGNED_VALUE 0x3FE = 0x400" by (simp_all add: ALIGNED_VALUE_def ALIGNED_MASK_def)
  have "anchor_at pool_ex = 0x40"
    unfolding pool_ex_def palloc_static_def by code_simp
  then have "region_ok (anchor_at pool_ex) [(0x100, 0xF8), (0x1F8, 0)] {} (0x304, 0xFC)"
    by (simp add: region_ok_def bend_def apart_def before_def)
  with palloc_init_adds_region [OF pool_ex_inv, of "0x304" "0x301" "0xFC" "0x3FE"] show ?thesis
    by (simp add: a region_blocks_def sizeof_link_t_def) blast
qed

text \<open>
  Claim C11. Memory safety for clients: starting from any pool in its invariant, every sequence of
  allocations (of at most \<open>0xFFFFFFF4\<close> bytes) and releases of live pointers runs to its end, the
  pointers the client holds are exactly the payloads of distinct live blocks, and the usable bytes of
  any two of them are disjoint.
\<close>

theorem palloc_client_safe:
  assumes "pool_inv s fs (set bs)" and "distinct bs" and "\<forall>sz. Alloc sz \<in> set ops \<longrightarrow> unat sz \<le> 0xFFFFFFF4"
  shows "\<exists>s' bs'. run_client palloc pfree 0 ops (s, map (\<lambda>b. fst b + sizeof_link_t) bs) =
      Some (s', map (\<lambda>b. fst b + sizeof_link_t) bs') \<and> pool_ok s' (set bs') \<and> distinct bs' \<and>
    (\<forall>b\<in>set bs'. \<forall>c\<in>set bs'. b \<noteq> c \<longrightarrow> usable b \<inter> usable c = {})"
  using assms by (intro pl.client_runs) (auto simp: pool_ok_def palloc_request_def)

theorem palloc_client_safe_witness:
  "\<exists>s' bs'. run_client palloc pfree 0 [Alloc 20, Alloc 0, Alloc 1000, Alloc 7, Free 1, Alloc 4] (pool_ex, []) =
      Some (s', map (\<lambda>b. fst b + sizeof_link_t) bs') \<and> pool_ok s' (set bs') \<and> distinct bs' \<and>
    (\<forall>b\<in>set bs'. \<forall>c\<in>set bs'. b \<noteq> c \<longrightarrow> usable b \<inter> usable c = {})"
  using palloc_client_safe [of pool_ex "[(0x100, 0xF8), (0x1F8, 0)]" "[]" "[Alloc 20, Alloc 0, Alloc 1000, Alloc 7, Free 1, Alloc 4]"]
    pool_ex_inv by auto

text \<open>No two neighbours of the free list could be joined, the end mark excepted.\<close>

definition no_neighbours :: "addr \<Rightarrow> blk list \<Rightarrow> bool" where
  "no_neighbours l fs \<longleftrightarrow>
     (\<forall>i. Suc i < length fs \<longrightarrow> fst (fs ! i) + snd (fs ! i) = fst (fs ! Suc i) \<longrightarrow> fst (fs ! Suc i) = l)"

lemma no_neighbours_append:
  "no_neighbours l (xs @ c # d # ys) \<Longrightarrow> fst c + snd c = fst d \<Longrightarrow> fst d = l"
  by (auto simp: no_neighbours_def nth_append dest!: spec [of _ "length xs"])

lemma join_right_split:
  "\<lbrakk>\<And>d ds. ys = d # ds \<Longrightarrow> fst b + snd b = fst d \<Longrightarrow> fst d = l; fst b + n \<noteq> l\<rbrakk> \<Longrightarrow>
   join_right l (fst b, n) ((fst b + n, snd b - n) # ys) = b # ys"
  "(\<And>d ds. ys = d # ds \<Longrightarrow> fst b + snd b = fst d \<Longrightarrow> fst d = l) \<Longrightarrow> join_right l b ys = b # ys"
  by (auto simp: prod_eq_iff neq_Nil_conv gr0_conv_Suc) (cases ys; auto simp: prod_eq_iff)+


lemma co_insert_ff_alloc:
  assumes lay: "layout anchor l fs al" and ff: "ff_alloc n fs = Some (b, fs')" and n: "8 \<le> unat n"
    and nn: "no_neighbours l fs"
  shows "co_insert l b fs' = fs"
proof -
  obtain xs k ys where fs: "fs = xs @ (fst b, k) # ys" and k: "n \<le> k"
    and b: "b = (fst b, if k - n > sizeof_link_t * 2 then n else k)"
    and fs': "fs' = xs @ (if k - n > sizeof_link_t * 2 then [(fst b + n, k - n)] else []) @ ys"
    using ff by (rule ff_alloc_SomeE)
  have bl: "fst b \<noteq> l"
    using layout_last(3) [of anchor l xs "fst b" k ys al] lay fs k n by (simp add: word_le_nat_alt)
  have so: "sorted_wrt before (xs @ (fst b, k) # ys)" using layout_sorted [OF lay] fs by simp
  have xs: "\<forall>c\<in>set xs. fst c < fst b" using sorted_before_less [OF so] by simp
  have ys: "\<forall>c\<in>set ys. \<not> fst c < fst b"
    using so before_less [of "(fst b, k)"] by (force simp: sorted_wrt_append)
  have "\<not> fst b + n < fst b" if "k - n > sizeof_link_t * 2"
    using block_split(1) [of "fst b" k n] layout_placed [OF lay, of "(fst b, k)"] that k n fs
    by (simp add: word_less_nat_alt)
  with ys have tw: "takeWhile (\<lambda>c. fst c < fst b) fs' = xs" "dropWhile (\<lambda>c. fst c < fst b) fs' =
      (if k - n > sizeof_link_t * 2 then [(fst b + n, k - n)] else []) @ ys"
    unfolding fs' using xs by (cases ys; auto simp: takeWhile_append dropWhile_append)+
  have "\<not> (xs \<noteq> [] \<and> fst (last xs) + snd (last xs) = fst b)"
  proof
    assume a: "xs \<noteq> [] \<and> fst (last xs) + snd (last xs) = fst b"
    then have "fs = butlast xs @ last xs # (fst b, k) # ys" using fs by simp
    from no_neighbours_append [OF nn [unfolded this]] a bl show False by simp
  qed
  then have "co_insert l b fs' = xs @ join_right l b ((if k - n > sizeof_link_t * 2 then [(fst b + n, k - n)] else []) @ ys)"
    by (simp only: co_insert_def tw join_left_def if_False)
  moreover have "fst d = l" if "ys = d # ds" "fst b + k = fst d" for d ds
    using no_neighbours_append [of l xs "(fst b, k)" d ds] nn fs that by simp
  moreover have "fst b + n \<noteq> l" if "k - n > sizeof_link_t * 2"
  proof -
    have bk: "bend (fst b, k) < 2 ^ 32" using layout_placed [OF lay, of "(fst b, k)"] fs by simp
    have "before (fst b + n, k - n) (l, 0)"
      using layout_last [of anchor l xs "fst b" k ys al] lay fs k n so within_before(2) [OF block_split(4) [OF bk k that n]]
        last_in_set [of ys] by (simp add: word_le_nat_alt sorted_wrt_append)
    then show ?thesis using before_less by fastforce
  qed
  ultimately show ?thesis
    using join_right_split(1) [of ys "(fst b, k)" l n] join_right_split(2) [of ys "(fst b, k)" l] b fs by (cases b) (auto split: if_splits)
qed

text \<open>
  Releasing what was just allocated restores the free list, provided no two neighbours in
  it could be joined before: splitting and joining are inverse to each other.
\<close>

lemma palloc_pfree_restores:
  assumes "pool_inv s fs al" and "no_neighbours (ppool_last s) fs"
    and "palloc sz s = Some (p, s')" and "p \<noteq> 0" and "unat sz \<le> 0xFFFFFFF4"
  shows "\<exists>s''. pfree p s' = Some s'' \<and> pool_inv s'' fs al \<and> payload s'' = payload s"
proof -
  let ?n = "ALIGNED_VALUE (sz + sizeof_link_t)"
  have sz: "sz \<noteq> 0" using assms(3,4) by (auto simp: palloc_def palloc_enter_def)
  have lay: "layout (anchor_at s) (ppool_last s) fs al" using assms(1) by (simp add: pool_inv_def)
  have n8: "8 \<le> unat ?n" using request_size(2) [OF sz assms(5)] by simp
  obtain b fs' where ff: "ff_alloc ?n fs = Some (b, fs')" and p: "p = fst b + sizeof_link_t"
    and inv': "pool_inv s' fs' (insert b al)" "payload s' = payload s"
    using palloc_refines [OF assms(1) sz assms(5)] assms(3,4) by (auto split: option.splits)
  have "layout (anchor_at s) (ppool_last s) fs' (insert b al)" by (rule ff_alloc_layout [OF lay ff n8])
  then have "ppool_last s' = ppool_last s"
    using inv'(1) by (auto simp: pool_inv_def layout_def)
  then show ?thesis
    using pfree_refines [OF inv'(1), of b] co_insert_ff_alloc [OF lay ff n8 assms(2)] ff_alloc_new(1) [OF lay ff n8]
      inv'(2) p by auto
qed

lemma palloc_pfree_restores_witness:
  "\<exists>s s'. palloc 20 pool_ex = Some (0x108, s) \<and> pfree 0x108 s = Some s' \<and>
     pool_inv s' [(0x100, 0xF8), (0x1F8, 0)] {} \<and> payload s' = payload pool_ex"
proof -
  obtain s where s: "palloc 20 pool_ex = Some (0x108, s)" by (rule pool_ex_alloc)
  have "no_neighbours (ppool_last pool_ex) [(0x100, 0xF8), (0x1F8, 0)]"
    by (simp add: no_neighbours_def pool_ex_last less_Suc_eq)
  with palloc_pfree_restores [OF pool_ex_inv _ s] s show ?thesis by auto
qed

lemma pool_inv_payload [simp]: "pool_inv (s\<lparr>payload := f\<rparr>) fs al = pool_inv s fs al"
  by (simp add: pool_inv_def)

lemma pool_inv_layout: "pool_inv s fs al \<Longrightarrow> layout (anchor_at s) (ppool_last s) fs al"
  by (simp add: pool_inv_def)

lemma offset_usable:
  assumes "bend b < 2 ^ 32" and "block_fits n b" and "x < 2 ^ 32"
    and "of_nat x - (fst b + sizeof_link_t) < n"
  shows "x \<in> usable b"
proof -
  define p where "p = fst b + sizeof_link_t"
  define y where "y = of_nat x - p"
  have p: "unat p = unat (fst b) + 8" using payload_start [OF assms(1)] by (simp add: p_def)
  have y: "unat y < unat n" using assms(4) by (simp add: y_def p_def word_less_nat_alt)
  have "unat (p + y) = unat (fst b) + 8 + unat y"
    using y assms(1,2) bend_greater(2) [of b] by (simp add: p unat_word_ariths block_fits_def)
  moreover have "p + y = of_nat x" by (simp add: y_def)
  moreover have "unat (of_nat x :: u32) = x" using assms(3) by (simp add: unat_of_nat)
  ultimately show ?thesis using y assms(2) by (simp add: usable_def block_fits_def)
qed

text \<open>
  \<open>pcalloc\<close> allocates first fit for the product of its arguments, clears exactly
  that many bytes from the returned pointer on, and changes no byte of any other live block.
\<close>

lemma pcalloc_clears:
  assumes "pool_inv s fs al" and "num * sz \<noteq> 0" and "unat (num * sz) \<le> 0xFFFFFFF4"
  shows "case ff_alloc (ALIGNED_VALUE (num * sz + sizeof_link_t)) fs of
      None \<Rightarrow> pcalloc num sz s = Some (0, s)
    | Some (b, fs') \<Rightarrow> \<exists>s'. pcalloc num sz s = Some (fst b + sizeof_link_t, s') \<and> pool_inv s' fs' (insert b al) \<and>
        (\<forall>i < num * sz. payload s' (fst b + sizeof_link_t + i) = 0) \<and>
        (\<forall>c\<in>al. \<forall>x\<in>usable c. payload s' (of_nat x) = payload s (of_nat x))"
proof (cases "ff_alloc (ALIGNED_VALUE (num * sz + sizeof_link_t)) fs")
  case None
  with palloc_first_fit_lemma [OF assms] assms(2) show ?thesis
    by (simp add: pcalloc_def Let_def word_neq_0_conv)
next
  case (Some bf)
  then obtain b fs' where ff: "ff_alloc (ALIGNED_VALUE (num * sz + sizeof_link_t)) fs = Some (b, fs')" by (cases bf) auto
  then obtain s' where s': "palloc (num * sz) s = Some (fst b + sizeof_link_t, s')" "block_fits (num * sz) b"
    "payload s' = payload s" "pool_inv s' fs' (insert b al)"
    using palloc_first_fit_lemma [OF assms] by auto
  have bb: "bend b < 2 ^ 32" using layout_placed [OF pool_inv_layout [OF s'(4)], of b] by simp
  have "\<not> of_nat x - (fst b + sizeof_link_t) < num * sz" if c: "c \<in> al" "x \<in> usable c" for c x
  proof
    assume a: "of_nat x - (fst b + sizeof_link_t) < num * sz"
    have "c \<noteq> b" using ff_alloc_new(1) [OF _ ff] assms c request_size(2) [OF assms(2,3)] by (auto simp: pool_inv_def)
    then have "apart c b" using s'(4) c(1) by (auto simp: pool_inv_def layout_def)
    then have "usable c \<inter> usable b = {}" by (rule apart_usable)
    moreover have "x < 2 ^ 32"
      using usable_within [OF c(2)] layout_placed [OF pool_inv_layout [OF s'(4)], of c] c(1) by simp
    ultimately show False using offset_usable [OF bb s'(2) _ a] c(2) by auto
  qed
  then show ?thesis
    using ff s' payload_start(2) [OF bb] assms(2)
    by (auto simp: pcalloc_def Let_def word_neq_0_conv mem_set_def)
qed

lemma pcalloc_clears_witness:
  "\<exists>s'. pcalloc 5 4 pool_ex = Some (0x108, s') \<and> pool_inv s' [(0x11C, 0xDC), (0x1F8, 0)] {(0x100, 28)} \<and>
    (\<forall>i < 20. payload s' (0x108 + i) = 0)"
  using pcalloc_clears [OF pool_ex_inv, of 5 4]
  by (simp add: ALIGNED_VALUE_def ALIGNED_MASK_def sizeof_link_t_def)

text \<open>A copy that succeeds: the bytes of the source block, then what lies past it; headers are kept.\<close>

lemma mem_copy_Some:
  assumes "mem_copy beyond dst src own n s = Some s'"
  shows "links s' = links s" "anchor_at s' = anchor_at s" "ppool_last s' = ppool_last s" "free_size s' = free_size s"
    and "i < n \<Longrightarrow> payload s' (dst + i) = (if i < own then payload s (src + i) else the (beyond (src + i)))"
  using assms by (auto simp: mem_copy_def split: if_splits)

lemma mem_copy_None:
  "mem_copy beyond dst src own n s = None \<longleftrightarrow>
     dst - src < n \<or> src - dst < n \<or> (\<exists>i. own \<le> i \<and> i < n \<and> beyond (src + i) = None)"
proof -
  have "(\<exists>k. unat own \<le> k \<and> k < unat n \<and> beyond (src + of_nat k) = None) \<longleftrightarrow>
      (\<exists>i. own \<le> i \<and> i < n \<and> beyond (src + i) = None)" (is "?L \<longleftrightarrow> ?R")
  proof
    assume ?L
    then obtain k where k: "unat own \<le> k" "k < unat n" "beyond (src + of_nat k) = None" by blast
    moreover have "k < 2 ^ LENGTH(32)" by (rule less_trans [OF k(2)]) simp
    then have "unat (of_nat k :: u32) = k" by (simp add: unat_of_nat)
    ultimately show ?R
      by (intro exI [of _ "of_nat k"]) (simp add: word_le_nat_alt word_less_nat_alt)
  next
    assume ?R
    then obtain i where "own \<le> i" "i < n" "beyond (src + i) = None" by blast
    then show ?L
      by (intro exI [of _ "unat i"]) (simp add: word_le_nat_alt word_less_nat_alt)
  qed
  moreover have "(\<not> list_all (\<lambda>k. beyond (src + of_nat k) \<noteq> None) [unat own ..< unat n]) =
      (\<exists>k. unat own \<le> k \<and> k < unat n \<and> beyond (src + of_nat k) = None)"
    by (simp add: list_all_iff Bex_def conj_assoc del: not_None_eq)
  ultimately show ?thesis by (simp add: mem_copy_def)
qed

lemma copy_overlap:
  fixes a c n :: u32
  assumes "unat a < unat c + 2 ^ 31" "unat c < unat a + 2 ^ 31" and "unat n < 2 ^ 31"
    and "unat c < unat a \<Longrightarrow> unat c + unat n \<le> unat a" and "a \<noteq> c"
  shows "c - a < n \<or> a - c < n \<longleftrightarrow> a < c \<and> unat c < unat a + unat n"
proof -
  have "unat a \<noteq> unat c" using assms(5) by (simp add: word_unat_eq_iff)
  then consider "unat a < unat c" | "unat c < unat a" by linarith
  then show ?thesis
  proof cases
    case 1
    then have "unat (c - a) = unat c - unat a" "unat (a - c) = 2 ^ 32 - (unat c - unat a)"
      using unat_u32_less [of c] by (simp_all add: unat_sub_if')
    with 1 assms(1-3) show ?thesis by (auto simp: word_less_nat_alt)
  next
    case 2
    then have "unat (a - c) = unat a - unat c" "unat (c - a) = 2 ^ 32 - (unat a - unat c)"
      using unat_u32_less [of a] by (simp_all add: unat_sub_if')
    with 2 assms(1-4) show ?thesis by (auto simp: word_less_nat_alt)
  qed
qed

text \<open>Where the block that first fit chooses lies against a live block.\<close>

lemma ff_alloc_live:
  assumes lay: "layout anchor l fs al" and ff: "ff_alloc (ALIGNED_VALUE (n + sizeof_link_t)) fs = Some (c, fs')"
    and b: "b \<in> al" and n: "n \<noteq> 0" "unat n \<le> 0xFFFFFFF4"
  shows "fst c - fst b < n \<or> fst b - fst c < n \<longleftrightarrow> fst b < fst c \<and> unat (fst c) < unat (fst b) + unat n"
    and "fst c + sizeof_link_t \<noteq> 0"
proof -
  let ?m = "ALIGNED_VALUE (n + sizeof_link_t)"
  have m: "8 \<le> unat ?m" "unat n + 8 \<le> unat (snd c)"
    using request_size [OF n] ff_alloc_size [OF ff] by (simp_all add: word_le_nat_alt)
  have lay': "layout anchor l fs' (insert c al)" by (rule ff_alloc_layout [OF lay ff m(1)])
  have ne: "c \<noteq> b" using ff_alloc_new(1) [OF lay ff m(1)] b by auto
  have ap: "apart c b" using lay' b ne by (auto simp: layout_def)
  have sp: "bend b < unat (fst c) + 2 ^ 31" "bend c < unat (fst b) + 2 ^ 31"
    using lay' b by (auto simp: layout_def)
  have sz: "unat (snd c) < 2 ^ 31" using layout_size [OF lay', of c] by simp
  have "unat (fst c) + unat n \<le> unat (fst b)" if "unat (fst c) < unat (fst b)"
    using ap that m(2) by (auto simp: apart_def before_def bend_def)
  then show "fst c - fst b < n \<or> fst b - fst c < n \<longleftrightarrow> fst b < fst c \<and> unat (fst c) < unat (fst b) + unat n"
    using sp bend_greater [of b] bend_greater [of c] m(2) sz apart_neq [OF ap]
    by (intro copy_overlap) simp_all
  show "fst c + sizeof_link_t \<noteq> 0"
    using payload_start(2) ff_alloc_new(2) [OF lay ff m(1)] by blast
qed

text \<open>
  Claim C12. \<open>prealloc\<close> of a live block returns the same pointer and changes nothing when the
  block, its header counted, is as large as the request; otherwise it returns null and changes nothing
  when no free block is large enough. When there is one, the copy of the requested number of bytes is
  undefined if the new block starts less than that many bytes after the old one, or if
  the read past the old block faults; else the block moves: the new one holds the bytes of the old
  payload, then whatever lay past it, the old block is released, and the pool invariant holds.
\<close>

theorem prealloc_moves:
  assumes "pool_inv s fs al" and "b \<in> al" and "unat n \<le> 0xFFFFFFF4" and "8 \<le> unat (snd b)"
  shows "if n \<le> snd b then prealloc beyond (fst b + sizeof_link_t) n s = Some (fst b + sizeof_link_t, s)
    else case ff_alloc (ALIGNED_VALUE (n + sizeof_link_t)) fs of
      None \<Rightarrow> prealloc beyond (fst b + sizeof_link_t) n s = Some (0, s)
    | Some (c, fs') \<Rightarrow>
        if fst b < fst c \<and> unat (fst c) < unat (fst b) + unat n
        then prealloc beyond (fst b + sizeof_link_t) n s = None
        else if \<exists>i. snd b - 8 \<le> i \<and> i < n \<and> beyond (fst b + sizeof_link_t + i) = None
        then prealloc beyond (fst b + sizeof_link_t) n s = None
        else \<exists>s'. prealloc beyond (fst b + sizeof_link_t) n s = Some (fst c + sizeof_link_t, s') \<and>
          pool_inv s' (co_insert (ppool_last s) b fs') (insert c al - {b}) \<and>
          (\<forall>i < snd b - 8. payload s' (fst c + sizeof_link_t + i) = payload s (fst b + sizeof_link_t + i)) \<and>
          (\<forall>i < n. snd b - 8 \<le> i \<longrightarrow>
             Some (payload s' (fst c + sizeof_link_t + i)) = beyond (fst b + sizeof_link_t + i))"
proof -
  have lay: "layout (anchor_at s) (ppool_last s) fs al" using assms(1) by (simp add: pool_inv_def)
  have bb: "bend b < 2 ^ 32" "unat (snd b) < 2 ^ 31"
    using layout_placed [OF lay, of b] layout_size [OF lay, of b] assms(2) by auto
  have hb: "flagNsize (links s (fst b)) AND NOT PALLOC_ALLOCATED = snd b"
    using assms(1,2) flag_strip [OF bb(2)] by (simp add: pool_inv_def live_in_def)
  note unf = prealloc_def Let_def payload_start(2) [OF bb(1)] hb
  show ?thesis
  proof (cases "n \<le> snd b")
    case True
    then show ?thesis by (simp add: unf leD)
  next
    case False
    then have n0: "n \<noteq> 0" by auto
    note pa = palloc_refines [OF assms(1) n0 assms(3)]
    show ?thesis
    proof (cases "ff_alloc (ALIGNED_VALUE (n + sizeof_link_t)) fs")
      case None
      then show ?thesis using pa False by (simp add: unf)
    next
      case (Some bf)
      then obtain c fs' where ff: "ff_alloc (ALIGNED_VALUE (n + sizeof_link_t)) fs = Some (c, fs')" by (cases bf) auto
      then obtain s1 where s1: "palloc n s = Some (fst c + sizeof_link_t, s1)" "payload s1 = payload s"
        "pool_inv s1 fs' (insert c al)" using pa by auto
      note at = ff_alloc_live [OF lay ff assms(2) n0 assms(3)]
      have n8: "8 \<le> unat (ALIGNED_VALUE (n + sizeof_link_t))" using request_size(2) [OF n0 assms(3)] by simp
      have "layout (anchor_at s) (ppool_last s) fs' (insert c al)" by (rule ff_alloc_layout [OF lay ff n8])
      then have pl: "ppool_last s1 = ppool_last s" using s1(3) by (auto simp: pool_inv_def layout_def)
      have own: "snd b - sizeof_link_t = snd b - 8" by (simp add: sizeof_link_t_def)
      have step: "prealloc beyond (fst b + sizeof_link_t) n s =
          Option.bind (mem_copy beyond (fst c + sizeof_link_t) (fst b + sizeof_link_t) (snd b - 8) n s1)
            (\<lambda>s. Option.bind (pfree (fst b + sizeof_link_t) s) (\<lambda>s. Some (fst c + sizeof_link_t, s)))"
        using False s1(1) at(2) own by (simp add: unf not_le)
      show ?thesis
      proof (cases "mem_copy beyond (fst c + sizeof_link_t) (fst b + sizeof_link_t) (snd b - 8) n s1")
        case None
        then have "(fst b < fst c \<and> unat (fst c) < unat (fst b) + unat n) \<or>
            (\<exists>i. snd b - 8 \<le> i \<and> i < n \<and> beyond (fst b + sizeof_link_t + i) = None)"
          unfolding mem_copy_None at(1) [symmetric] by simp
        moreover have "prealloc beyond (fst b + sizeof_link_t) n s = None" using step None by simp
        ultimately show ?thesis unfolding if_not_P [OF False] ff option.case prod.case by (simp only: if_True if_False split: if_split) blast
      next
        case (Some s2)
        note cp = mem_copy_Some [OF Some]
        have nn: "\<not> (fst c - fst b < n \<or> fst b - fst c < n)" 
          "\<not> (\<exists>i. snd b - 8 \<le> i \<and> i < n \<and> beyond (fst b + sizeof_link_t + i) = None)"
          using mem_copy_None [of beyond "fst c + sizeof_link_t" "fst b + sizeof_link_t" "snd b - 8" n s1] Some
          by auto
        have "pool_inv s2 fs' (insert c al)" using s1(3) cp(1-4) by (simp add: pool_inv_def)
        with pfree_refines [of s2 fs' "insert c al" b] assms(2) cp(3) pl obtain s3 where
          s3: "pfree (fst b + sizeof_link_t) s2 = Some s3" "payload s3 = payload s2"
            "pool_inv s3 (co_insert (ppool_last s) b fs') (insert c al - {b})" by auto
        have "snd b - 8 < n"
          using False assms(4) by (simp add: word_less_nat_alt word_le_nat_alt unat_sub)
        then have "\<forall>i < snd b - 8. payload s3 (fst c + sizeof_link_t + i) = payload s (fst b + sizeof_link_t + i)"
          using cp(5) s1(2) s3(2) by simp
        moreover have "\<forall>i < n. snd b - 8 \<le> i \<longrightarrow>
            Some (payload s3 (fst c + sizeof_link_t + i)) = beyond (fst b + sizeof_link_t + i)"
          using cp(5) s3(2) nn(2) by (auto simp: leD)
        moreover have "prealloc beyond (fst b + sizeof_link_t) n s = Some (fst c + sizeof_link_t, s3)"
          using step Some s3(1) by simp
        ultimately show ?thesis
          unfolding if_not_P [OF False] ff option.case prod.case if_not_P [OF nn(1) [unfolded at(1)]] if_not_P [OF nn(2)]
          using s3(3) by blast
      qed
    qed
  qed
qed

text \<open>
  On a fresh pool the block behind a short one is always too near: growing it is undefined. With another
  live block between, the new block is far enough.
\<close>

theorem prealloc_moves_witness:
  "\<exists>s s1 s2. palloc 20 pool_ex = Some (0x108, s) \<and> prealloc (\<lambda>a. Some 7) 0x108 40 s = None \<and>
     palloc 20 s = Some (0x124, s1) \<and> prealloc (\<lambda>a. Some 7) 0x108 32 s1 = Some (0x140, s2) \<and>
     pool_inv s2 [(0x100, 28), (0x160, 0x98), (0x1F8, 0)] {(0x11C, 28), (0x138, 40)} \<and>
     (\<forall>i < 20. payload s2 (0x140 + i) = payload s1 (0x108 + i)) \<and>
     (\<forall>i < 32. 20 \<le> i \<longrightarrow> payload s2 (0x140 + i) = 7)"
proof -
  note ev = ALIGNED_VALUE_def ALIGNED_MASK_def sizeof_link_t_def
  obtain s where s: "palloc 20 pool_ex = Some (0x108, s)" "pool_inv s [(0x11C, 0xDC), (0x1F8, 0)] {(0x100, 28)}"
    by (rule pool_ex_alloc)
  obtain s1 where s1: "palloc 20 s = Some (0x124, s1)" "pool_inv s1 [(0x138, 0xC0), (0x1F8, 0)] {(0x11C, 28), (0x100, 28)}"
    using palloc_refines [OF s(2), of 20] by (auto simp: ev)
  have "prealloc (\<lambda>a. Some 7) 0x108 40 s = None"
    using prealloc_moves [OF s(2), of "(0x100, 28)" 40 "\<lambda>a. Some 7"] by (simp add: ev)
  moreover have "ppool_last s1 = 0x1F8" using s1(2) by (simp add: pool_inv_def layout_def)
  then have co: "co_insert (ppool_last s1) (0x100, 28) [(0x160, 0x98), (0x1F8, 0)] = [(0x100, 28), (0x160, 0x98), (0x1F8, 0)]"
    by (simp add: co_insert_def join_left_def)
  have "insert (0x138, 40) {(0x11C, 28), (0x100, 28)} - {(0x100, 28)} = {(0x11C, 28), (0x138 :: u32, 40 :: u32)}" by auto
  with prealloc_moves [OF s1(2), of "(0x100, 28)" 32 "\<lambda>a. Some 7"] co
  obtain s2 where "prealloc (\<lambda>a. Some 7) 0x108 32 s1 = Some (0x140, s2)"
     "pool_inv s2 [(0x100, 28), (0x160, 0x98), (0x1F8, 0)] {(0x11C, 28), (0x138, 40)}"
     "\<forall>i < 20. payload s2 (0x140 + i) = payload s1 (0x108 + i)"
     "\<forall>i < 32. 20 \<le> i \<longrightarrow> payload s2 (0x140 + i) = 7" by (auto simp: ev)
  ultimately show ?thesis using s(1) s1(1) by blast
qed

text \<open>
  A shortfall of \<open>prealloc\<close>: it compares the request with the size of the block that
  counts the header, so a request above the usable bytes by at most the header is granted in place, in a
  block it does not fit.
\<close>

lemma prealloc_short_block:
  assumes "pool_inv s fs al" and "b \<in> al" and "unat (snd b) < unat n + 8" and "n \<le> snd b"
  shows "prealloc beyond (fst b + sizeof_link_t) n s = Some (fst b + sizeof_link_t, s) \<and> \<not> block_fits n b"
proof -
  have lay: "layout (anchor_at s) (ppool_last s) fs al" using assms(1) by (rule pool_inv_layout)
  have "bend b < 2 ^ 32" "unat (snd b) < 2 ^ 31"
    using layout_placed [OF lay, of b] layout_size [OF lay, of b] assms(2) by auto
  then show ?thesis
    using assms flag_strip [of "snd b"] payload_start(2) [of b]
    by (simp add: prealloc_def Let_def pool_inv_def live_in_def leD block_fits_def)
qed

lemma prealloc_short_block_witness:
  "\<exists>s. palloc 20 pool_ex = Some (0x108, s) \<and> prealloc (\<lambda>a. None) 0x108 28 s = Some (0x108, s) \<and> \<not> block_fits 28 (0x100, 28)"
proof -
  obtain s where s: "palloc 20 pool_ex = Some (0x108, s)" "pool_inv s [(0x11C, 0xDC), (0x1F8, 0)] {(0x100, 28)}"
    by (rule pool_ex_alloc)
  from prealloc_short_block [OF s(2), of "(0x100, 28)" 28 "\<lambda>a. None"] s(1) show ?thesis
    by (simp add: sizeof_link_t_def)
qed

text \<open>
  Rounding wraps: a request of \<open>0xFFFFFFFD\<close> bytes or more is rounded to 8, so on a
  pool whose first free block can be split it is granted, with a block that holds a header and no byte.
\<close>

lemma palloc_huge_request:
  assumes "pool_inv s ((a, k) # fs) al" and "unat k > 24" and "unat sz \<ge> 0xFFFFFFFD"
  shows "\<exists>s'. palloc sz s = Some (a + sizeof_link_t, s') \<and>
    pool_inv s' ((a + 8, k - 8) # fs) (insert (a, 8) al) \<and> usable (a, 8) = {}"
proof -
  have "sz = 0xFFFFFFFD \<or> sz = 0xFFFFFFFE \<or> sz = 0xFFFFFFFF"
    using assms(3) unat_u32_less [of sz] by (auto simp: word_unat_eq_iff simp del: unat_u32_less)
  then have n: "ALIGNED_VALUE (sz + sizeof_link_t) = 8" "sz \<noteq> 0"
    by (auto simp: ALIGNED_VALUE_def ALIGNED_MASK_def sizeof_link_t_def)
  have "8 \<le> k" "unat (k - 8) = unat k - 8" using assms(2) by (auto simp: word_le_nat_alt unat_sub)
  then have "ff_alloc 8 ((a, k) # fs) = Some ((a, 8), (a + 8, k - 8) # fs)"
    using assms(2) by (simp add: sizeof_link_t_def word_less_nat_alt leD)
  with palloc_refines_rounded [OF assms(1) n(2)] n(1) show ?thesis
    by (auto simp: usable_def)
qed

lemma palloc_huge_request_witness:
  "\<exists>s'. palloc 0xFFFFFFFF pool_ex = Some (0x108, s') \<and> pool_inv s' [(0x108, 0xF0), (0x1F8, 0)] {(0x100, 8)}"
  using palloc_huge_request [where sz = "0xFFFFFFFF", OF pool_ex_inv] by (auto simp: sizeof_link_t_def)








definition stat_step :: "blk \<Rightarrow> palloc_stat \<Rightarrow> palloc_stat" where
  "stat_step b st = \<lparr>st_links = st_links st + 1, st_largest = max (st_largest st) (snd b),
     st_smallest = (if snd b > 0 then min (st_smallest st) (snd b) else st_smallest st)\<rparr>"

lemma stats_scan_step:
  "p \<noteq> 0 \<Longrightarrow> flagNsize (h p) = n \<Longrightarrow> stats_scan h st p = stats_scan h (stat_step (p, n) st) (lnext (h p))"
  by (subst stats_scan.simps, cases st)
    (cases "st_largest st < n"; cases "n > 0"; cases "n < st_smallest st";
      simp add: stat_step_def Let_def max_absorb1 max_absorb2 min_absorb1 min_absorb2 not_less less_imp_le leD)

lemma stats_scan_seg: "seg h p fs 0 \<Longrightarrow> stats_scan h st p = Some (fold stat_step fs st)"
proof (induction fs arbitrary: p st)
  case Nil
  then show ?case by (simp add: stats_scan.simps)
next
  case (Cons b fs)
  then show ?case using stats_scan_step [of p h "snd b" st] by auto
qed

lemma stats_fold:
  "fold stat_step fs st =
   \<lparr>st_links = st_links st + of_nat (length fs), st_largest = Max (insert (st_largest st) (snd ` set fs)),
    st_smallest = Min (insert (st_smallest st) {n \<in> snd ` set fs. n > 0})\<rparr>"
proof (induction fs arbitrary: st)
  case (Cons b fs)
  have pos: "{n. (n = c \<or> n \<in> A) \<and> n > 0} = (if c > 0 then insert c {n \<in> A. n > 0} else {n \<in> A. n > 0})"
    for c :: u32 and A by auto
  have mx: "Max (insert (max x y) A) = Max (insert x (insert y A))" if "finite A" for x y :: u32 and A
    using that by (cases "A = {}") (simp_all add: max.assoc)
  have mn: "Min (insert (min x y) A) = Min (insert x (insert y A))" if "finite A" for x y :: u32 and A
    using that by (cases "A = {}") (simp_all add: min.assoc)
  show ?case
    by (simp only: fold_simps Cons.IH) (simp add: stat_step_def mx mn pos)
qed simp

text \<open>
  \<open>palloc_stats\<close> returns on every pool in its invariant, with the free size, the number
  of links (end marks included) and the largest and smallest non-zero free block, each less a header;
  with no free block left the last two wrap to \<open>0xFFFFFFF8\<close>.
\<close>

lemma palloc_stats_reports:
  assumes "pool_inv s fs al"
  defines "sizes \<equiv> {n \<in> snd ` set fs. n > 0}"
  shows "palloc_stats s = Some (free_size s,
    \<lparr>st_links = of_nat (length fs),
     st_largest = (if sizes = {} then - 8 else Max sizes - 8),
     st_smallest = (if sizes = {} then - 8 else Min sizes - 8)\<rparr>)"
proof -
  have sg: "seg (links s) (anchor_next s) fs 0" using assms(1) by (simp add: pool_inv_def)
  have lay: "layout (anchor_at s) (ppool_last s) fs al" using assms(1) by (rule pool_inv_layout)
  have lt: "n < - 1" if "n \<in> sizes" for n
    using that layout_size [OF lay] unfolding sizes_def word_less_nat_alt unat_u32_max by force
  have fin: "finite sizes" by (simp add: sizes_def)
  have mx: "Max (insert 0 (snd ` set fs)) = (if sizes = {} then 0 else Max sizes)"
  proof -
    have "insert 0 (snd ` set fs) = insert 0 sizes" by (auto simp: sizes_def word_neq_0_conv)
    then show ?thesis using fin by (simp add: max_def)
  qed
  have mn: "Min (insert (- 1) sizes) = (if sizes = {} then - 1 else Min sizes)" "sizes \<noteq> {} \<Longrightarrow> Min sizes \<noteq> - 1"
    using fin lt [OF Min_in [OF fin]] by (cases "sizes = {}"; simp add: Min_insert min_absorb2 less_imp_le del: Min_ge_iff)+
  show ?thesis
    using stats_scan_seg [OF sg, of "\<lparr>st_links = 0, st_largest = 0, st_smallest = - 1\<rparr>"]
      stats_fold [of fs "\<lparr>st_links = 0, st_largest = 0, st_smallest = - 1\<rparr>"] mx mn
    by (simp add: palloc_stats_def sizes_def [symmetric] sizeof_link_t_def)
qed


lemma palloc_stats_reports_witness:
  "palloc_stats pool_ex = Some (0xF8, \<lparr>st_links = 2, st_largest = 0xF0, st_smallest = 0xF0\<rparr>)"
proof -
  have "free_size pool_ex = 0xF8"
    using pool_ex_inv by (simp add: pool_inv_def word_unat_eq_iff)
  moreover have "{n \<in> snd ` set [(0x100 :: u32, 0xF8 :: u32), (0x1F8, 0)]. n > 0} = {0xF8}" by auto
  ultimately show ?thesis using palloc_stats_reports [OF pool_ex_inv] by simp
qed

end
