(* ===== verification/Hupacket.thy ===== *)
theory Hupacket
  imports Sdkz_Prelude
begin

text \<open>
  The packet protocol of \<open>src/lib/hu/hupacket.c\<close>: the receiving state machine that cuts a byte
  stream into frames, separates the header and the records, checks the CRC and calls the command with
  that name; and the routines that build and send a response.

  Pointers into the receive buffer (\<open>argv\<close>, \<open>id\<close>, \<open>sequence\<close>, \<open>crc16\<close>) are
  offsets into it. The CRC and \<open>itoa\<close> routines and the transport are parameters, as are the tables
  of commands that the linker collects; a command gets the handle and the outside world. All callers pass
  the transmit buffer of the handle (or NULL, which stands for it) to the response routines.
\<close>

section \<open>State\<close>

definition RECV_BUFFER_SIZE :: nat where "RECV_BUFFER_SIZE = 1536"
definition HUP_STATE_NONE :: int where "HUP_STATE_NONE = -1"
definition ENQ_OF_COMMAND :: u8 where "ENQ_OF_COMMAND = 0x05"
definition ACK_OF_RESPONSE :: u8 where "ACK_OF_RESPONSE = 0x06"
definition NAK_OF_RESPONSE :: u8 where "NAK_OF_RESPONSE = 0x15"
definition END_OF_PACKET :: u8 where "END_OF_PACKET = 0x04"
definition CRC_MARK :: u8 where "CRC_MARK = 0x1a"
definition RECORD_MARK :: u8 where "RECORD_MARK = 0x1e"
definition ID_MARK :: u8 where "ID_MARK = 0x40"
definition SEQUENCE_MARK :: u8 where "SEQUENCE_MARK = 0x3a"

lemmas hup_marks = ENQ_OF_COMMAND_def ACK_OF_RESPONSE_def NAK_OF_RESPONSE_def END_OF_PACKET_def
  CRC_MARK_def RECORD_MARK_def ID_MARK_def SEQUENCE_MARK_def

definition NOERROR :: int where "NOERROR = 0"
definition ENMCRC16 :: int where "ENMCRC16 = ELASTERROR + 0"
definition ECODEA85 :: int where "ECODEA85 = ELASTERROR + 1"
definition EDESZA85 :: int where "EDESZA85 = ELASTERROR + 2"
definition EASCII85 :: int where "EASCII85 = ELASTERROR + 3"

record hup_handle =
  argc :: nat
  argv :: "nat list"
  hstate :: int
  buffer :: bytes
  response :: bool
  crc_match :: bool
  hid :: "nat option"
  hsequence :: "nat option"
  hcrc16 :: "nat option"
  tx_buffer :: bytes

text \<open>The outside world of a handle: \<open>send\<close> with its user data, \<open>crc16\<close>, \<open>itoa\<close>.\<close>

record 'w hup_env =
  env_send :: "bytes \<Rightarrow> 'w \<Rightarrow> int \<times> 'w"
  env_crc16 :: "bytes \<Rightarrow> u16"
  env_itoa :: "int \<Rightarrow> nat \<Rightarrow> bytes"

type_synonym 'w hup_fn = "hup_handle \<Rightarrow> 'w \<Rightarrow> (hup_handle \<times> 'w) option"

record 'w hup_cmd =
  cmd_name :: bytes
  cmd_func :: "'w hup_fn"

section \<open>Building a response\<close>

definition hupacket_append_str :: "bytes \<Rightarrow> hup_handle \<Rightarrow> hup_handle option" where
  "hupacket_append_str str h = map_option (\<lambda>b. h\<lparr>tx_buffer := b\<rparr>) (strcat (tx_buffer h) str)"

definition hupacket_append_char :: "u8 \<Rightarrow> hup_handle \<Rightarrow> hup_handle option" where
  "hupacket_append_char ch h = (if ch \<noteq> 0 then hupacket_append_str [ch] h else Some h)"

text \<open>The local buffers hold 12 and 9 characters; a longer text would be written past them.\<close>

definition hupacket_append_int :: "'w hup_env \<Rightarrow> int \<Rightarrow> hup_handle \<Rightarrow> hup_handle option" where
  "hupacket_append_int env val h =
     (let s = env_itoa env val 10 in if length s < 12 then hupacket_append_str s h else None)"

definition hupacket_append_hex :: "'w hup_env \<Rightarrow> u32 \<Rightarrow> hup_handle \<Rightarrow> hup_handle option" where
  "hupacket_append_hex env val h =
     (let s = env_itoa env (sint val) 16 in if length s < 9 then hupacket_append_str s h else None)"

definition hupacket_record_str :: "bytes \<Rightarrow> hup_handle \<Rightarrow> hup_handle option" where
  "hupacket_record_str str h = do {
     h \<leftarrow> hupacket_append_char RECORD_MARK h;
     hupacket_append_str str h
   }"

definition hupacket_record_int :: "'w hup_env \<Rightarrow> int \<Rightarrow> hup_handle \<Rightarrow> hup_handle option" where
  "hupacket_record_int env val h = do {
     h \<leftarrow> hupacket_append_char RECORD_MARK h;
     hupacket_append_int env val h
   }"

definition hupacket_record_hex :: "'w hup_env \<Rightarrow> u32 \<Rightarrow> hup_handle \<Rightarrow> hup_handle option" where
  "hupacket_record_hex env val h = do {
     h \<leftarrow> hupacket_append_char RECORD_MARK h;
     hupacket_append_hex env val h
   }"

text \<open>The string at a pointer into the receive buffer.\<close>

definition hstr :: "hup_handle \<Rightarrow> nat \<Rightarrow> bytes option" where
  "hstr h p = cstr_at (buffer h) p"

definition hupacket_reset_buffer :: "u8 \<Rightarrow> hup_handle \<Rightarrow> hup_handle option" where
  "hupacket_reset_buffer stx h = do {
     b \<leftarrow> wr (tx_buffer h) 0 0;
     h \<leftarrow> hupacket_append_char stx (h\<lparr>tx_buffer := b\<rparr>);
     h \<leftarrow> (case hid h of None \<Rightarrow> Some h
           | Some p \<Rightarrow> do {
               s \<leftarrow> hstr h p;
               h \<leftarrow> hupacket_append_str s h;
               hupacket_append_char ID_MARK h
             });
     p \<leftarrow> rd (argv h) 0;
     s \<leftarrow> hstr h p;
     h \<leftarrow> hupacket_append_str s h;
     (case hsequence h of None \<Rightarrow> Some h
      | Some p \<Rightarrow> do {
          h \<leftarrow> hupacket_append_char SEQUENCE_MARK h;
          s \<leftarrow> hstr h p;
          hupacket_append_str s h
        })
   }"

definition hupacket_ack_response :: "'w hup_env \<Rightarrow> hup_handle \<Rightarrow> hup_handle option" where
  "hupacket_ack_response env h = do {
     h \<leftarrow> hupacket_reset_buffer ACK_OF_RESPONSE h;
     hupacket_record_int env NOERROR h
   }"

definition hupacket_nak_response :: "'w hup_env \<Rightarrow> int \<Rightarrow> hup_handle \<Rightarrow> hup_handle option" where
  "hupacket_nak_response env rc h = do {
     h \<leftarrow> hupacket_reset_buffer NAK_OF_RESPONSE h;
     hupacket_record_int env rc h
   }"

definition hupacket_send_buffer :: "'w hup_env \<Rightarrow> hup_handle \<Rightarrow> 'w \<Rightarrow> (int \<times> hup_handle \<times> 'w) option" where
  "hupacket_send_buffer env h w = do {
     h \<leftarrow> (if hcrc16 h \<noteq> None then do {
             s \<leftarrow> cstr_at (tx_buffer h) 1;
             h \<leftarrow> hupacket_append_char CRC_MARK h;
             hupacket_append_hex env (ucast (env_crc16 env s)) h
           } else Some h);
     h \<leftarrow> hupacket_append_char END_OF_PACKET h;
     s \<leftarrow> cstr_at (tx_buffer h) 0;
     (case env_send env s w of (rc, w) \<Rightarrow> Some (rc, h, w))
   }"

section \<open>Receiving\<close>

definition reset_hupacket :: "hup_handle \<Rightarrow> hup_handle" where
  "reset_hupacket h =
     h\<lparr>hstate := HUP_STATE_NONE, argc := 0, hcrc16 := None, hid := None, hsequence := None\<rparr>"

text \<open>The memory from \<open>palloc\<close>, cleared.\<close>

definition init_hupacket :: hup_handle where
  "init_hupacket =
     reset_hupacket \<lparr>argc = 0, argv = replicate 64 0, hstate = 0, buffer = replicate RECV_BUFFER_SIZE 0,
       response = False, crc_match = False, hid = None, hsequence = None, hcrc16 = None,
       tx_buffer = replicate RECV_BUFFER_SIZE 0\<rparr>"

text \<open>
  The two pointers \<open>seperate_header\<close> stores when the mark occurs in \<open>argv[0]\<close>: the text
  before the mark and the text after it.
\<close>

definition seperate_header :: "u8 \<Rightarrow> hup_handle \<Rightarrow> ((nat \<times> nat) option \<times> hup_handle) option" where
  "seperate_header ch h = do {
     p \<leftarrow> rd (argv h) 0;
     s \<leftarrow> hstr h p;
     case strchr s ch of
       None \<Rightarrow> Some (None, h)
     | Some k \<Rightarrow> do {
         b \<leftarrow> wr (buffer h) (p + k) 0;
         Some (Some (p, p + k + 1), h\<lparr>buffer := b\<rparr>)
       }
   }"

text \<open>The byte before each record is the record mark; it is replaced by a NUL.\<close>

fun cut_records :: "nat list \<Rightarrow> bytes \<Rightarrow> bytes option" where
  "cut_records [] b = Some b"
| "cut_records (p # ps) b =
     (case p of 0 \<Rightarrow> None | Suc q \<Rightarrow> do { b \<leftarrow> wr b q 0; cut_records ps b })"

fun find_cmd :: "'w hup_cmd list \<Rightarrow> bytes \<Rightarrow> 'w hup_fn option" where
  "find_cmd [] name = None"
| "find_cmd (c # cs) name = (if cmd_name c = name then Some (cmd_func c) else find_cmd cs name)"

text \<open>The CRC check; the flag says whether the frame is processed further.\<close>

definition check_crc16 :: "'w hup_env \<Rightarrow> hup_handle \<Rightarrow> 'w \<Rightarrow> (bool \<times> hup_handle \<times> 'w) option" where
  "check_crc16 env h w =
     (case hcrc16 h of
        None \<Rightarrow> Some (True, h, w)
      | Some c \<Rightarrow> do {
          s \<leftarrow> hstr h c;
          let calculated = env_crc16 env (take (c - 1) (buffer h));
          let received = ucast (strtoul 16 s);
          let h = h\<lparr>crc_match := (calculated = received)\<rparr>;
          if \<not> crc_match h \<and> \<not> response h then do {
            h \<leftarrow> hupacket_nak_response env (- ENMCRC16) h;
            (rc, h, w) \<leftarrow> hupacket_send_buffer env h w;
            Some (False, h, w)
          } else Some (True, h, w)
        })"

definition process_header :: "hup_handle \<Rightarrow> hup_handle option" where
  "process_header h = do {
     b \<leftarrow> cut_records (take (argc h - 1) (drop 1 (argv h))) (buffer h);
     (ps, h) \<leftarrow> seperate_header ID_MARK (h\<lparr>buffer := b\<rparr>);
     let h = (case ps of None \<Rightarrow> h | Some (p, q) \<Rightarrow> h\<lparr>hid := Some p, argv := (argv h)[0 := q]\<rparr>);
     (ps, h) \<leftarrow> seperate_header SEQUENCE_MARK h;
     Some (case ps of None \<Rightarrow> h | Some (p, q) \<Rightarrow> h\<lparr>argv := (argv h)[0 := p], hsequence := Some q\<rparr>)
   }"

definition process_data ::
  "'w hup_env \<Rightarrow> 'w hup_cmd list \<Rightarrow> 'w hup_cmd list \<Rightarrow> hup_handle \<Rightarrow> 'w \<Rightarrow> (hup_handle \<times> 'w) option" where
  "process_data env cmds resps h w = do {
     (go, h, w) \<leftarrow> check_crc16 env h w;
     if \<not> go then Some (h, w) else do {
       h \<leftarrow> process_header h;
       p \<leftarrow> rd (argv h) 0;
       name \<leftarrow> hstr h p;
       (h, w) \<leftarrow> (case find_cmd (if response h then resps else cmds) name of
                   None \<Rightarrow> Some (h, w) | Some f \<Rightarrow> f h w);
       Some (reset_hupacket h, w)
     }
   }"

definition is_start :: "u8 \<Rightarrow> bool" where
  "is_start ch \<longleftrightarrow> ch = ENQ_OF_COMMAND \<or> ch = ACK_OF_RESPONSE \<or> ch = NAK_OF_RESPONSE"

text \<open>\<open>state < sizeof(buffer)\<close> compares as unsigned.\<close>

definition in_buffer :: "hup_handle \<Rightarrow> bool" where
  "in_buffer h \<longleftrightarrow> 0 \<le> hstate h \<and> hstate h < int (length (buffer h))"

definition store :: "u8 \<Rightarrow> hup_handle \<Rightarrow> hup_handle option" where
  "store ch h =
     (if 0 \<le> hstate h then map_option (\<lambda>b. h\<lparr>buffer := b\<rparr>) (wr (buffer h) (nat (hstate h)) ch) else None)"

definition push_argv :: "nat \<Rightarrow> hup_handle \<Rightarrow> hup_handle option" where
  "push_argv p h = map_option (\<lambda>a. h\<lparr>argv := a, argc := argc h + 1\<rparr>) (wr (argv h) (argc h) p)"

definition hup_byte ::
  "'w hup_env \<Rightarrow> 'w hup_cmd list \<Rightarrow> 'w hup_cmd list \<Rightarrow> u8 \<Rightarrow> hup_handle \<Rightarrow> 'w \<Rightarrow> (hup_handle \<times> 'w) option" where
  "hup_byte env cmds resps ch h w =
     (if hstate h = HUP_STATE_NONE \<and> \<not> is_start ch then Some (h, w)
      else if is_start ch then do {
        let h = reset_hupacket h;
        let h = h\<lparr>hstate := hstate h + 1, response := (ch \<noteq> ENQ_OF_COMMAND)\<rparr>;
        h \<leftarrow> push_argv (nat (hstate h)) h;
        Some (h, w)
      }
      else if ch = END_OF_PACKET then do {
        h \<leftarrow> store 0 h;
        process_data env cmds resps h w
      }
      else if ch = CRC_MARK then
        (if in_buffer h then do {
           h \<leftarrow> store 0 h;
           let h = h\<lparr>hstate := hstate h + 1\<rparr>;
           Some (h\<lparr>hcrc16 := Some (nat (hstate h))\<rparr>, w)
         } else Some (reset_hupacket h, w))
      else do {
        h \<leftarrow> (if ch = RECORD_MARK then push_argv (nat (hstate h + 1)) h else Some h);
        if in_buffer h then do {
          h \<leftarrow> store ch h;
          Some (h\<lparr>hstate := hstate h + 1\<rparr>, w)
        } else Some (reset_hupacket h, w)
      })"

fun process_hupacket ::
  "'w hup_env \<Rightarrow> 'w hup_cmd list \<Rightarrow> 'w hup_cmd list \<Rightarrow> bytes \<Rightarrow> hup_handle \<Rightarrow> 'w \<Rightarrow> (hup_handle \<times> 'w) option" where
  "process_hupacket env cmds resps [] h w = Some (h, w)"
| "process_hupacket env cmds resps (ch # data) h w = do {
     (h, w) \<leftarrow> hup_byte env cmds resps ch h w;
     process_hupacket env cmds resps data h w
   }"

section \<open>Receiving a frame\<close>

text \<open>Bytes that mean nothing to the receiver, and the wire format of a frame.\<close>

definition plain :: "u8 \<Rightarrow> bool" where
  "plain b \<longleftrightarrow> \<not> is_start b \<and> b \<notin> {END_OF_PACKET, CRC_MARK, RECORD_MARK, 0}"

definition header_bytes :: "bytes option \<Rightarrow> bytes \<Rightarrow> bytes option \<Rightarrow> bytes" where
  "header_bytes i name s =
     (case i of None \<Rightarrow> [] | Some t \<Rightarrow> t @ [ID_MARK]) @ name @
     (case s of None \<Rightarrow> [] | Some t \<Rightarrow> SEQUENCE_MARK # t)"

definition marked :: "u8 \<Rightarrow> bytes list \<Rightarrow> bytes" where
  "marked m rs = concat (map (\<lambda>r. m # r) rs)"

definition frame_body :: "bytes option \<Rightarrow> bytes \<Rightarrow> bytes option \<Rightarrow> bytes list \<Rightarrow> bytes" where
  "frame_body i name s recs = header_bytes i name s @ marked RECORD_MARK recs"

definition crc_part :: "bytes option \<Rightarrow> bytes" where
  "crc_part c = (case c of None \<Rightarrow> [] | Some t \<Rightarrow> CRC_MARK # t)"

definition frame_ok :: "bytes option \<Rightarrow> bytes \<Rightarrow> bytes option \<Rightarrow> bytes list \<Rightarrow> bytes option \<Rightarrow> bool" where
  "frame_ok i name s recs c \<longleftrightarrow>
     (\<forall>t\<in>set_option i. ID_MARK \<notin> set t \<and> list_all plain t) \<and>
     ID_MARK \<notin> set name \<and> SEQUENCE_MARK \<notin> set name \<and> list_all plain name \<and>
     (\<forall>t\<in>set_option s. ID_MARK \<notin> set t \<and> list_all plain t) \<and>
     list_all (list_all plain) recs \<and> length recs < 64 \<and>
     (\<forall>t\<in>set_option c. list_all plain t) \<and>
     length (frame_body i name s recs @ crc_part c) < RECV_BUFFER_SIZE"

fun record_offsets :: "nat \<Rightarrow> bytes list \<Rightarrow> nat list" where
  "record_offsets n [] = []"
| "record_offsets n (r # rs) = Suc n # record_offsets (n + 1 + length r) rs"

text \<open>The shape of a handle, and a handle in the middle of a frame.\<close>

definition hup_shape :: "hup_handle \<Rightarrow> bool" where
  "hup_shape h \<longleftrightarrow> length (buffer h) = RECV_BUFFER_SIZE \<and> length (argv h) = 64 \<and> length (tx_buffer h) = RECV_BUFFER_SIZE"

definition received :: "hup_handle \<Rightarrow> bytes \<Rightarrow> nat list \<Rightarrow> hup_handle" where
  "received h bs ps = h\<lparr>hstate := int (length bs), buffer := bs @ drop (length bs) (buffer h),
     argc := length ps, argv := ps @ drop (length ps) (argv h)\<rparr>"

lemma process_hupacket_append:
  "process_hupacket env cmds resps (xs @ ys) h w =
     Option.bind (process_hupacket env cmds resps xs h w) (\<lambda>(h, w). process_hupacket env cmds resps ys h w)"
proof (induction xs arbitrary: h w)
  case (Cons x xs)
  then show ?case by (cases "hup_byte env cmds resps x h w") auto
qed simp

lemma plain_not: "plain b \<Longrightarrow> \<not> is_start b \<and> b \<noteq> END_OF_PACKET \<and> b \<noteq> CRC_MARK \<and> b \<noteq> RECORD_MARK \<and> b \<noteq> 0"
  by (simp add: plain_def)

lemma list_update_end: "length bs < length xs \<Longrightarrow> (bs @ drop (length bs) xs)[length bs := c] = (bs @ [c]) @ drop (length (bs @ [c])) xs"
  by (simp add: list_update_append Cons_nth_drop_Suc [symmetric])

lemma received_sel [simp]:
  "hstate (received h bs ps) = int (length bs)"
  "(received h bs ps)\<lparr>hstate := int (length bs)\<rparr> = received h bs ps"
  "in_buffer (received h bs ps) \<longleftrightarrow> length bs < length (buffer h)"
  if "length bs \<le> length (buffer h)" for h
  using that by (auto simp: received_def in_buffer_def)

lemma store_received:
  assumes "length bs < length (buffer h)"
  shows "store c (received h bs ps) = Some ((received h (bs @ [c]) ps)\<lparr>hstate := int (length bs)\<rparr>)"
  using assms by (simp add: store_def received_def list_update_end [simplified])

lemma bump_received [simp]:
  "(received h (bs @ [c]) ps)\<lparr>hstate := 1 + int (length bs)\<rparr> = received h (bs @ [c]) ps"
  by (simp add: received_def add.commute)

lemma receive_plain:
  assumes "list_all plain xs" and "length bs + length xs \<le> length (buffer h)"
  shows "process_hupacket env cmds resps xs (received h bs ps) w = Some (received h (bs @ xs) ps, w)"
  using assms
proof (induction xs arbitrary: bs)
  case (Cons x xs)
  then have l: "length bs < length (buffer h)" and x: "\<not> is_start x" "x \<noteq> END_OF_PACKET" "x \<noteq> CRC_MARK" "x \<noteq> RECORD_MARK"
    using plain_not [of x] by auto
  then have "hup_byte env cmds resps x (received h bs ps) w = Some (received h (bs @ [x]) ps, w)"
    using l by (simp add: hup_byte_def HUP_STATE_NONE_def store_received)
  then show ?case using Cons by simp
qed simp

lemma receive_mark:
  assumes "length bs < length (buffer h)" and "length ps < length (argv h)"
  shows "hup_byte env cmds resps RECORD_MARK (received h bs ps) w =
    Some (received h (bs @ [RECORD_MARK]) (ps @ [Suc (length bs)]), w)"
proof -
  have "push_argv (nat (hstate (received h bs ps) + 1)) (received h bs ps) =
      Some (received h bs (ps @ [Suc (length bs)]))"
    using assms(2) by (simp add: push_argv_def received_def list_update_end [simplified] nat_add_distrib)
  then show ?thesis
    using assms(1) store_received [OF assms(1)]
    by (simp add: hup_byte_def HUP_STATE_NONE_def is_start_def) (simp add: hup_marks)
qed

lemma receive_records:
  assumes "list_all (list_all plain) recs" and "length bs + length (marked RECORD_MARK recs) \<le> length (buffer h)"
    and "length ps + length recs \<le> length (argv h)"
  shows "process_hupacket env cmds resps (marked RECORD_MARK recs) (received h bs ps) w =
    Some (received h (bs @ marked RECORD_MARK recs) (ps @ record_offsets (length bs) recs), w)"
  using assms
proof (induction recs arbitrary: bs ps)
  case (Cons r recs)
  then have "hup_byte env cmds resps RECORD_MARK (received h bs ps) w =
      Some (received h (bs @ [RECORD_MARK]) (ps @ [Suc (length bs)]), w)"
    by (intro receive_mark) (simp_all add: marked_def)
  moreover have "process_hupacket env cmds resps r (received h (bs @ [RECORD_MARK]) (ps @ [Suc (length bs)])) w =
      Some (received h (bs @ RECORD_MARK # r) (ps @ [Suc (length bs)]), w)"
    using Cons.prems by (subst receive_plain) (simp_all add: marked_def)
  moreover note Cons.IH [of "bs @ RECORD_MARK # r" "ps @ [Suc (length bs)]"]
  ultimately show ?case
    using Cons.prems by (simp add: marked_def process_hupacket_append)
qed (simp add: marked_def)

text \<open>The start byte resets the handle, whatever it held.\<close>

definition started :: "u8 \<Rightarrow> hup_handle \<Rightarrow> hup_handle" where
  "started ch h = (reset_hupacket h)\<lparr>response := (ch \<noteq> ENQ_OF_COMMAND)\<rparr>"

lemma receive_start:
  assumes "is_start ch" and "hup_shape h"
  shows "hup_byte env cmds resps ch h w = Some (received (started ch h) [] [0], w)"
  using assms by (cases "argv h")
    (auto simp: hup_byte_def started_def received_def reset_hupacket_def HUP_STATE_NONE_def push_argv_def
      hup_shape_def Let_def)

lemma receive_frame:
  assumes ok: "frame_ok i name s recs c" and st: "is_start ch" and sh: "hup_shape h"
  defines "body \<equiv> frame_body i name s recs"
  shows "process_hupacket env cmds resps (ch # body @ crc_part c) h w =
    Some (case c of
        None \<Rightarrow> received (started ch h) body (0 # record_offsets (length (header_bytes i name s)) recs)
      | Some t \<Rightarrow> (received (started ch h) (body @ 0 # t)
            (0 # record_offsets (length (header_bytes i name s)) recs))\<lparr>hcrc16 := Some (Suc (length body))\<rparr>, w)"
proof -
  let ?g = "started ch h" and ?hd = "header_bytes i name s"
  let ?ps = "0 # record_offsets (length ?hd) recs"
  have ln: "length (buffer ?g) = RECV_BUFFER_SIZE" "length (argv ?g) = 64"
    using sh by (simp_all add: started_def reset_hupacket_def hup_shape_def)
  have hd: "list_all plain ?hd"
    using ok by (auto simp: frame_ok_def header_bytes_def plain_def is_start_def hup_marks split: option.splits)
  have bl: "length body + length (crc_part c) < RECV_BUFFER_SIZE" using ok by (simp add: frame_ok_def body_def)
  have a: "process_hupacket env cmds resps (ch # body) h w = Some (received ?g body ?ps, w)"
    using ok st sh hd ln bl receive_records [of recs ?hd ?g "[0]"]
    by (simp add: body_def frame_body_def process_hupacket_append receive_start receive_plain frame_ok_def)
  show ?thesis
  proof (cases c)
    case None
    then show ?thesis using a by (simp add: crc_part_def)
  next
    case (Some t)
    define g where "g = (?g\<lparr>hcrc16 := Some (Suc (length body))\<rparr>)"
    have g: "received g bs ps = (received ?g bs ps)\<lparr>hcrc16 := Some (Suc (length body))\<rparr>" for bs ps
      by (simp add: g_def received_def)
    have "hup_byte env cmds resps CRC_MARK (received ?g body ?ps) w = Some (received g (body @ [0]) ?ps, w)"
      using store_received [of body ?g 0 ?ps] bl ln
      by (simp add: hup_byte_def HUP_STATE_NONE_def is_start_def) (simp add: g hup_marks nat_add_distrib)
    moreover have "process_hupacket env cmds resps t (received g (body @ [0]) ?ps) w = Some (received g (body @ 0 # t) ?ps, w)"
      using ok Some bl ln by (subst receive_plain) (auto simp: frame_ok_def crc_part_def g_def)
    ultimately show ?thesis
      using a Some process_hupacket_append [of env cmds resps "ch # body" "CRC_MARK # t" h w]
      by (simp add: crc_part_def g)
  qed
qed

section \<open>Separating header and records\<close>

lemma marked_simps [simp]: "marked m [] = []" "marked m (r # rs) = m # r @ marked m rs"
  by (simp_all add: marked_def)

lemma marked_length: "length (marked m rs) = length (marked m' rs)"
  by (induction rs) auto

lemma cut_records_marked:
  "cut_records (record_offsets (length bs) recs) (bs @ marked RECORD_MARK recs @ rest) = Some (bs @ marked 0 recs @ rest)"
proof (induction recs arbitrary: bs)
  case (Cons r recs)
  from Cons [of "bs @ 0 # r"] show ?case by (simp add: list_update_append)
qed simp

text \<open>What a command finds through the pointers of the handle.\<close>

definition points :: "hup_handle \<Rightarrow> nat option \<Rightarrow> bytes option \<Rightarrow> bool" where
  "points h p s \<longleftrightarrow> (case s of None \<Rightarrow> p = None | Some t \<Rightarrow> (\<exists>q. p = Some q \<and> hstr h q = Some t))"

definition frame_view :: "hup_handle \<Rightarrow> bytes option \<Rightarrow> bytes \<Rightarrow> bytes option \<Rightarrow> bytes list \<Rightarrow> bytes option \<Rightarrow> bool" where
  "frame_view h i name s recs c \<longleftrightarrow>
     points h (hid h) i \<and> points h (hsequence h) s \<and> points h (hcrc16 h) c \<and>
     length (argv h) = 64 \<and> argc h = Suc (length recs) \<and> hstr h (argv h ! 0) = Some name \<and>
     (\<forall>k<length recs. hstr h (argv h ! Suc k) = Some (recs ! k))"

lemma plain_no_nul: "list_all plain t \<Longrightarrow> 0 \<notin> set t"
  by (auto simp: list_all_iff plain_def)

lemma cstr_at_append:
  "0 \<notin> set t \<Longrightarrow> p = length bs \<Longrightarrow> cstr_at (bs @ t @ 0 # rest) p = Some t"
  by (rule cstr_at_prefix) simp_all

lemma marked_zero_rest: "\<exists>r. marked 0 recs @ 0 # rest = 0 # r"
  by (cases recs) auto

lemma records_view:
  assumes "list_all (list_all plain) recs" and "k < length recs"
  shows "cstr_at (bs @ marked 0 recs @ 0 # rest) (record_offsets (length bs) recs ! k) = Some (recs ! k)"
  using assms
proof (induction recs arbitrary: bs k)
  case (Cons r recs)
  show ?case
  proof (cases k)
    case 0
    obtain z where "marked 0 recs @ 0 # rest = 0 # z" using marked_zero_rest by blast
    with 0 Cons.prems show ?thesis
      using cstr_at_append [of r "Suc (length bs)" "bs @ [0]" z] plain_no_nul by simp
  next
    case (Suc j)
    with Cons.prems Cons.IH [of j "bs @ 0 # r"] show ?thesis by simp
  qed
qed simp

lemma record_offsets_length [simp]: "length (record_offsets n recs) = length recs"
  by (induction recs arbitrary: n) auto

lemma strchr_at: "c \<notin> set xs \<Longrightarrow> strchr (xs @ c # ys) c = Some (length xs)"
  by (rule strchr_append)

text \<open>One call of \<open>seperate_header\<close> on a text that holds the mark, and on one that does not.\<close>

lemma seperate_header_mark:
  assumes "buffer h = bs @ t @ m # u @ 0 # rest" and "argv h = length bs # ps"
    and "0 \<notin> set t" "0 \<notin> set u" "m \<notin> set t" "m \<noteq> 0"
  shows "seperate_header m h =
    Some (Some (length bs, Suc (length bs + length t)), h\<lparr>buffer := bs @ t @ 0 # u @ 0 # rest\<rparr>)"
proof -
  have "hstr h (length bs) = Some (t @ m # u)"
    unfolding hstr_def assms(1) using cstr_at_append [of "t @ m # u" "length bs" bs rest] assms(3,4,6) by simp
  then show ?thesis
    using assms by (simp add: seperate_header_def rd_def strchr_at list_update_append)
qed

lemma seperate_header_none:
  assumes "buffer h = bs @ t @ 0 # rest" and "argv h = length bs # ps" and "0 \<notin> set t" "m \<notin> set t"
  shows "seperate_header m h = Some (None, h)"
proof -
  have "hstr h (length bs) = Some t"
    unfolding hstr_def assms(1) using assms(3) by (rule cstr_at_append) simp
  moreover have "strchr t m = None" using assms(4) by simp
  ultimately show ?thesis
    using assms(2) by (simp add: seperate_header_def rd_def del: strchr_None)
qed

definition cut_header :: "bytes option \<Rightarrow> bytes \<Rightarrow> bytes option \<Rightarrow> bytes" where
  "cut_header i name s = (case i of None \<Rightarrow> [] | Some t \<Rightarrow> t @ [0]) @ name @ (case s of None \<Rightarrow> [] | Some t \<Rightarrow> 0 # t)"

lemma cut_header_length: "length (cut_header i name s) = length (header_bytes i name s)"
  by (auto simp: cut_header_def header_bytes_def split: option.splits)

lemma header_no_id:
  assumes "frame_ok i name s recs c"
  shows "0 \<notin> set name" "ID_MARK \<notin> set name" "SEQUENCE_MARK \<notin> set name"
    "s = Some t \<Longrightarrow> 0 \<notin> set t \<and> ID_MARK \<notin> set t" "i = Some t \<Longrightarrow> 0 \<notin> set t \<and> ID_MARK \<notin> set t"
  using assms plain_no_nul by (auto simp: frame_ok_def)

lemma process_header_frame:
  assumes ok: "frame_ok i name s recs c"
    and b: "buffer h = frame_body i name s recs @ 0 # rest"
    and a: "argv h = 0 # record_offsets (length (header_bytes i name s)) recs @ as" "argc h = Suc (length recs)"
    and none: "hid h = None" "hsequence h = None"
  shows "process_header h = Some (h\<lparr>buffer := cut_header i name s @ marked 0 recs @ 0 # rest,
      hid := (if i = None then None else Some 0),
      argv := (case i of None \<Rightarrow> 0 | Some t \<Rightarrow> Suc (length t)) # record_offsets (length (header_bytes i name s)) recs @ as,
      hsequence := (if s = None then None
        else Some (Suc ((case i of None \<Rightarrow> 0 | Some t \<Rightarrow> Suc (length t)) + length name)))\<rparr>)"
proof -
  note no = header_no_id [OF ok]
  define z where "z = marked 0 recs @ 0 # rest"
  obtain y where y: "z = 0 # y" using marked_zero_rest z_def by blast
  have cut: "cut_records (take (argc h - 1) (drop 1 (argv h))) (buffer h) = Some (header_bytes i name s @ z)"
    using cut_records_marked [of "header_bytes i name s" recs "0 # rest"]
    by (simp add: a b frame_body_def z_def)
  have ne: "ID_MARK \<noteq> 0" "SEQUENCE_MARK \<noteq> 0" "ID_MARK \<noteq> SEQUENCE_MARK" by (simp_all add: hup_marks)
  let ?ns = "name @ (case s of None \<Rightarrow> [] | Some t \<Rightarrow> SEQUENCE_MARK # t)"
  have ns: "0 \<notin> set ?ns" "ID_MARK \<notin> set ?ns" using no ne by (auto split: option.splits)
  let ?p = "case i of None \<Rightarrow> 0 | Some t \<Rightarrow> Suc (length t)" and ?pre = "case i of None \<Rightarrow> [] | Some t \<Rightarrow> t @ [0]"
  define g where "g = h\<lparr>buffer := ?pre @ ?ns @ z, hid := (if i = None then None else Some 0),
    argv := ?p # record_offsets (length (header_bytes i name s)) recs @ as\<rparr>"
  have one: "do { (ps, h) \<leftarrow> seperate_header ID_MARK (h\<lparr>buffer := header_bytes i name s @ z\<rparr>);
      Some (case ps of None \<Rightarrow> h | Some (p, q) \<Rightarrow> h\<lparr>hid := Some p, argv := (argv h)[0 := q]\<rparr>) } = Some g"
    (is "?one = _")
  proof (cases i)
    case None
    have "seperate_header ID_MARK (h\<lparr>buffer := ?ns @ z\<rparr>) = Some (None, h\<lparr>buffer := ?ns @ z\<rparr>)"
      using ns a by (intro seperate_header_none [where bs = "[]" and t = ?ns]) (simp_all add: y)
    with None show ?thesis by (simp add: header_bytes_def g_def a none)
  next
    case (Some t)
    then have "seperate_header ID_MARK (h\<lparr>buffer := t @ ID_MARK # ?ns @ z\<rparr>) =
        Some (Some (length ([] :: bytes), Suc (length ([] :: bytes) + length t)), h\<lparr>buffer := t @ ID_MARK # ?ns @ z\<rparr>\<lparr>buffer := [] @ t @ 0 # ?ns @ 0 # y\<rparr>)"
      using ns a no ne by (intro seperate_header_mark [where u = ?ns]) (simp_all add: y)
    with Some show ?thesis by (simp add: header_bytes_def g_def a y)
  qed
  have two: "do { (ps, h) \<leftarrow> seperate_header SEQUENCE_MARK g;
      Some (case ps of None \<Rightarrow> h | Some (p, q) \<Rightarrow> h\<lparr>argv := (argv h)[0 := p], hsequence := Some q\<rparr>) } =
    Some (g\<lparr>buffer := cut_header i name s @ z, hsequence := (if s = None then None else Some (Suc (?p + length name)))\<rparr>)"
  proof (cases s)
    case None
    have "seperate_header SEQUENCE_MARK g = Some (None, g)"
      using no a None by (intro seperate_header_none [where bs = ?pre and t = name and ps = "record_offsets (length (header_bytes i name s)) recs @ as"]) (auto simp: g_def y split: option.splits)
    with None show ?thesis by (simp add: cut_header_def g_def a none)
  next
    case (Some t)
    then have "seperate_header SEQUENCE_MARK g =
        Some (Some (length ?pre, Suc (length ?pre + length name)), g\<lparr>buffer := ?pre @ name @ 0 # t @ 0 # y\<rparr>)"
      using a no ne by (intro seperate_header_mark [where u = t and ps = "record_offsets (length (header_bytes i name s)) recs @ as"]) (auto simp: g_def y split: option.splits)
    with Some show ?thesis by (cases i) (simp_all add: cut_header_def g_def a y)
  qed
  have "process_header h = do { h \<leftarrow> ?one; (ps, h) \<leftarrow> seperate_header SEQUENCE_MARK h;
      Some (case ps of None \<Rightarrow> h | Some (p, q) \<Rightarrow> h\<lparr>argv := (argv h)[0 := p], hsequence := Some q\<rparr>) }"
    unfolding process_header_def cut by (simp add: case_prod_unfold Let_def)
  then show ?thesis
    unfolding one using two by (simp add: g_def z_def a)
qed

section \<open>A whole frame\<close>

definition crc_matches :: "'w hup_env \<Rightarrow> bytes \<Rightarrow> bytes option \<Rightarrow> bool" where
  "crc_matches env body c \<longleftrightarrow> (case c of None \<Rightarrow> True | Some t \<Rightarrow> env_crc16 env body = ucast (strtoul 16 t))"

text \<open>The handle when the frame is complete, before the header is separated.\<close>

definition completed :: "u8 \<Rightarrow> hup_handle \<Rightarrow> bytes option \<Rightarrow> bytes \<Rightarrow> bytes option \<Rightarrow> bytes list \<Rightarrow> bytes option \<Rightarrow> hup_handle" where
  "completed ch h i name s recs c =
     (let body = frame_body i name s recs; bs = (case c of None \<Rightarrow> body | Some t \<Rightarrow> body @ 0 # t);
          g = received (started ch h) bs (0 # record_offsets (length (header_bytes i name s)) recs)
      in g\<lparr>hcrc16 := (if c = None then None else Some (Suc (length body))),
           buffer := bs @ 0 # drop (Suc (length bs)) (buffer h)\<rparr>)"

lemma drop_store: "length bs < length b \<Longrightarrow> (bs @ drop (length bs) b)[length bs := c] = bs @ c # drop (Suc (length bs)) b"
  using list_update_end [of bs b c] by simp

lemma started_no_crc: "(received (started ch h) bs ps)\<lparr>hcrc16 := None\<rparr> = received (started ch h) bs ps"
  by (cases h) (simp add: received_def started_def reset_hupacket_def)

lemma receive_frame_end:
  assumes ok: "frame_ok i name s recs c" and st: "is_start ch" and sh: "hup_shape h"
  shows "process_hupacket env cmds resps (ch # frame_body i name s recs @ crc_part c @ [END_OF_PACKET]) h w =
    process_data env cmds resps (completed ch h i name s recs c) w"
proof -
  let ?body = "frame_body i name s recs" and ?ps = "0 # record_offsets (length (header_bytes i name s)) recs"
  define bs where "bs = (case c of None \<Rightarrow> ?body | Some t \<Rightarrow> ?body @ 0 # t)"
  define g where "g = (received (started ch h) bs ?ps)\<lparr>hcrc16 := (if c = None then None else Some (Suc (length ?body)))\<rparr>"
  have lb: "length bs < length (buffer h)"
    using ok sh by (auto simp: frame_ok_def bs_def hup_shape_def crc_part_def split: option.splits)
  have "process_hupacket env cmds resps (ch # ?body @ crc_part c) h w = Some (g, w)"
    using receive_frame [OF ok st sh] by (cases c) (simp_all add: g_def bs_def started_no_crc)
  moreover have "hup_byte env cmds resps END_OF_PACKET g w = process_data env cmds resps (completed ch h i name s recs c) w"
    using lb by (simp add: hup_byte_def is_start_def hup_marks HUP_STATE_NONE_def g_def received_def store_def
        started_def reset_hupacket_def drop_store [simplified] completed_def bs_def [symmetric] Let_def)
  ultimately show ?thesis
    using process_hupacket_append [of env cmds resps "ch # ?body @ crc_part c" "[END_OF_PACKET]" h w]
    by (cases "process_data env cmds resps (completed ch h i name s recs c) w") auto
qed

lemma completed_sel:
  assumes "hup_shape h" and "frame_ok i name s recs c"
  shows "argv (completed ch h i name s recs c) = 0 # record_offsets (length (header_bytes i name s)) recs @ drop (Suc (length recs)) (argv h)"
    and "argc (completed ch h i name s recs c) = Suc (length recs)"
    and "hid (completed ch h i name s recs c) = None" and "hsequence (completed ch h i name s recs c) = None"
    and "response (completed ch h i name s recs c) = (ch \<noteq> ENQ_OF_COMMAND)"
    and "\<exists>r. buffer (completed ch h i name s recs c) = frame_body i name s recs @ 0 # r \<and>
       (\<forall>t. c = Some t \<longrightarrow> (\<exists>r'. r = t @ 0 # r'))"
    and "tx_buffer (completed ch h i name s recs c) = tx_buffer h"
    and "hcrc16 (completed ch h i name s recs c) = (if c = None then None else Some (Suc (length (frame_body i name s recs))))"
  by (auto simp: completed_def Let_def received_def started_def reset_hupacket_def split: option.splits)

lemma completed_length:
  assumes "hup_shape h" and "frame_ok i name s recs c"
  shows "length (buffer (completed ch h i name s recs c)) = RECV_BUFFER_SIZE"
  using assms by (auto simp: completed_def Let_def received_def started_def reset_hupacket_def hup_shape_def frame_ok_def
      crc_part_def split: option.splits)

text \<open>The handle a command is called with.\<close>

lemma processed_view:
  fixes ch :: u8
  assumes ok: "frame_ok i name s recs c" and sh: "hup_shape h"
    and g_def: "g = completed ch h i name s recs c"
  shows "\<exists>h'. process_header (g\<lparr>crc_match := m\<rparr>) = Some h' \<and> frame_view h' i name s recs c \<and>
    response h' = (ch \<noteq> ENQ_OF_COMMAND) \<and> tx_buffer h' = tx_buffer h \<and> hup_shape h'"
proof -
  let ?hl = "length (header_bytes i name s)"
  obtain r where b: "buffer g = frame_body i name s recs @ 0 # r" and r: "\<forall>t. c = Some t \<longrightarrow> (\<exists>r'. r = t @ 0 # r')"
    using completed_sel(6) [OF sh ok] unfolding g_def by blast
  note sel = completed_sel [OF sh ok, of ch, folded g_def]
  define h' where "h' = g\<lparr>crc_match := m, buffer := cut_header i name s @ marked 0 recs @ 0 # r,
      hid := (if i = None then None else Some 0),
      argv := (case i of None \<Rightarrow> 0 | Some t \<Rightarrow> Suc (length t)) # record_offsets ?hl recs @ drop (Suc (length recs)) (argv h),
      hsequence := (if s = None then None
        else Some (Suc ((case i of None \<Rightarrow> 0 | Some t \<Rightarrow> Suc (length t)) + length name)))\<rparr>"
  have ph: "process_header (g\<lparr>crc_match := m\<rparr>) = Some h'"
    unfolding h'_def using process_header_frame [OF ok, of "g\<lparr>crc_match := m\<rparr>"] b sel by simp
  obtain z where z: "marked 0 recs @ 0 # r = 0 # z" using marked_zero_rest by blast
  note no = header_no_id [OF ok]
  have "points h' (hid h') i"
    using no z by (auto simp: points_def h'_def hstr_def cut_header_def intro!: cstr_at_append [of _ _ "[]", simplified]
        split: option.splits)
  moreover have "points h' (hsequence h') s"
  proof (cases s)
    case (Some t)
    then show ?thesis
      using cstr_at_append [of t _ "(case i of None \<Rightarrow> [] | Some t \<Rightarrow> t @ [0]) @ name @ [0]" z] no z
      by (cases i) (simp_all add: points_def h'_def hstr_def cut_header_def)
  qed (simp add: points_def h'_def)
  moreover have "points h' (hcrc16 h') c"
  proof (cases c)
    case (Some t)
    then obtain r' where "r = t @ 0 # r'" using r by blast
    moreover have "0 \<notin> set t" using ok Some plain_no_nul by (simp add: frame_ok_def)
    moreover have "length (cut_header i name s @ marked 0 recs) = length (frame_body i name s recs)"
      using marked_length by (simp add: cut_header_length frame_body_def)
    ultimately show ?thesis
      using Some cstr_at_append [of t "Suc (length (frame_body i name s recs))" "(cut_header i name s @ marked 0 recs) @ [0]" r']
      by (simp add: points_def h'_def hstr_def sel)
  qed (simp add: points_def h'_def sel)
  moreover have "hstr h' (argv h' ! 0) = Some name"
  proof -
    obtain y where "(case s of None \<Rightarrow> [] | Some t \<Rightarrow> 0 # t) @ marked 0 recs @ 0 # r = 0 # y"
      using z by (cases s) auto
    then show ?thesis
      using cstr_at_append [of name _ "(case i of None \<Rightarrow> [] | Some t \<Rightarrow> t @ [0])" y] no(1)
      by (cases i) (simp_all add: h'_def hstr_def cut_header_def)
  qed
  moreover have "hstr h' (argv h' ! Suc k) = Some (recs ! k)" if "k < length recs" for k
    using records_view [of recs k "cut_header i name s" r] ok that
    by (simp add: h'_def hstr_def cut_header_length frame_ok_def nth_append)
  moreover have "length (argv h') = 64" "argc h' = Suc (length recs)"
    using ok sh by (simp_all add: h'_def frame_ok_def hup_shape_def sel)
  moreover have "response h' = (ch \<noteq> ENQ_OF_COMMAND)" "tx_buffer h' = tx_buffer h"
    by (simp_all add: h'_def sel)
  moreover have "length (buffer h') = RECV_BUFFER_SIZE"
    using completed_length [OF sh ok, of ch] marked_length [of 0 recs RECORD_MARK]
    by (simp add: h'_def g_def [symmetric] b cut_header_length frame_body_def)
  ultimately show ?thesis using ph sh by (auto simp: frame_view_def hup_shape_def)
qed

lemma check_crc16_frame:
  assumes ok: "frame_ok i name s recs c" and sh: "hup_shape h"
    and good: "crc_matches env (frame_body i name s recs) c \<or> ch \<noteq> ENQ_OF_COMMAND"
  shows "\<exists>m. check_crc16 env (completed ch h i name s recs c) w =
    Some (True, (completed ch h i name s recs c)\<lparr>crc_match := m\<rparr>, w)"
proof -
  let ?g = "completed ch h i name s recs c"
  note sel = completed_sel [OF sh ok, of ch]
  show ?thesis
  proof (cases c)
    case None
    then have "hcrc16 ?g = None" using sel(8) by simp
    then have "check_crc16 env ?g w = Some (True, ?g\<lparr>crc_match := crc_match ?g\<rparr>, w)"
      unfolding check_crc16_def by simp
    then show ?thesis by blast
  next
    case (Some t)
    then obtain r where b: "buffer ?g = frame_body i name s recs @ 0 # t @ 0 # r" using sel(6) by auto
    have t: "0 \<notin> set t" using ok Some plain_no_nul by (simp add: frame_ok_def)
    have "hstr ?g (Suc (length (frame_body i name s recs))) = Some t"
      using cstr_at_append [of t _ "frame_body i name s recs @ [0]" r] t by (simp add: hstr_def b)
    moreover have "hcrc16 ?g = Some (Suc (length (frame_body i name s recs)))" using sel(8) Some by simp
    ultimately show ?thesis
      using Some good sel(5) unfolding check_crc16_def b by (auto simp: Let_def crc_matches_def b)
  qed
qed

lemma frame_dispatched:
  assumes "hup_shape h" and "is_start ch" and "frame_ok i name s recs c"
    and "crc_matches env (frame_body i name s recs) c \<or> ch \<noteq> ENQ_OF_COMMAND"
  shows "\<exists>h'. frame_view h' i name s recs c \<and> response h' = (ch \<noteq> ENQ_OF_COMMAND) \<and> tx_buffer h' = tx_buffer h \<and> hup_shape h' \<and>
    process_hupacket env cmds resps (ch # frame_body i name s recs @ crc_part c @ [END_OF_PACKET]) h w =
      map_option (map_prod reset_hupacket id)
        (case find_cmd (if ch = ENQ_OF_COMMAND then cmds else resps) name of None \<Rightarrow> Some (h', w) | Some f \<Rightarrow> f h' w)"
proof -
  let ?g = "completed ch h i name s recs c"
  obtain m where m: "check_crc16 env ?g w = Some (True, ?g\<lparr>crc_match := m\<rparr>, w)"
    using check_crc16_frame [OF assms(3,1,4)] by blast
  obtain h' where h': "process_header (?g\<lparr>crc_match := m\<rparr>) = Some h'" "frame_view h' i name s recs c"
    "response h' = (ch \<noteq> ENQ_OF_COMMAND)" "tx_buffer h' = tx_buffer h" "hup_shape h'"
    using processed_view [OF assms(3,1) refl] by blast
  have "rd (argv h') 0 = Some (argv h' ! 0)" "hstr h' (argv h' ! 0) = Some name"
    using h'(2) by (simp_all add: frame_view_def)
  then have "process_data env cmds resps ?g w = map_option (map_prod reset_hupacket id)
      (case find_cmd (if ch = ENQ_OF_COMMAND then cmds else resps) name of None \<Rightarrow> Some (h', w) | Some f \<Rightarrow> f h' w)"
    using h'(3) by (auto simp: process_data_def m h'(1) map_option_case split: option.splits prod.splits)
  with h' receive_frame_end [OF assms(3,2,1)] show ?thesis by metis
qed

text \<open>
  Claim C14. The receiver decodes the wire format. Whatever the handle held before, a start byte, a
  header of an optional id, a name and an optional sequence, up to 63 records, an optional CRC and the
  end byte, shorter than the receive buffer, is received without leaving the buffer, and the first command
  of that name (of the response table when the start byte is an ACK or NAK) is called exactly once, with
  pointers to exactly these texts and unless a command's CRC does not match; then the handle is reset. A name
  that is in no table calls nothing.
\<close>

theorem hup_frame_dispatch:
  assumes "hup_shape h" and "is_start ch" and "frame_ok i name s recs c"
    and "crc_matches env (frame_body i name s recs) c \<or> ch \<noteq> ENQ_OF_COMMAND"
  shows "\<exists>h'. frame_view h' i name s recs c \<and> response h' = (ch \<noteq> ENQ_OF_COMMAND) \<and> tx_buffer h' = tx_buffer h \<and>
    process_hupacket env cmds resps (ch # frame_body i name s recs @ crc_part c @ [END_OF_PACKET]) h w =
      map_option (map_prod reset_hupacket id)
        (case find_cmd (if ch = ENQ_OF_COMMAND then cmds else resps) name of None \<Rightarrow> Some (h', w) | Some f \<Rightarrow> f h' w)"
  using frame_dispatched [OF assms] by blast

section \<open>Building responses\<close>

fun put_all :: "('a \<Rightarrow> 's \<Rightarrow> 's option) \<Rightarrow> 'a list \<Rightarrow> 's \<Rightarrow> 's option" where
  "put_all put [] s = Some s"
| "put_all put (x # xs) s = do { s \<leftarrow> put x s; put_all put xs s }"

text \<open>
  The interface of a bounded text: \<open>put\<close> appends a text without NUL and fails only when there is
  no room for it.
\<close>

locale text_sink =
  fixes put :: "bytes \<Rightarrow> 's \<Rightarrow> 's option" and holds :: "'s \<Rightarrow> bytes \<Rightarrow> bool" and room :: nat
  assumes put_law: "holds s xs \<Longrightarrow> 0 \<notin> set ys \<Longrightarrow> length xs + length ys < room \<Longrightarrow>
      \<exists>s'. put ys s = Some s' \<and> holds s' (xs @ ys)"
    and put_full: "holds s xs \<Longrightarrow> room \<le> length xs + length ys \<Longrightarrow> put ys s = None"
begin

lemma put_all_law:
  assumes "holds s xs" and "\<forall>y\<in>set ys. 0 \<notin> set y" and "length xs + length (concat ys) < room"
  shows "\<exists>s'. put_all put ys s = Some s' \<and> holds s' (xs @ concat ys)"
  using assms
proof (induction ys arbitrary: s xs)
  case (Cons y ys)
  then obtain s' where "put y s = Some s'" "holds s' (xs @ y)"
    using put_law [of s xs y] by auto
  with Cons.IH [of s' "xs @ y"] Cons.prems show ?case by simp
qed simp

lemma put_twice:
  assumes "holds s xs" and "0 \<notin> set ys" and "0 \<notin> set zs" and "length xs + length ys + length zs < room"
  shows "\<exists>s'. Option.bind (put ys s) (put zs) = Some s' \<and> holds s' (xs @ ys @ zs)"
proof -
  have "put_all put [zs] = put zs" by (intro ext) (simp split: Option.bind_split)
  then show ?thesis using put_all_law [OF assms(1), of "[ys, zs]"] assms by simp
qed

end

text \<open>The handle \<open>h0\<close> with the text \<open>xs\<close> in its transmit buffer.\<close>

definition tx_holds :: "hup_handle \<Rightarrow> hup_handle \<Rightarrow> bytes \<Rightarrow> bool" where
  "tx_holds h0 h xs \<longleftrightarrow>
     (\<exists>r. h = h0\<lparr>tx_buffer := xs @ 0 # r\<rparr> \<and> length (xs @ 0 # r) = RECV_BUFFER_SIZE) \<and> 0 \<notin> set xs"

interpretation tx: text_sink hupacket_append_str "tx_holds h0" RECV_BUFFER_SIZE for h0
proof
  fix h and xs ys :: bytes
  assume h: "tx_holds h0 h xs"
  then obtain r where r: "h = h0\<lparr>tx_buffer := xs @ 0 # r\<rparr>" "length (xs @ 0 # r) = RECV_BUFFER_SIZE" "0 \<notin> set xs"
    by (auto simp: tx_holds_def)
  {
    assume y: "0 \<notin> set ys" and "length xs + length ys < RECV_BUFFER_SIZE"
    then have "strcat (tx_buffer h) ys = Some (xs @ ys @ 0 # drop (length ys) r)"
      using r by (intro strcat_prefix) simp_all
    then show "\<exists>h'. hupacket_append_str ys h = Some h' \<and> tx_holds h0 h' (xs @ ys)"
      using r y \<open>length xs + length ys < RECV_BUFFER_SIZE\<close> by (auto simp: hupacket_append_str_def tx_holds_def)
  next
    assume f: "RECV_BUFFER_SIZE \<le> length xs + length ys"
    have "cstr_at (xs @ 0 # r) 0 = Some xs" using r(3) by (intro cstr_at_prefix) simp_all
    then show "hupacket_append_str ys h = None"
      using r f by (simp add: hupacket_append_str_def strcat_def wr_run_def)
  }
qed

lemma tx_holds_sel:
  assumes "tx_holds h0 h xs"
  shows "hid h = hid h0" "hsequence h = hsequence h0" "hcrc16 h = hcrc16 h0" "argv h = argv h0" "argc h = argc h0"
    "hstr h p = hstr h0 p" "length (tx_buffer h) = RECV_BUFFER_SIZE" "0 \<notin> set xs" "length xs < RECV_BUFFER_SIZE"
    "hstate h = hstate h0" "response h = response h0"
  using assms by (auto simp: tx_holds_def hstr_def)

lemma tx_holds_text: "tx_holds h0 h xs \<Longrightarrow> cstr_at (tx_buffer h) 0 = Some xs"
  by (auto simp: tx_holds_def intro!: cstr_at_prefix)

lemma tx_holds_tail: "tx_holds h0 h (x # xs) \<Longrightarrow> cstr_at (tx_buffer h) 1 = Some xs"
  by (auto simp: tx_holds_def intro!: cstr_at_prefix)

lemma append_char_str: "c \<noteq> 0 \<Longrightarrow> hupacket_append_char c = hupacket_append_str [c]"
  by (rule ext) (simp add: hupacket_append_char_def)

lemma marks_nonzero [simp]:
  "ID_MARK \<noteq> 0" "SEQUENCE_MARK \<noteq> 0" "RECORD_MARK \<noteq> 0" "CRC_MARK \<noteq> 0" "END_OF_PACKET \<noteq> 0"
  "ENQ_OF_COMMAND \<noteq> 0" "ACK_OF_RESPONSE \<noteq> 0" "NAK_OF_RESPONSE \<noteq> 0"
  by (simp_all add: hup_marks)

lemma reset_buffer_response:
  assumes i: "points h (hid h) i" and s: "points h (hsequence h) s"
    and n: "argv h \<noteq> []" "hstr h (argv h ! 0) = Some name" and stx: "stx \<noteq> 0"
    and len: "length (tx_buffer h) = RECV_BUFFER_SIZE" "length (stx # header_bytes i name s) < RECV_BUFFER_SIZE"
  shows "\<exists>h'. hupacket_reset_buffer stx h = Some h' \<and> tx_holds h h' (stx # header_bytes i name s)"
proof -
  have nn: "0 \<notin> set name" "\<And>t. i = Some t \<Longrightarrow> 0 \<notin> set t" "\<And>t. s = Some t \<Longrightarrow> 0 \<notin> set t"
    using i s n(2) cstr_at_no_nul by (auto simp: points_def hstr_def)
  define h1 where "h1 = h\<lparr>tx_buffer := (tx_buffer h)[0 := 0]\<rparr>"
  have h1: "tx_holds h h1 []"
    using len(1) by (cases "tx_buffer h") (auto simp: h1_def tx_holds_def RECV_BUFFER_SIZE_def)
  have w: "wr (tx_buffer h) 0 0 = Some ((tx_buffer h)[0 := 0])"
    using len by simp
  have r: "rd (argv g) 0 = Some (argv h ! 0)" "hstr g = hstr h" "hid g = hid h" "hsequence g = hsequence h" if "tx_holds h g xs" for g xs
    using tx_holds_sel [OF that] n(1) by auto
  obtain h2 where h2: "hupacket_append_str [stx] h1 = Some h2" "tx_holds h h2 [stx]"
    using tx.put_law [OF h1, of "[stx]"] stx len by auto
  obtain h3 where h3: "(case hid h2 of None \<Rightarrow> Some h2
           | Some p \<Rightarrow> do { s \<leftarrow> hstr h2 p; h \<leftarrow> hupacket_append_str s h2; hupacket_append_char ID_MARK h }) = Some h3"
    "tx_holds h h3 (stx # (case i of None \<Rightarrow> [] | Some t \<Rightarrow> t @ [ID_MARK]))"
  proof (cases i)
    case None
    then show ?thesis using that h2 i r(3) [OF h2(2)] by (simp add: points_def)
  next
    case (Some t)
    then obtain p where "hid h = Some p" "hstr h p = Some t" using i by (auto simp: points_def)
    then show ?thesis
      using that tx.put_twice [OF h2(2), of t "[ID_MARK]"] r(2,3) [OF h2(2)] nn(2) Some len(2)
      by (auto simp: append_char_str header_bytes_def)
  qed
  obtain h4 where h4: "hupacket_append_str name h3 = Some h4"
    "tx_holds h h4 (stx # (case i of None \<Rightarrow> [] | Some t \<Rightarrow> t @ [ID_MARK]) @ name)"
    using tx.put_law [OF h3(2) nn(1)] len(2) by (auto simp: header_bytes_def split: option.splits)
  obtain h5 where h5: "(case hsequence h4 of None \<Rightarrow> Some h4
      | Some p \<Rightarrow> do { h \<leftarrow> hupacket_append_char SEQUENCE_MARK h4; s \<leftarrow> hstr h p; hupacket_append_str s h }) = Some h5"
    "tx_holds h h5 (stx # header_bytes i name s)"
  proof (cases s)
    case None
    then show ?thesis using that h4 s r(4) [OF h4(2)] by (simp add: points_def header_bytes_def)
  next
    case (Some t)
    then obtain p where p: "hsequence h = Some p" "hstr h p = Some t" using s by (auto simp: points_def)
    obtain h' where "hupacket_append_str [SEQUENCE_MARK] h4 = Some h'"
      "tx_holds h h' ((stx # (case i of None \<Rightarrow> [] | Some t \<Rightarrow> t @ [ID_MARK]) @ name) @ [SEQUENCE_MARK])"
      using tx.put_law [OF h4(2), of "[SEQUENCE_MARK]"] len(2) Some by (auto simp: header_bytes_def)
    moreover obtain h'' where "hupacket_append_str t h' = Some h''" "tx_holds h h'' (stx # header_bytes i name s)"
      using tx.put_law [OF calculation(2) nn(3) [OF Some]] len(2) Some by (auto simp: header_bytes_def)
    ultimately show ?thesis
      using that p r(4) [OF h4(2)] r(2) by (auto simp: append_char_str)
  qed
  have "hupacket_reset_buffer stx h = Some h5"
    unfolding hupacket_reset_buffer_def w
    using h2(1) h3(1) h4(1) h5(1) r(1,2) [OF h3(2)] n(2) stx by (simp add: append_char_str h1_def)
  with h5(2) show ?thesis by blast
qed


lemma record_str_response:
  assumes "tx_holds h0 h xs" and "0 \<notin> set s" and "length xs + Suc (length s) < RECV_BUFFER_SIZE"
  shows "\<exists>h'. hupacket_record_str s h = Some h' \<and> tx_holds h0 h' (xs @ RECORD_MARK # s)"
  using tx.put_twice [OF assms(1), of "[RECORD_MARK]" s] assms(2,3)
  by (simp add: hupacket_record_str_def append_char_str)

lemma records_response:
  assumes "tx_holds h0 h xs" and "\<forall>s\<in>set out. 0 \<notin> set s" and "length xs + length (marked RECORD_MARK out) < RECV_BUFFER_SIZE"
  shows "\<exists>h'. put_all hupacket_record_str out h = Some h' \<and> tx_holds h0 h' (xs @ marked RECORD_MARK out)"
  using assms
proof (induction out arbitrary: h xs)
  case (Cons s out)
  then obtain h1 where h1: "hupacket_record_str s h = Some h1" "tx_holds h0 h1 (xs @ RECORD_MARK # s)"
    using record_str_response [of h0 h xs s] by auto
  with Cons.IH [OF h1(2)] Cons.prems show ?case by simp
qed simp

text \<open>What the response routines rely on of \<open>itoa\<close>: short texts of plain characters.\<close>

definition itoa_ok :: "'w hup_env \<Rightarrow> bool" where
  "itoa_ok env \<longleftrightarrow> (\<forall>v. \<bar>v\<bar> < 2 ^ 31 \<longrightarrow> list_all plain (env_itoa env v 10) \<and> length (env_itoa env v 10) < 12) \<and>
     (\<forall>v. 0 \<le> v \<and> v < 2 ^ 16 \<longrightarrow> list_all plain (env_itoa env v 16) \<and> length (env_itoa env v 16) < 9 \<and>
        strtoul 16 (env_itoa env v 16) = word_of_int v)"

lemma record_int_response:
  assumes "tx_holds h0 h xs" and "itoa_ok env" and "\<bar>v\<bar> < 2 ^ 31"
  shows "length xs + Suc (length (env_itoa env v 10)) < RECV_BUFFER_SIZE \<Longrightarrow>
      \<exists>h'. hupacket_record_int env v h = Some h' \<and> tx_holds h0 h' (xs @ RECORD_MARK # env_itoa env v 10)"
    and "RECV_BUFFER_SIZE \<le> length xs + Suc (length (env_itoa env v 10)) \<Longrightarrow> hupacket_record_int env v h = None"
proof -
  let ?s = "env_itoa env v 10"
  have s: "0 \<notin> set ?s" "length ?s < 12" using assms(2,3) plain_no_nul by (simp_all add: itoa_ok_def)
  then have eq: "hupacket_record_int env v h = Option.bind (hupacket_append_str [RECORD_MARK] h) (hupacket_append_str ?s)"
    by (simp add: hupacket_record_int_def append_char_str hupacket_append_int_def Let_def)
  show "\<exists>h'. hupacket_record_int env v h = Some h' \<and> tx_holds h0 h' (xs @ RECORD_MARK # ?s)"
    if "length xs + Suc (length ?s) < RECV_BUFFER_SIZE"
    unfolding eq using tx.put_twice [OF assms(1), of "[RECORD_MARK]" ?s] s that by simp
  show "hupacket_record_int env v h = None" if full: "RECV_BUFFER_SIZE \<le> length xs + Suc (length ?s)"
  proof (cases "length xs + 1 < RECV_BUFFER_SIZE")
    case True
    then obtain h1 where h1: "hupacket_append_str [RECORD_MARK] h = Some h1" "tx_holds h0 h1 (xs @ [RECORD_MARK])"
      using tx.put_law [OF assms(1), of "[RECORD_MARK]"] by auto
    then show ?thesis unfolding eq using tx.put_full [OF h1(2), of ?s] full by simp
  next
    case False
    then show ?thesis unfolding eq using tx.put_full [OF assms(1), of "[RECORD_MARK]"] by simp
  qed
qed

definition crc_text :: "'w hup_env \<Rightarrow> bytes \<Rightarrow> bytes" where
  "crc_text env bs = env_itoa env (uint (env_crc16 env bs)) 16"

lemma send_buffer_response:
  assumes h: "tx_holds h0 h (stx # body)" and it: "itoa_ok env"
    and len: "length (stx # body) + (if hcrc16 h0 = None then 0 else Suc (length (crc_text env body))) + 1 < RECV_BUFFER_SIZE"
  shows "\<exists>h'. hupacket_send_buffer env h w =
    Some (fst (env_send env (stx # body @ crc_part (if hcrc16 h0 = None then None else Some (crc_text env body)) @ [END_OF_PACKET]) w),
      h', snd (env_send env (stx # body @ crc_part (if hcrc16 h0 = None then None else Some (crc_text env body)) @ [END_OF_PACKET]) w)) \<and>
    hstate h' = hstate h0 \<and> response h' = response h0"
proof -
  let ?c = "crc_part (if hcrc16 h0 = None then None else Some (crc_text env body))"
  have si: "sint (ucast (c :: u16) :: u32) = uint c" for c
  proof -
    have "uint c < 2 ^ 16" using uint_lt2p [of c] by simp
    moreover have "- (2 ^ 31) \<le> uint c" by (rule order_trans [of _ 0]) simp_all
    ultimately show ?thesis
      by (simp add: sint_uint unsigned_ucast_eq signed_take_bit_int_eq_self take_bit_int_eq_self)
  qed
  obtain h1 where h1: "(if hcrc16 h \<noteq> None then do {
             s \<leftarrow> cstr_at (tx_buffer h) 1;
             h \<leftarrow> hupacket_append_char CRC_MARK h;
             hupacket_append_hex env (ucast (env_crc16 env s)) h } else Some h) = Some h1" "tx_holds h0 h1 (stx # body @ ?c)"
  proof (cases "hcrc16 h0")
    case None
    then show ?thesis using that h tx_holds_sel(3) [OF h] by (simp add: crc_part_def)
  next
    case (Some c)
    have "0 \<le> uint (env_crc16 env body)" "uint (env_crc16 env body) < 2 ^ 16"
      using uint_lt2p [of "env_crc16 env body"] by simp_all
    then have t: "0 \<notin> set (crc_text env body)" "length (crc_text env body) < 9"
      using it plain_no_nul by (simp_all add: itoa_ok_def crc_text_def)
    have "hupacket_append_hex env (ucast (env_crc16 env body)) = hupacket_append_str (crc_text env body)"
      using t(2) by (intro ext) (simp add: hupacket_append_hex_def crc_text_def si)
    then show ?thesis
      using that tx.put_twice [OF h, of "[CRC_MARK]" "crc_text env body"] t(1) len Some tx_holds_sel(3) [OF h]
        tx_holds_tail [OF h] by (auto simp: crc_part_def append_char_str)
  qed
  obtain h2 where h2: "hupacket_append_str [END_OF_PACKET] h1 = Some h2" "tx_holds h0 h2 (stx # body @ ?c @ [END_OF_PACKET])"
    using tx.put_law [OF h1(2), of "[END_OF_PACKET]"] len by (auto simp: crc_part_def split: if_splits)
  show ?thesis
    unfolding hupacket_send_buffer_def h1(1)
    using h2(1) tx_holds_text [OF h2(2)] tx_holds_sel(10,11) [OF h2(2)]
    by (auto simp: append_char_str split: prod.splits)
qed

section \<open>Responses, errors and overruns\<close>

text \<open>A response with status \<open>rc\<close>, the records \<open>out\<close>, and its transmission.\<close>

definition hup_respond :: "'w hup_env \<Rightarrow> int \<Rightarrow> bytes list \<Rightarrow> hup_handle \<Rightarrow> 'w \<Rightarrow> (int \<times> hup_handle \<times> 'w) option" where
  "hup_respond env rc out h w = do {
     h \<leftarrow> (if rc = 0 then hupacket_ack_response env h else hupacket_nak_response env rc h);
     h \<leftarrow> put_all hupacket_record_str out h;
     hupacket_send_buffer env h w
   }"

definition response_bytes ::
  "'w hup_env \<Rightarrow> int \<Rightarrow> bytes option \<Rightarrow> bytes \<Rightarrow> bytes option \<Rightarrow> bytes list \<Rightarrow> bool \<Rightarrow> bytes" where
  "response_bytes env rc i name s out crc =
     (let body = frame_body i name s (env_itoa env rc 10 # out)
      in (if rc = 0 then ACK_OF_RESPONSE else NAK_OF_RESPONSE) # body @
         crc_part (if crc then Some (crc_text env body) else None) @ [END_OF_PACKET])"

lemma frame_view_points: "frame_view h i name s recs c \<Longrightarrow> points h (hid h) i \<and> points h (hsequence h) s \<and>
    (hcrc16 h = None \<longleftrightarrow> c = None) \<and> argv h \<noteq> [] \<and> hstr h (argv h ! 0) = Some name"
  by (auto simp: frame_view_def points_def split: option.splits)

lemma frame_body_cons: "frame_body i name s (r # rs) = header_bytes i name s @ RECORD_MARK # r @ marked RECORD_MARK rs"
  by (simp add: frame_body_def)

lemma hup_respond_frame:
  assumes p: "points h (hid h) i" "points h (hsequence h) s" "argv h \<noteq> []" "hstr h (argv h ! 0) = Some name"
    and tx: "length (tx_buffer h) = RECV_BUFFER_SIZE" and it: "itoa_ok env" and rc: "\<bar>rc\<bar> < 2 ^ 31"
    and out: "\<forall>t\<in>set out. 0 \<notin> set t"
    and len: "length (response_bytes env rc i name s out (hcrc16 h \<noteq> None)) < RECV_BUFFER_SIZE"
  shows "\<exists>h'. hup_respond env rc out h w =
    (let r = env_send env (response_bytes env rc i name s out (hcrc16 h \<noteq> None)) w in Some (fst r, h', snd r)) \<and>
    hstate h' = hstate h \<and> response h' = response h"
proof -
  let ?stx = "if rc = 0 then ACK_OF_RESPONSE else NAK_OF_RESPONSE" and ?n = "env_itoa env rc 10"
  have l: "length (?stx # header_bytes i name s) + Suc (length ?n) + length (marked RECORD_MARK out) < RECV_BUFFER_SIZE"
    using len by (simp add: response_bytes_def Let_def frame_body_cons)
  have stx0: "?stx \<noteq> 0" by simp
  obtain h1 where h1: "hupacket_reset_buffer ?stx h = Some h1" "tx_holds h h1 (?stx # header_bytes i name s)"
    using reset_buffer_response [OF p(1,2,3,4) stx0 tx] l by auto
  obtain h2 where h2: "hupacket_record_int env rc h1 = Some h2" "tx_holds h h2 (?stx # header_bytes i name s @ RECORD_MARK # ?n)"
    using record_int_response(1) [OF h1(2) it rc] l by auto
  have st: "(if rc = 0 then hupacket_ack_response env h else hupacket_nak_response env rc h) = Some h2"
    using h1(1) h2(1) by (simp add: hupacket_ack_response_def hupacket_nak_response_def NOERROR_def split: if_splits)
  obtain h3 where h3: "put_all hupacket_record_str out h2 = Some h3"
    "tx_holds h h3 (?stx # frame_body i name s (?n # out))"
    using records_response [OF h2(2) out] l by (auto simp: frame_body_cons)
  show ?thesis
    using send_buffer_response [OF h3(2) it, of w] len st h3(1)
    by (auto simp: hup_respond_def response_bytes_def Let_def crc_part_def split: if_splits)
qed

text \<open>
  Claim C15. A response and its reading: a command that was called for a frame and answers with a
  status and records transmits exactly one response frame, with the id, name and sequence of the request
  and a CRC exactly when the request had one; and a receiver that is fed these bytes calls the response
  handler of that name with the same id, name, sequence, status text and records.
\<close>

theorem hup_response_roundtrip:
  assumes "frame_view h i name s recs c" and "length (tx_buffer h) = RECV_BUFFER_SIZE" and "itoa_ok env" and "\<bar>rc\<bar> < 2 ^ 31"
    and "frame_ok i name s (env_itoa env rc 10 # out)
          (if c \<noteq> None then Some (crc_text env (frame_body i name s (env_itoa env rc 10 # out))) else None)"
    and "length (response_bytes env rc i name s out (c \<noteq> None)) < RECV_BUFFER_SIZE" and "hup_shape g"
    and "find_cmd resps name = Some f"
  defines "bs \<equiv> response_bytes env rc i name s out (c \<noteq> None)"
  shows "(\<exists>h'. hup_respond env rc out h w = Some (fst (env_send env bs w), h', snd (env_send env bs w))) \<and>
    (\<exists>g'. frame_view g' i name s (env_itoa env rc 10 # out)
          (if c \<noteq> None then Some (crc_text env (frame_body i name s (env_itoa env rc 10 # out))) else None) \<and>
       process_hupacket env cmds resps bs g v = map_option (map_prod reset_hupacket id) (f g' v))"
proof -
  have p: "points h (hid h) i" "points h (hsequence h) s" "hcrc16 h = None \<longleftrightarrow> c = None" "argv h \<noteq> []"
    "hstr h (argv h ! 0) = Some name" using frame_view_points [OF assms(1)] by auto
  have "\<forall>t\<in>set out. 0 \<notin> set t" using assms(5) plain_no_nul by (auto simp: frame_ok_def list_all_iff)
  then have "\<exists>h'. hup_respond env rc out h w = Some (fst (env_send env bs w), h', snd (env_send env bs w))"
    using hup_respond_frame [OF p(1,2,4,5) assms(2-4), of out w] assms(6) p(3) unfolding bs_def Let_def by auto
  moreover have "is_start (if rc = 0 then ACK_OF_RESPONSE else NAK_OF_RESPONSE)"
    "(if rc = 0 then ACK_OF_RESPONSE else NAK_OF_RESPONSE) \<noteq> ENQ_OF_COMMAND"
    by (simp_all add: is_start_def hup_marks)
  note frame_dispatched [OF assms(7) this(1) assms(5), of env cmds resps v]
  ultimately show ?thesis
    using assms(8) by (auto simp: bs_def response_bytes_def Let_def is_start_def hup_marks split: if_splits)
qed

lemma hup_crc_mismatch:
  assumes sh: "hup_shape h" and ok: "frame_ok i name s recs (Some t)"
    and bad: "\<not> crc_matches env (frame_body i name s recs) (Some t)"
  defines "b \<equiv> frame_body i name s recs"
  shows "\<exists>g. process_hupacket env cmds resps (ENQ_OF_COMMAND # b @ CRC_MARK # t @ [END_OF_PACKET]) h w =
      map_option snd (hup_respond env (- ENMCRC16) [] g w) \<and>
    points g (hid g) None \<and> points g (hsequence g) None \<and> argv g \<noteq> [] \<and> hstr g (argv g ! 0) = Some b \<and>
    length (tx_buffer g) = RECV_BUFFER_SIZE \<and> hcrc16 g \<noteq> None \<and> hstate g \<noteq> HUP_STATE_NONE"
proof -
  let ?g = "completed ENQ_OF_COMMAND h i name s recs (Some t)"
  note sel = completed_sel [OF sh ok, of ENQ_OF_COMMAND]
  obtain r where buf: "buffer ?g = b @ 0 # t @ 0 # r" using sel(6) by (auto simp: b_def)
  have nt: "0 \<notin> set t" using ok plain_no_nul by (simp add: frame_ok_def)
  have nb: "0 \<notin> set b"
    using header_no_id [OF ok] ok plain_no_nul
    by (auto simp: b_def frame_body_def header_bytes_def frame_ok_def marked_def list_all_iff split: option.splits)
  have hs: "hstr ?g (Suc (length b)) = Some t" "hstr ?g 0 = Some b"
    using cstr_at_append [of t _ "b @ [0]" r] nt nb by (auto simp: hstr_def buf intro: cstr_at_prefix)
  define g where "g = ?g\<lparr>crc_match := False\<rparr>"
  have "check_crc16 env ?g w = do {
      h \<leftarrow> hupacket_nak_response env (- ENMCRC16) g; (rc, h, w) \<leftarrow> hupacket_send_buffer env h w; Some (False, h, w) }"
    using bad hs(1) sel(5,8) by (simp add: check_crc16_def buf Let_def crc_matches_def g_def b_def)
  then have "process_data env cmds resps ?g w = map_option snd (hup_respond env (- ENMCRC16) [] g w)"
    by (auto simp: process_data_def hup_respond_def ENMCRC16_def ELASTERROR_def split: Option.bind_split)
  moreover have "hstate g \<noteq> HUP_STATE_NONE"
    by (simp add: g_def completed_def Let_def received_def HUP_STATE_NONE_def)
  ultimately show ?thesis
    using receive_frame_end [OF ok _ sh, of ENQ_OF_COMMAND env cmds resps w] sel hs(2) sh
    by (intro exI [of _ g])
      (simp add: is_start_def crc_part_def b_def g_def points_def hstr_def hup_shape_def)
qed

lemma header_only: "frame_body None b None rs = b @ marked RECORD_MARK rs"
  by (simp add: frame_body_def header_bytes_def)

text \<open>
  Claim C16. A command frame whose CRC does not match calls no command: the receiver sends one NAK frame
  that repeats the request with the status \<open>-ENMCRC16\<close> appended as a record, when it fits the
  transmit buffer, and keeps its position in the frame (the handle is not reset).
\<close>

theorem hup_crc_mismatch_nak:
  assumes "hup_shape h" and "frame_ok i name s recs (Some t)" and "itoa_ok env"
    and "\<not> crc_matches env (frame_body i name s recs) (Some t)"
    and "length (response_bytes env (- ENMCRC16) None (frame_body i name s recs) None [] True) < RECV_BUFFER_SIZE"
  shows "\<exists>h'. process_hupacket env cmds resps
      (ENQ_OF_COMMAND # frame_body i name s recs @ CRC_MARK # t @ [END_OF_PACKET]) h w =
      Some (h', snd (env_send env (response_bytes env (- ENMCRC16) None (frame_body i name s recs) None [] True) w)) \<and>
    hstate h' \<noteq> HUP_STATE_NONE"
proof -
  have rc: "\<bar>- ENMCRC16\<bar> < 2 ^ 31" by (simp add: ENMCRC16_def ELASTERROR_def)
  from hup_crc_mismatch [OF assms(1,2,4), of cmds resps w] obtain g where
    g: "process_hupacket env cmds resps (ENQ_OF_COMMAND # frame_body i name s recs @ CRC_MARK # t @ [END_OF_PACKET]) h w =
        map_option snd (hup_respond env (- ENMCRC16) [] g w)"
    "points g (hid g) None" "points g (hsequence g) None" "argv g \<noteq> []" "hstr g (argv g ! 0) = Some (frame_body i name s recs)"
    "length (tx_buffer g) = RECV_BUFFER_SIZE" "hcrc16 g \<noteq> None" "hstate g \<noteq> HUP_STATE_NONE" by blast
  from hup_respond_frame [OF g(2-6) assms(3) rc, of "[]" w] g(1,7,8) assms(5) show ?thesis
    by (auto simp: Let_def)
qed

text \<open>
  When the repeated request and the status do not fit the transmit buffer, the NAK for a CRC
  mismatch is written past the end of that buffer.
\<close>

lemma hup_crc_nak_overflow:
  assumes "hup_shape h" and "frame_ok i name s recs (Some t)" and "itoa_ok env"
    and "\<not> crc_matches env (frame_body i name s recs) (Some t)"
    and "length (frame_body i name s recs) + length (env_itoa env (- ENMCRC16) 10) + 2 \<ge> RECV_BUFFER_SIZE"
  shows "process_hupacket env cmds resps
      (ENQ_OF_COMMAND # frame_body i name s recs @ CRC_MARK # t @ [END_OF_PACKET]) h w = None"
proof -
  have rc: "\<bar>- ENMCRC16\<bar> < 2 ^ 31" and nz: "- ENMCRC16 \<noteq> 0" by (simp_all add: ENMCRC16_def ELASTERROR_def)
  from hup_crc_mismatch [OF assms(1,2,4), of cmds resps w] obtain g where
    g: "process_hupacket env cmds resps (ENQ_OF_COMMAND # frame_body i name s recs @ CRC_MARK # t @ [END_OF_PACKET]) h w =
        map_option snd (hup_respond env (- ENMCRC16) [] g w)"
    "points g (hid g) None" "points g (hsequence g) None" "argv g \<noteq> []" "hstr g (argv g ! 0) = Some (frame_body i name s recs)"
    "length (tx_buffer g) = RECV_BUFFER_SIZE" by blast
  have "length (NAK_OF_RESPONSE # header_bytes None (frame_body i name s recs) None) < RECV_BUFFER_SIZE"
    using assms(2) by (simp add: frame_ok_def crc_part_def header_bytes_def)
  then obtain h1 where h1: "hupacket_reset_buffer NAK_OF_RESPONSE g = Some h1"
    "tx_holds g h1 (NAK_OF_RESPONSE # header_bytes None (frame_body i name s recs) None)"
    using reset_buffer_response [OF g(2-5) _ g(6), of NAK_OF_RESPONSE] by auto
  have "hupacket_record_int env (- ENMCRC16) h1 = None"
    using record_int_response(2) [OF h1(2) assms(3) rc] assms(5) by (simp add: header_bytes_def)
  with h1(1) nz g(1) show ?thesis
    by (simp add: hup_respond_def hupacket_nak_response_def)
qed


lemma hup_overlong:
  assumes "hup_shape h" and "is_start ch" and "list_all plain xs" and "length xs = RECV_BUFFER_SIZE"
  shows "process_hupacket env cmds resps (ch # xs) h w = Some (received (started ch h) xs [0], w)"
  using assms receive_plain [of xs "[]" "started ch h" env cmds resps "[0]" w]
  by (simp add: receive_start hup_shape_def) (simp add: started_def reset_hupacket_def)






text \<open>
  Claim C18. Two overruns of the receiver: the end byte after a text that fills the receive buffer
  exactly is stored past its end, and the 65th entry of the pointer table (the header and 64 records) is
  written past that table.
\<close>

theorem hup_overruns:
  assumes "hup_shape h" and "is_start ch" and "list_all plain xs" and "length xs = RECV_BUFFER_SIZE"
  shows "process_hupacket env cmds resps (ch # xs @ [END_OF_PACKET]) h w = None \<and>
    process_hupacket env cmds resps (ch # replicate 64 RECORD_MARK) h w = None"
proof
  let ?h = "received (started ch h) xs [0]"
  have ln: "length (buffer (started ch h)) = RECV_BUFFER_SIZE" "length (argv (started ch h)) = 64"
    using assms(1) by (simp_all add: started_def reset_hupacket_def hup_shape_def)
  have "store 0 ?h = None"
    using ln assms(4) by (simp add: store_def received_def)
  then have "hup_byte env cmds resps END_OF_PACKET ?h w = None"
    using assms(4) ln by (simp add: hup_byte_def HUP_STATE_NONE_def is_start_def hup_marks)
  then show "process_hupacket env cmds resps (ch # xs @ [END_OF_PACKET]) h w = None"
    using hup_overlong [OF assms, of env cmds resps w]
      process_hupacket_append [of env cmds resps "ch # xs" "[END_OF_PACKET]" h w] by simp
  let ?ps = "0 # record_offsets 0 (replicate 63 [])"
  have m: "marked RECORD_MARK (replicate n []) = replicate n RECORD_MARK" for n by (induction n) auto
  have "process_hupacket env cmds resps (replicate 63 RECORD_MARK) (received (started ch h) [] [0]) w =
      Some (received (started ch h) (replicate 63 RECORD_MARK) ?ps, w)"
    using receive_records [of "replicate 63 []" "[]" "started ch h" "[0]" env cmds resps w] ln
    by (simp add: m list_all_iff RECV_BUFFER_SIZE_def)
  moreover have "hup_byte env cmds resps RECORD_MARK (received (started ch h) (replicate 63 RECORD_MARK) ?ps) w = None"
    using ln by (simp add: hup_byte_def HUP_STATE_NONE_def is_start_def push_argv_def received_def wr_def) (simp add: hup_marks)
  ultimately have "process_hupacket env cmds resps (ch # (rs @ [RECORD_MARK])) h w = None"
    if "rs = replicate 63 RECORD_MARK" for rs
    using receive_start [OF assms(2,1), of env cmds resps w] unfolding that [symmetric] by (simp add: process_hupacket_append)
  moreover have "replicate 63 RECORD_MARK @ [RECORD_MARK] = replicate 64 RECORD_MARK"
    using replicate_add [of 63 1 RECORD_MARK] by simp
  ultimately show "process_hupacket env cmds resps (ch # replicate 64 RECORD_MARK) h w = None" by simp
qed


text \<open>A receiver and an environment for the witnesses: decimal and hexadecimal \<open>itoa\<close>.\<close>

fun digits_of :: "nat \<Rightarrow> nat \<Rightarrow> nat \<Rightarrow> bytes" where
  "digits_of 0 base n = []"
| "digits_of (Suc k) base n =
     (if n < base then [] else digits_of k base (n div base)) @
     [if n mod base < 10 then of_nat (48 + n mod base) else of_nat (87 + n mod base)]"

definition itoa_ex :: "int \<Rightarrow> nat \<Rightarrow> bytes" where
  "itoa_ex v base = (if v < 0 then [45] else []) @ digits_of (if base = 16 then 8 else 10) base (nat \<bar>v\<bar>)"

definition env_ex :: "bytes list hup_env" where
  "env_ex = \<lparr>env_send = (\<lambda>bs w. (int (length bs), w @ [bs])), env_crc16 = (\<lambda>bs. of_nat (length bs)), env_itoa = itoa_ex\<rparr>"

lemma hup_shape_init: "hup_shape init_hupacket"
  by (simp add: hup_shape_def init_hupacket_def reset_hupacket_def)

definition digit_char :: "u8 \<Rightarrow> bool" where
  "digit_char b \<longleftrightarrow> (48 \<le> unat b \<and> unat b \<le> 57) \<or> (97 \<le> unat b \<and> unat b \<le> 102)"

lemma plain_above: "45 \<le> unat b \<Longrightarrow> plain b"
  by (auto simp: plain_def is_start_def hup_marks)

lemma digit_char_of: "m < 16 \<Longrightarrow> digit_char (if m < 10 then of_nat (48 + m) else of_nat (87 + m))"
  by (auto simp: digit_char_def unat_of_nat simp del: of_nat_add)

lemma digit_val_of: "m < base \<Longrightarrow> base \<le> 16 \<Longrightarrow> digit_val base (if m < 10 then of_nat (48 + m) else of_nat (87 + m)) = Some m"
  by (auto simp: digit_val_def Let_def unat_of_nat simp del: of_nat_add)

lemma digits_of_chars: "0 < base \<Longrightarrow> base \<le> 16 \<Longrightarrow> list_all digit_char (digits_of k base n)"
proof (induction k arbitrary: n)
  case (Suc k)
  then have "n mod base < 16" by (meson mod_less_divisor order_less_le_trans)
  with Suc digit_char_of [OF this] show ?case by (auto simp del: of_nat_add)
qed simp

lemma digits_of_length: "length (digits_of k base n) \<le> k"
  by (induction k arbitrary: n) (auto simp: le_SucI)

lemma digits_of_nonempty: "digits_of (Suc k) base n \<noteq> []"
  by simp

lemma digits_of_value:
  "2 \<le> base \<Longrightarrow> base \<le> 16 \<Longrightarrow> n < base ^ k \<Longrightarrow> digits_val base 0 (digits_of k base n @ ys) = digits_val base n ys"
proof (induction k arbitrary: n ys)
  case (Suc k)
  have m: "n mod base < base" using Suc.prems(1) by simp
  show ?case
  proof (cases "n < base")
    case True
    then show ?thesis using digit_val_of [OF m Suc.prems(2)] by (simp del: of_nat_add)
  next
    case False
    have "n div base < base ^ k" using Suc.prems(3) by (simp add: less_mult_imp_div_less mult.commute)
    with Suc.IH [OF Suc.prems(1,2), of "n div base"] False digit_val_of [OF m Suc.prems(2)] show ?thesis
      by (simp del: of_nat_add)
  qed
qed simp

lemma strtoul_digits:
  assumes "list_all digit_char s" and "s \<noteq> []" and "digits_val 16 0 s < 2 ^ 32"
  shows "strtoul 16 s = of_nat (digits_val 16 0 s)"
proof -
  obtain c r where s: "s = c # r" using assms(2) by (cases s) auto
  have c: "\<not> is_space c" "c \<noteq> 45" "c \<noteq> 43"
    using assms(1) s by (auto simp: digit_char_def is_space_def word_le_nat_alt)
  have "strip_0x s = s"
    using assms(1) by (auto simp: strip_0x_def digit_char_def split: list.splits)
  then have "str_to_int 16 s = int (digits_val 16 0 s)"
    using c by (simp add: str_to_int_def s Let_def)
  then show ?thesis using assms(3) by (simp add: strtoul_def Let_def)
qed

lemma itoa_ex_ok: "itoa_ok env_ex"
proof -
  have p: "list_all plain (digits_of k base n)" if "0 < base" "base \<le> 16" for k base n
    using digits_of_chars [OF that, of k n] plain_above by (auto simp: list_all_iff digit_char_def)
  have "strtoul 16 (itoa_ex v 16) = word_of_int v" if v: "0 \<le> v" "v < 2 ^ 16" for v
  proof -
    have "nat v < 16 ^ 8" using v by simp
    then have "digits_val 16 0 (digits_of 8 16 (nat v)) = nat v"
      using digits_of_value [of 16 "nat v" 8 "[]"] by simp
    moreover have "digits_of 8 16 (nat v) \<noteq> []" using digits_of_nonempty [of 7 16 "nat v"] by simp
    ultimately show ?thesis
      using strtoul_digits [OF digits_of_chars [of 16 8 "nat v"]] v by (simp add: itoa_ex_def)
  qed
  moreover have "list_all plain (itoa_ex v base)" "length (itoa_ex v base) \<le> (if v < 0 then 1 else 0) + (if base = 16 then 8 else 10)"
    if "0 < base" "base \<le> 16" for v base
    using p [OF that] digits_of_length plain_above [of 45] by (simp_all add: itoa_ex_def)
  note it = this
  have "list_all plain (itoa_ex v 10)" "length (itoa_ex v 10) < 12" "list_all plain (itoa_ex v 16)"
    "0 \<le> v \<Longrightarrow> length (itoa_ex v 16) < 9" for v
    using it [of 10 v] it [of 16 v] by (auto split: if_splits)
  ultimately show ?thesis by (simp add: itoa_ok_def env_ex_def)
qed


lemma strtoul_zero: "strtoul 16 [48] = 0"
  by (simp add: strtoul_def str_to_int_def strip_0x_def is_space_def digit_val_def Let_def)

definition cmd_ex :: "bytes list hup_cmd" where
  "cmd_ex = \<lparr>cmd_name = lit ''erase'', cmd_func = (\<lambda>h w. Some (h, w @ [lit ''called'']))\<rparr>"

lemma frame_ex_ok: "frame_ok (Some (lit ''19'')) (lit ''erase'') (Some (lit ''213'')) [lit ''slot0''] None"
  "frame_ok (Some (lit ''19'')) (lit ''erase'') (Some (lit ''213'')) [itoa_ex 0 10, lit ''slot0''] None"
  "frame_ok None (lit ''erase'') None [lit ''slot0''] (Some ([48]))"
  by (code_simp, code_simp, code_simp)

theorem hup_frame_dispatch_witness:
  "\<exists>h'. frame_view h' (Some (lit ''19'')) (lit ''erase'') (Some (lit ''213'')) [lit ''slot0''] None \<and>
     process_hupacket env_ex [cmd_ex] []
       (ENQ_OF_COMMAND # frame_body (Some (lit ''19'')) (lit ''erase'') (Some (lit ''213'')) [lit ''slot0''] @ [END_OF_PACKET])
       init_hupacket [] = Some (reset_hupacket h', [lit ''called''])"
  using hup_frame_dispatch [OF hup_shape_init _ frame_ex_ok(1), of ENQ_OF_COMMAND env_ex "[cmd_ex]" "[]" "[]"]
  by (auto simp: is_start_def crc_matches_def crc_part_def cmd_ex_def)

theorem hup_response_roundtrip_witness:
  "\<exists>h h' g'. frame_view h (Some (lit ''19'')) (lit ''erase'') (Some (lit ''213'')) [lit ''slot0''] None \<and>
     hup_respond env_ex 0 [lit ''slot0''] h [] =
       Some (22, h', [response_bytes env_ex 0 (Some (lit ''19'')) (lit ''erase'') (Some (lit ''213'')) [lit ''slot0''] False]) \<and>
     frame_view g' (Some (lit ''19'')) (lit ''erase'') (Some (lit ''213'')) [itoa_ex 0 10, lit ''slot0''] None \<and>
     process_hupacket env_ex [] [cmd_ex]
       (response_bytes env_ex 0 (Some (lit ''19'')) (lit ''erase'') (Some (lit ''213'')) [lit ''slot0''] False)
       init_hupacket [] = Some (reset_hupacket g', [lit ''called''])"
proof -
  obtain h where h: "frame_view h (Some (lit ''19'')) (lit ''erase'') (Some (lit ''213'')) [lit ''slot0''] None"
    "tx_buffer h = tx_buffer init_hupacket"
    using frame_dispatched [OF hup_shape_init _ frame_ex_ok(1), of ENQ_OF_COMMAND env_ex "[cmd_ex]" "[]" "[]"]
    by (auto simp: is_start_def crc_matches_def)
  have len: "length (response_bytes env_ex 0 (Some (lit ''19'')) (lit ''erase'') (Some (lit ''213'')) [lit ''slot0''] False) = 22"
    by code_simp
  have "env_itoa env_ex 0 10 = itoa_ex 0 10" by (simp add: env_ex_def)
  then show ?thesis
    using hup_response_roundtrip [OF h(1) _ itoa_ex_ok _ _ _ hup_shape_init, of 0 "[lit ''slot0'']" "[cmd_ex]" "cmd_func cmd_ex" "[]" "[]" "[]"]
      h frame_ex_ok(2) len
    by (auto simp: init_hupacket_def reset_hupacket_def RECV_BUFFER_SIZE_def cmd_ex_def env_ex_def)
qed

theorem hup_crc_mismatch_nak_witness:
  "\<exists>h' nak. process_hupacket env_ex [cmd_ex] []
      (ENQ_OF_COMMAND # frame_body None (lit ''erase'') None [lit ''slot0''] @ CRC_MARK # [48] @ [END_OF_PACKET])
      init_hupacket [] = Some (h', [NAK_OF_RESPONSE # nak]) \<and> hstate h' \<noteq> HUP_STATE_NONE"
proof -
  have "\<not> crc_matches env_ex (frame_body None (lit ''erase'') None [lit ''slot0'']) (Some ([48]))"
    "length (response_bytes env_ex (- ENMCRC16) None (frame_body None (lit ''erase'') None [lit ''slot0'']) None [] True) < RECV_BUFFER_SIZE"
  proof -
    let ?b = "frame_body None (lit ''erase'') None [lit ''slot0'']"
    have l: "length ?b = 11" by code_simp
    with l show "\<not> crc_matches env_ex ?b (Some ([48]))"
      using l strtoul_zero by (simp add: crc_matches_def env_ex_def)
    have "\<bar>- ENMCRC16\<bar> < 2 ^ 31" by (simp add: ENMCRC16_def ELASTERROR_def)
    then have "length (env_itoa env_ex (- ENMCRC16) 10) < 12" using itoa_ex_ok unfolding itoa_ok_def by blast
    moreover have "length (crc_text env_ex bs) < 9" for bs
    proof -
      have "0 \<le> uint (env_crc16 env_ex bs)" "uint (env_crc16 env_ex bs) < 2 ^ 16"
        using uint_lt2p [of "env_crc16 env_ex bs"] by simp_all
      then show ?thesis using itoa_ex_ok unfolding itoa_ok_def crc_text_def by blast
    qed
    from this [of "frame_body None ?b None [env_itoa env_ex (- ENMCRC16) 10]"] calculation
    show "length (response_bytes env_ex (- ENMCRC16) None ?b None [] True) < RECV_BUFFER_SIZE"
      by (simp add: response_bytes_def Let_def crc_part_def frame_body_cons header_bytes_def l RECV_BUFFER_SIZE_def)
  qed
  from hup_crc_mismatch_nak [OF hup_shape_init frame_ex_ok(3) itoa_ex_ok this, of "[cmd_ex]" "[]" "[]"] show ?thesis
    by (auto simp: env_ex_def response_bytes_def Let_def ENMCRC16_def ELASTERROR_def)
qed

lemma long_name_ok: "frame_ok None (replicate 1533 65) None [] (Some [48])"
  by (simp add: frame_ok_def frame_body_def header_bytes_def marked_def crc_part_def RECV_BUFFER_SIZE_def
      list_all_iff plain_def is_start_def hup_marks)

lemma hup_crc_nak_overflow_witness:
  "process_hupacket env_ex [] [] (ENQ_OF_COMMAND # frame_body None (replicate 1533 65) None [] @ CRC_MARK # [48] @ [END_OF_PACKET])
     init_hupacket [] = None"
proof (rule hup_crc_nak_overflow [OF hup_shape_init long_name_ok itoa_ex_ok])
  show "\<not> crc_matches env_ex (frame_body None (replicate 1533 65) None []) (Some [48])"
    using strtoul_zero by (simp add: crc_matches_def env_ex_def frame_body_def header_bytes_def marked_def)
  have "env_itoa env_ex (- ENMCRC16) 10 \<noteq> []" by code_simp
  then show "length (frame_body None (replicate 1533 65) None []) + length (env_itoa env_ex (- ENMCRC16) 10) + 2 \<ge> RECV_BUFFER_SIZE"
    by (cases "env_itoa env_ex (- ENMCRC16) 10") (simp_all add: RECV_BUFFER_SIZE_def frame_body_def header_bytes_def marked_def)
qed


theorem hup_overruns_witness:
  "process_hupacket env_ex [] [] (ENQ_OF_COMMAND # replicate 1536 65 @ [END_OF_PACKET]) init_hupacket [] = None \<and>
    process_hupacket env_ex [] [] (ENQ_OF_COMMAND # replicate 64 RECORD_MARK) init_hupacket [] = None"
  by (rule hup_overruns [OF hup_shape_init])
    (simp_all add: is_start_def hup_marks list_all_iff plain_def RECV_BUFFER_SIZE_def)

end
