(* ===== verification/Huflash.thy ===== *)
theory Huflash
  imports Ascii85 Hupacket
begin

text \<open>
  The flash commands \<open>erase\<close>, \<open>wrprt\<close> and \<open>flash\<close> of \<open>src/lib/hu/huflash.c\<close>
  and the lookup of the active slot of \<open>src/lib/hu/bootloader.c\<close>. The flash map, the settings and
  the bootloader information of Zephyr are parameters over the outside world; the configuration symbols the
  sources test are fields of a record; the static \<open>last_size\<close> is a field of the world.
\<close>

section \<open>The active slot\<close>

record hu_config =
  retention_info :: bool
  output_settings :: bool
  flash_has_ex_op :: bool

text \<open>
  \<open>settings_runtime_get\<close> and \<open>blinfo_lookup\<close>: the result and the byte stored through the
  pointer, if any.
\<close>

record 'w boot_api =
  settings_runtime_get :: "'w \<Rightarrow> int \<times> u8 option"
  blinfo_lookup :: "'w \<Rightarrow> int \<times> u8 option"

definition bootloader_active_slot :: "hu_config \<Rightarrow> 'w boot_api \<Rightarrow> u8 \<Rightarrow> 'w \<Rightarrow> int \<times> u8" where
  "bootloader_active_slot cfg api slot w =
     (if retention_info cfg then
        let slot = 0xff
        in if output_settings cfg then
             (case settings_runtime_get api w of (rc, v) \<Rightarrow>
                let slot = (case v of None \<Rightarrow> slot | Some b \<Rightarrow> b)
                in if rc \<noteq> 1 then (if rc < 0 then rc else - EIO, slot) else (0, slot))
           else
             (case blinfo_lookup api w of (rc, v) \<Rightarrow>
                let slot = (case v of None \<Rightarrow> slot | Some b \<Rightarrow> b)
                in if rc < 0 then (rc, slot) else (0, slot))
      else (- ENOTSUP, slot))"

section \<open>Partitions\<close>

record fixed_partition =
  partition_name :: bytes
  part_id :: u8

record flash_area =
  fa_id :: u8
  fa_off :: int
  fa_size :: u32

record flash_world =
  last_size :: int

text \<open>The flash map: open, close, erase and write.\<close>

record 'w flash_api =
  flash_area_open :: "int \<Rightarrow> 'w \<Rightarrow> (int \<times> flash_area option) \<times> 'w"
  flash_area_close :: "flash_area \<Rightarrow> 'w \<Rightarrow> 'w"
  flash_area_erase :: "flash_area \<Rightarrow> int \<Rightarrow> u32 \<Rightarrow> 'w \<Rightarrow> int \<times> 'w"
  flash_area_write :: "flash_area \<Rightarrow> int \<Rightarrow> bytes \<Rightarrow> 'w \<Rightarrow> int \<times> 'w"

record 'w hu_env =
  hu_hup :: "'w hup_env"
  hu_cfg :: hu_config
  hu_boot :: "'w boot_api"
  hu_flash :: "'w flash_api"
  hu_parts :: "fixed_partition list"

fun get_partition_id :: "fixed_partition list \<Rightarrow> bytes \<Rightarrow> int" where
  "get_partition_id [] name = - EINVAL"
| "get_partition_id (p # ps) name = (if name = partition_name p then uint (part_id p) else get_partition_id ps name)"

definition partition_rc :: "'w hu_env \<Rightarrow> bytes \<Rightarrow> 'w \<Rightarrow> int" where
  "partition_rc env name w =
     (if retention_info (hu_cfg env) \<and> name = lit ''inactive'' then
        (case bootloader_active_slot (hu_cfg env) (hu_boot env) 0 w of (rc, slot) \<Rightarrow>
           if rc \<noteq> 0 then get_partition_id (hu_parts env) name
           else if slot = 0 then get_partition_id (hu_parts env) (lit ''slot1'')
           else if slot = 1 then get_partition_id (hu_parts env) (lit ''slot0'')
           else - EINVAL)
      else get_partition_id (hu_parts env) name)"

definition open_flash_partition :: "'w hu_env \<Rightarrow> bytes \<Rightarrow> 'w \<Rightarrow> (int \<times> flash_area option) \<times> 'w" where
  "open_flash_partition env name w =
     (let rc = partition_rc env name w
      in if rc \<noteq> 0 then ((rc, None), w) else flash_area_open (hu_flash env) rc w)"

definition close_flash_partition :: "'w hu_env \<Rightarrow> flash_area option \<Rightarrow> 'w \<Rightarrow> 'w" where
  "close_flash_partition env fa w = (case fa of None \<Rightarrow> w | Some a \<Rightarrow> flash_area_close (hu_flash env) a w)"

section \<open>Commands\<close>

definition arg_str :: "hup_handle \<Rightarrow> nat \<Rightarrow> bytes option" where
  "arg_str h i = do { p \<leftarrow> rd (argv h) i; hstr h p }"

definition set_status :: "'w hu_env \<Rightarrow> int \<Rightarrow> hup_handle \<Rightarrow> hup_handle option" where
  "set_status env rc h =
     (if rc = 0 then hupacket_ack_response (hu_hup env) h else hupacket_nak_response (hu_hup env) rc h)"

fun record_args :: "nat list \<Rightarrow> hup_handle \<Rightarrow> hup_handle option" where
  "record_args [] h = Some h"
| "record_args (i # is) h = do {
     s \<leftarrow> arg_str h i;
     h \<leftarrow> hupacket_record_str s h;
     record_args is h
   }"

definition set_done :: "'w hu_env \<Rightarrow> nat \<Rightarrow> nat \<Rightarrow> hup_handle \<Rightarrow> 'w \<Rightarrow> (hup_handle \<times> 'w) option" where
  "set_done env from_arg to_arg h w = do {
     h \<leftarrow> record_args [from_arg..<min (Suc to_arg) (argc h)] h;
     (rc, h, w) \<leftarrow> hupacket_send_buffer (hu_hup env) h w;
     Some (h, w)
   }"

text \<open>The common end of the three commands: status, close, arguments, send.\<close>

definition finish :: "'w hu_env \<Rightarrow> int \<Rightarrow> flash_area option \<Rightarrow> nat \<Rightarrow> hup_handle \<Rightarrow> 'w \<Rightarrow> (hup_handle \<times> 'w) option" where
  "finish env rc fa to_arg h w = do {
     h \<leftarrow> set_status env rc h;
     set_done env 1 to_arg h (close_flash_partition env fa w)
   }"

definition hup_wrprt :: "'a flash_world_scheme hu_env \<Rightarrow> 'a flash_world_scheme hup_fn" where
  "hup_wrprt env h w =
     (if flash_has_ex_op (hu_cfg env) then
        let w = w\<lparr>last_size := -1\<rparr>
        in if argc h \<ge> 3 then do {
             lock \<leftarrow> arg_str h 2;
             name \<leftarrow> arg_str h 1;
             (case open_flash_partition env name w of ((rc, fa), w) \<Rightarrow>
                if rc = 0 \<and> fa = None then None else finish env rc fa 2 h w)
           } else finish env (- EINVAL) None 2 h w
      else Some (h, w))"

definition hup_erase :: "'a flash_world_scheme hu_env \<Rightarrow> 'a flash_world_scheme hup_fn" where
  "hup_erase env h w =
     (let w = w\<lparr>last_size := -1\<rparr>
      in if argc h \<ge> 2 then do {
           name \<leftarrow> arg_str h 1;
           (case open_flash_partition env name w of ((rc, fa), w) \<Rightarrow>
              if rc \<noteq> 0 then finish env rc fa 1 h w
              else (case fa of None \<Rightarrow> None
                | Some a \<Rightarrow> (case flash_area_erase (hu_flash env) a 0 (fa_size a) w of (rc, w) \<Rightarrow>
                    finish env rc fa 1 h w)))
         } else finish env (- EINVAL) None 1 h w)"

definition ASCII85_ERROR_CODE_START :: int where "ASCII85_ERROR_CODE_START = 255"
definition ASCII85_MAX_CHUNK_SIZE :: int where "ASCII85_MAX_CHUNK_SIZE = 256"

text \<open>Decoding the data argument into the transmit buffer; the status of the decoder.\<close>

definition flash_decode :: "int \<Rightarrow> hup_handle \<Rightarrow> (int \<times> hup_handle) option" where
  "flash_decode sz h = do {
     p \<leftarrow> rd (argv h) 4;
     s \<leftarrow> hstr h p;
     (bin_len, tx) \<leftarrow> decode_ascii85 (drop p (buffer h)) (int (length s)) (tx_buffer h) (ASCII85_MAX_CHUNK_SIZE * 5);
     let rc = (if bin_len < 0 then - (bin_len + ASCII85_ERROR_CODE_START + EASCII85) else 0);
     let rc = (if rc = 0 \<and> bin_len \<noteq> sz then - EDESZA85 else rc);
     Some (rc, h\<lparr>tx_buffer := tx\<rparr>)
   }"

definition hup_flash :: "'a flash_world_scheme hu_env \<Rightarrow> 'a flash_world_scheme hup_fn" where
  "hup_flash env h w =
     (if argc h < 5 then finish env (- EINVAL) None 3 h w
      else do {
        name \<leftarrow> arg_str h 1;
        (case open_flash_partition env name w of ((rc, fa), w) \<Rightarrow>
           if rc \<noteq> 0 then finish env rc fa 3 h w
           else do {
             len_arg \<leftarrow> arg_str h 3;
             let sz = strtol 16 len_arg;
             if sz \<le> ASCII85_MAX_CHUNK_SIZE then finish env (- EINVAL) fa 3 h w
             else do {
               off_arg \<leftarrow> arg_str h 2;
               let offset = strtol 16 off_arg;
               (rc, h) \<leftarrow> flash_decode sz h;
               if rc \<noteq> 0 then finish env rc fa 3 h w
               else (case fa of None \<Rightarrow> None
                 | Some a \<Rightarrow>
                     if sz \<le> int (length (tx_buffer h)) then
                       (case flash_area_write (hu_flash env) a offset (take (nat sz) (tx_buffer h)) w of (rc, w) \<Rightarrow>
                          finish env rc fa 3 h
                            (if rc = 0 \<and> last_size w \<noteq> sz then w\<lparr>last_size := sz\<rparr> else w))
                     else None)
             }
           })
      })"

definition hup_flash_cmds :: "'a flash_world_scheme hu_env \<Rightarrow> 'a flash_world_scheme hup_cmd list" where
  "hup_flash_cmds env =
     [\<lparr>cmd_name = lit ''wrprt'', cmd_func = hup_wrprt env\<rparr>,
      \<lparr>cmd_name = lit ''erase'', cmd_func = hup_erase env\<rparr>,
      \<lparr>cmd_name = lit ''flash'', cmd_func = hup_flash env\<rparr>]"

section \<open>Responses of the commands\<close>

lemma strcat_length: "strcat dst src = Some b \<Longrightarrow> length b = length dst"
  by (auto simp: strcat_def wr_run_def elim!: bind_SomeE split: if_splits)

text \<open>The response routines change nothing but the bytes of the transmit buffer.\<close>

definition tx_only :: "hup_handle \<Rightarrow> hup_handle \<Rightarrow> bool" where
  "tx_only h h' \<longleftrightarrow> (\<exists>b. h' = h\<lparr>tx_buffer := b\<rparr> \<and> length b = length (tx_buffer h))"

lemma tx_only_trans: "tx_only a b \<Longrightarrow> tx_only b c \<Longrightarrow> tx_only a c"
  by (auto simp: tx_only_def)

lemma tx_only_args: "tx_only h h' \<Longrightarrow> arg_str h' i = arg_str h i" "tx_only h h' \<Longrightarrow> argc h' = argc h"
  by (auto simp: tx_only_def arg_str_def hstr_def)

lemma append_str_tx: "hupacket_append_str s h = Some h' \<Longrightarrow> tx_only h h'"
  by (auto simp: hupacket_append_str_def tx_only_def dest: strcat_length)

lemma tx_only_refl [simp]: "tx_only h h"
  by (cases h) (auto simp: tx_only_def)

lemma append_char_tx: "hupacket_append_char c h = Some h' \<Longrightarrow> tx_only h h'"
  by (auto simp: hupacket_append_char_def append_str_tx split: if_splits)

lemma append_int_tx: "hupacket_append_int env v h = Some h' \<Longrightarrow> tx_only h h'"
  by (auto simp: hupacket_append_int_def Let_def append_str_tx split: if_splits)

lemma record_str_tx: "hupacket_record_str s h = Some h' \<Longrightarrow> tx_only h h'"
  by (auto simp: hupacket_record_str_def elim!: bind_SomeE intro: tx_only_trans append_str_tx append_char_tx)

lemma record_int_tx: "hupacket_record_int env v h = Some h' \<Longrightarrow> tx_only h h'"
  by (auto simp: hupacket_record_int_def elim!: bind_SomeE intro: tx_only_trans append_int_tx append_char_tx)

lemma reset_buffer_tx: "hupacket_reset_buffer stx h = Some h' \<Longrightarrow> tx_only h h'"
proof -
  have "tx_only h (h\<lparr>tx_buffer := b\<rparr>)" if "wr (tx_buffer h) 0 0 = Some b" for b
    using that by (auto simp: tx_only_def wr_def split: if_splits)
  then show "hupacket_reset_buffer stx h = Some h' \<Longrightarrow> tx_only h h'"
    unfolding hupacket_reset_buffer_def
    by (auto elim!: bind_SomeE split: option.splits intro: tx_only_trans append_str_tx append_char_tx)
      (meson tx_only_trans append_str_tx append_char_tx)+
qed

lemma set_status_tx: "set_status env rc h = Some h' \<Longrightarrow> tx_only h h'"
  by (auto simp: set_status_def hupacket_ack_response_def hupacket_nak_response_def elim!: bind_SomeE
    split: if_splits intro: tx_only_trans reset_buffer_tx record_int_tx)

lemma record_args_put_all:
  "\<forall>i\<in>set is. arg_str h i = Some (f i) \<Longrightarrow> record_args is h = put_all hupacket_record_str (map f is) h"
proof (induction "is" arbitrary: h)
  case (Cons i "is")
  then show ?case
    using tx_only_args(1) [OF record_str_tx] by (cases "hupacket_record_str (f i) h") auto
qed simp

lemma frame_view_args: "frame_view h i name s recs c \<Longrightarrow> k < length recs \<Longrightarrow> length recs < 64 \<Longrightarrow> arg_str h (Suc k) = Some (recs ! k)"
  by (simp add: frame_view_def arg_str_def)

text \<open>The end of a command is one response with the leading records of the request.\<close>

lemma finish_respond:
  assumes v: "frame_view h i name s recs c" and l: "length recs < 64"
  shows "finish env rc fa k h w =
    map_option snd (hup_respond (hu_hup env) rc (take k recs) h (close_flash_partition env fa w))"
proof -
  let ?w = "close_flash_partition env fa w"
  have ac: "argc h = Suc (length recs)" using v by (simp add: frame_view_def)
  have m: "map (\<lambda>i. recs ! (i - 1)) [1..<min (Suc k) (Suc (length recs))] = take k recs"
    by (rule nth_equalityI) (auto simp del: upt_Suc)
  have ra: "record_args [1..<min (Suc k) (argc h1)] h1 = put_all hupacket_record_str (take k recs) h1"
    if "set_status env rc h = Some h1" for h1
  proof -
    have "arg_str h1 j = Some (recs ! (j - 1))" if jin: "j \<in> set [1..<min (Suc k) (Suc (length recs))]" for j
    proof -
      have "1 \<le> j \<and> j \<le> length recs" using jin unfolding set_upt by auto
      then obtain n where "j = Suc n" "n < length recs" by (cases j) auto
      then show ?thesis
        using tx_only_args(1) [OF set_status_tx [OF \<open>set_status env rc h = Some h1\<close>]] frame_view_args [OF v _ l, of n] by simp
    qed
    then show ?thesis
      using record_args_put_all [of "[1..<min (Suc k) (Suc (length recs))]" h1 "\<lambda>i. recs ! (i - 1)"]
        tx_only_args(2) [OF set_status_tx [OF that]] ac m by simp
  qed
  show ?thesis
  proof (cases "set_status env rc h")
    case None
    then show ?thesis by (simp add: finish_def hup_respond_def set_status_def split: if_splits)
  next
    case (Some h1)
    moreover from this have "(if rc = 0 then hupacket_ack_response (hu_hup env) h else hupacket_nak_response (hu_hup env) rc h) = Some h1"
      by (simp add: set_status_def)
    ultimately show ?thesis
      using ra [OF Some]
      by (auto simp: finish_def hup_respond_def set_done_def split: Option.bind_split)
  qed
qed

text \<open>With room for the response, what is sent and the world after it.\<close>

definition response_fits :: "'w hu_env \<Rightarrow> int \<Rightarrow> bytes option \<Rightarrow> bytes \<Rightarrow> bytes option \<Rightarrow> bytes list \<Rightarrow> bool \<Rightarrow> bool" where
  "response_fits env rc i name s out crc \<longleftrightarrow>
     length (response_bytes (hu_hup env) rc i name s out crc) < RECV_BUFFER_SIZE"

lemma finish_sends:
  assumes v: "frame_view h i name s recs c" and l: "length recs < 64" and tx: "length (tx_buffer h) = RECV_BUFFER_SIZE"
    and it: "itoa_ok (hu_hup env)" and rc: "\<bar>rc\<bar> < 2 ^ 31" and fit: "response_fits env rc i name s (take k recs) (c \<noteq> None)"
  shows "\<exists>h'. finish env rc fa k h w = Some (h', snd (env_send (hu_hup env)
      (response_bytes (hu_hup env) rc i name s (take k recs) (c \<noteq> None)) (close_flash_partition env fa w)))"
proof -
  have p: "points h (hid h) i" "points h (hsequence h) s" "hcrc16 h = None \<longleftrightarrow> c = None" "argv h \<noteq> []"
    "hstr h (argv h ! 0) = Some name" using frame_view_points [OF v] by auto
  have "0 \<notin> set t" if t: "t \<in> set recs" for t
  proof -
    obtain k where "k < length recs" "t = recs ! k" using t by (auto simp: in_set_conv_nth)
    then show ?thesis using v cstr_at_no_nul by (auto simp: frame_view_def hstr_def)
  qed
  then have "\<forall>t\<in>set (take k recs). 0 \<notin> set t" by (auto dest: in_set_takeD)
  from hup_respond_frame [OF p(1,2,4,5) tx it rc this, of "close_flash_partition env fa w"] fit p(3)
  show ?thesis unfolding finish_respond [OF v l] response_fits_def Let_def by auto
qed


section \<open>Properties\<close>

text \<open>
  \<open>open_flash_partition\<close> treats every non-zero result of the name lookup as an error, so
  a partition whose id is not 0 is never opened: its id is returned as the status, the flash map is not
  asked, and \<open>erase\<close> of it answers a NAK with the id and leaves the flash as it is.
\<close>

lemma flash_nonzero_id_refused:
  assumes "frame_view h i name s [part] c" and "length (tx_buffer h) = RECV_BUFFER_SIZE" and "itoa_ok (hu_hup env)"
    and "partition_rc env part (w\<lparr>last_size := -1\<rparr>) = n" and "n \<noteq> 0" and "\<bar>n\<bar> < 2 ^ 31"
    and "response_fits env n i name s [part] (c \<noteq> None)"
  shows "open_flash_partition env part (w\<lparr>last_size := -1\<rparr>) = ((n, None), w\<lparr>last_size := -1\<rparr>) \<and>
    (\<exists>h'. hup_erase env h w = Some (h', snd (env_send (hu_hup env)
      (response_bytes (hu_hup env) n i name s [part] (c \<noteq> None)) (w\<lparr>last_size := -1\<rparr>))))"
proof -
  have op: "open_flash_partition env part (w\<lparr>last_size := -1\<rparr>) = ((n, None), w\<lparr>last_size := -1\<rparr>)"
    using assms(4,5) by (simp add: open_flash_partition_def Let_def)
  have a: "argc h = 2" "arg_str h 1 = Some part"
    using assms(1) frame_view_args [OF assms(1), of 0] by (simp_all add: frame_view_def)
  have "\<exists>h'. finish env n None 1 h (w\<lparr>last_size := -1\<rparr>) = Some (h', snd (env_send (hu_hup env)
      (response_bytes (hu_hup env) n i name s [part] (c \<noteq> None)) (w\<lparr>last_size := -1\<rparr>)))"
    using finish_sends [OF assms(1) _ assms(2,3,6), where fa = None and k = 1] assms(7) by (simp add: close_flash_partition_def)
  with op a assms(5) show ?thesis by (simp add: hup_erase_def Let_def)
qed

lemma hstr_take: "hstr h p = Some d \<Longrightarrow> take (length d) (drop p (buffer h)) = d \<and> length d < length (drop p (buffer h))"
  unfolding hstr_def by (erule cstr_at_split) (metis append_eq_conv_conj length_append less_add_same_cancel1 list.size(4) zero_less_Suc add_Suc_right)

lemma flash_decode_range:
  assumes p: "rd (argv h) 4 = Some p" and d: "hstr h p = Some d" and tx: "length (tx_buffer h) = RECV_BUFFER_SIZE" and sz: "0 < sz"
  shows "\<exists>rc tx. flash_decode sz h = Some (rc, h\<lparr>tx_buffer := tx\<rparr>) \<and> length tx = RECV_BUFFER_SIZE \<and>
    rc \<in> {0, - EDESZA85, - EASCII85, - (EASCII85 + 1), - (EASCII85 + 2), - (EASCII85 + 3)} \<and>
    (rc = 0 \<longrightarrow> (\<exists>bs. a85_decode d = Inr bs \<and> int (length bs) = sz \<and> take (nat sz) tx = bs \<and> 4 * length d \<le> 1280))"
proof -
  let ?inp = "drop p (buffer h)" and ?n = "int (length d)"
  have le: "?n \<le> int (length ?inp)" "1280 \<le> int (length (tx_buffer h))"
    using hstr_take [OF d] tx by (simp_all add: RECV_BUFFER_SIZE_def)
  obtain bl tx' where r: "decode_ascii85 ?inp ?n (tx_buffer h) 1280 = Some (bl, tx')" "length tx' = length (tx_buffer h)"
    "bl \<in> {ascii85_err_in_buf_too_large, ascii85_err_out_buf_too_small,
               ascii85_err_bad_decode_char, ascii85_err_decode_overflow} \<or> 0 \<le> bl"
    using decode_ascii85_range [OF le] by auto
  define rc where "rc = (if bl < 0 then - (bl + ASCII85_ERROR_CODE_START + EASCII85) else if bl \<noteq> sz then - EDESZA85 else 0)"
  have "flash_decode sz h = Some (rc, h\<lparr>tx_buffer := tx'\<rparr>)"
    using p d r(1,3) by (auto simp: flash_decode_def ASCII85_MAX_CHUNK_SIZE_def rc_def Let_def ASCII85_ERROR_CODE_START_def
        EASCII85_def ELASTERROR_def EDESZA85_def ascii85_err_in_buf_too_large_def ascii85_err_out_buf_too_small_def
        ascii85_err_bad_decode_char_def ascii85_err_decode_overflow_def)
  moreover have "\<exists>bs. a85_decode d = Inr bs \<and> int (length bs) = sz \<and> take (nat sz) tx' = bs \<and> 4 * length d \<le> 1280" if "rc = 0"
  proof -
    have bl: "bl = sz" using that r(3) by (auto simp: rc_def ASCII85_ERROR_CODE_START_def EASCII85_def ELASTERROR_def
        EDESZA85_def ascii85_err_in_buf_too_large_def ascii85_err_out_buf_too_small_def ascii85_err_bad_decode_char_def
        ascii85_err_decode_overflow_def split: if_splits)
    then have mx: "0 \<le> ascii85_get_max_decoded_length ?n \<and> ascii85_get_max_decoded_length ?n \<le> 1280"
      using r(1) sz by (auto simp: decode_ascii85_def Let_def ascii85_err_out_buf_too_small_def split: if_splits)
    then have n: "?n \<le> ascii85_in_length_max" "4 * length d \<le> 1280"
      by (auto simp: ascii85_get_max_decoded_length_def ascii85_err_in_buf_too_large_def split: if_splits)
    from decode_ascii85_ok [OF _ n(1) le(1) _ le(2)] mx have "decodes_to (Some (bl, tx')) 0 (tx_buffer h) (a85_decode d)"
      using r(1) hstr_take [OF d] by simp
    then show ?thesis
      using bl sz n(2) a85_decode_errors [of d]
      by (cases "a85_decode d") (auto simp: decodes_to_iff ascii85_err_bad_decode_char_def ascii85_err_decode_overflow_def)
  qed
  moreover have "rc \<in> {0, - EDESZA85, - EASCII85, - (EASCII85 + 1), - (EASCII85 + 2), - (EASCII85 + 3)}"
    using r(3) by (auto simp: rc_def ASCII85_ERROR_CODE_START_def ascii85_err_in_buf_too_large_def
        ascii85_err_out_buf_too_small_def ascii85_err_bad_decode_char_def ascii85_err_decode_overflow_def)
  ultimately show ?thesis using r(2) tx by auto
qed

text \<open>
  Decoding the data of a \<open>flash\<close> command stays in its buffers and returns, and its
  status is 0 only when the data is valid Ascii85 for exactly the announced number of bytes, which then lie
  at the start of the transmit buffer; otherwise it is \<open>-EDESZA85\<close> or one of the four codes reserved
  for the decoder.
\<close>

lemma flash_decode_status:
  assumes "rd (argv h) 4 = Some p" and "hstr h p = Some d" and "length (tx_buffer h) = RECV_BUFFER_SIZE" and "0 < sz"
  shows "\<exists>rc tx. flash_decode sz h = Some (rc, h\<lparr>tx_buffer := tx\<rparr>) \<and> length tx = RECV_BUFFER_SIZE \<and>
    rc \<in> {0, - EDESZA85, - EASCII85, - (EASCII85 + 1), - (EASCII85 + 2), - (EASCII85 + 3)} \<and>
    (rc = 0 \<longrightarrow> (\<exists>bs. a85_decode d = Inr bs \<and> int (length bs) = sz \<and> take (nat sz) tx = bs))"
  using flash_decode_range [OF assms] by blast

lemma finish_write_irrelevant:
  "finish (env\<lparr>hu_flash := (hu_flash env)\<lparr>flash_area_write := f\<rparr>\<rparr>) rc fa k h w = finish env rc fa k h w"
proof -
  have "record_args is h = record_args is h" for "is" h by (rule refl)
  then show ?thesis
    by (simp add: finish_def set_status_def set_done_def close_flash_partition_def split: option.splits)
qed

lemma open_write_irrelevant:
  "open_flash_partition (env\<lparr>hu_flash := (hu_flash env)\<lparr>flash_area_write := f\<rparr>\<rparr>) name w = open_flash_partition env name w"
  by (simp add: open_flash_partition_def partition_rc_def Let_def split_beta)

text \<open>
  The \<open>flash\<close> command accepts only sizes above 256 while its decoder accepts at most 320
  characters, so unless the data contains the zero-group letter \<open>z\<close> it never writes: what the flash
  write would do is irrelevant to the result.
\<close>

lemma flash_never_writes_without_z:
  assumes "rd (argv h) 4 = Some p" and "hstr h p = Some d" and "length (tx_buffer h) = RECV_BUFFER_SIZE"
    and "122 \<notin> set d"
  shows "hup_flash env h w = hup_flash (env\<lparr>hu_flash := (hu_flash env)\<lparr>flash_area_write := f\<rparr>\<rparr>) h w"
proof -
  have "rc \<noteq> 0" if sz: "\<not> sz \<le> ASCII85_MAX_CHUNK_SIZE" and fd: "flash_decode sz h = Some (rc, h')" for sz rc h'
  proof
    assume "rc = 0"
    with flash_decode_range [OF assms(1-3), of sz] sz fd obtain bs where
      "a85_decode d = Inr bs" "int (length bs) = sz" "4 * length d \<le> 1280"
      by (auto simp: ASCII85_MAX_CHUNK_SIZE_def)
    with a85_decode_length_no_z [of d bs] assms(4) sz show False by (simp add: ASCII85_MAX_CHUNK_SIZE_def)
  qed
  then show ?thesis
    unfolding hup_flash_def finish_write_irrelevant open_write_irrelevant
    by (auto simp: Let_def split: prod.splits intro!: Option.bind_cong)
qed

text \<open>An environment for the witnesses, whose world logs the frames sent and the flash calls.\<close>

record flash_log = flash_world +
  log_sent :: "bytes list"
  log_ops :: "string list"

definition hu_env_ex :: "flash_log hu_env" where
  "hu_env_ex =
     \<lparr>hu_hup = \<lparr>env_send = (\<lambda>bs w. (0, w\<lparr>log_sent := log_sent w @ [bs]\<rparr>)), env_crc16 = (\<lambda>bs. of_nat (length bs)),
                env_itoa = itoa_ex\<rparr>,
      hu_cfg = \<lparr>retention_info = True, output_settings = False, flash_has_ex_op = True\<rparr>,
      hu_boot = \<lparr>settings_runtime_get = (\<lambda>w. (1, Some 0)), blinfo_lookup = (\<lambda>w. (1, Some 0))\<rparr>,
      hu_flash = \<lparr>flash_area_open = (\<lambda>n w. ((0, Some \<lparr>fa_id = word_of_int n, fa_off = 0x20000, fa_size = 0x80000\<rparr>), w)),
                  flash_area_close = (\<lambda>a w. w\<lparr>log_ops := log_ops w @ [''close'']\<rparr>),
                  flash_area_erase = (\<lambda>a off n w. (0, w\<lparr>log_ops := log_ops w @ [''erase'']\<rparr>)),
                  flash_area_write = (\<lambda>a off bs w. (0, w\<lparr>log_ops := log_ops w @ [''write'']\<rparr>))\<rparr>,
      hu_parts = [\<lparr>partition_name = lit ''slot0'', part_id = 0\<rparr>, \<lparr>partition_name = lit ''slot1'', part_id = 1\<rparr>]\<rparr>"

definition flash_world_ex :: flash_log where
  "flash_world_ex = \<lparr>last_size = -1, log_sent = [], log_ops = []\<rparr>"

lemma hu_env_itoa: "itoa_ok (hu_hup hu_env_ex)"
  using itoa_ex_ok by (simp add: itoa_ok_def hu_env_ex_def env_ex_def)

lemma erase_frame_ok: "frame_ok None (lit ''erase'') None [lit ''slot0''] None" "frame_ok None (lit ''erase'') None [lit ''inactive''] None"
  by (code_simp, code_simp)

lemma handle_for_frame:
  assumes "frame_ok i name s recs None"
  obtains h where "frame_view h i name s recs None" and "length (tx_buffer h) = RECV_BUFFER_SIZE"
proof -
  have "length (tx_buffer init_hupacket) = RECV_BUFFER_SIZE" using hup_shape_init by (simp add: hup_shape_def)
  then show ?thesis
    using that frame_dispatched [OF hup_shape_init _ assms, of ENQ_OF_COMMAND env_ex "[]" "[]" "[]"]
    by (auto simp: is_start_def crc_matches_def)
qed

lemma flash_nonzero_id_refused_witness:
  "\<exists>h h'. frame_view h None (lit ''erase'') None [lit ''inactive''] None \<and>
     open_flash_partition hu_env_ex (lit ''inactive'') flash_world_ex = ((1, None), flash_world_ex) \<and>
     hup_erase hu_env_ex h flash_world_ex = Some (h', flash_world_ex\<lparr>log_sent :=
       [response_bytes (hu_hup hu_env_ex) 1 None (lit ''erase'') None [lit ''inactive''] False]\<rparr>)"
proof -
  obtain h where h: "frame_view h None (lit ''erase'') None [lit ''inactive''] None" "length (tx_buffer h) = RECV_BUFFER_SIZE"
    by (rule handle_for_frame [OF erase_frame_ok(2)])
  have rc: "partition_rc hu_env_ex (lit ''inactive'') (flash_world_ex\<lparr>last_size := -1\<rparr>) = 1"
    unfolding hu_env_ex_def flash_world_ex_def by code_simp
  have fit: "response_fits hu_env_ex 1 None (lit ''erase'') None [lit ''inactive''] (None \<noteq> (None :: bytes option))"
    unfolding hu_env_ex_def by code_simp
  from flash_nonzero_id_refused [OF h hu_env_itoa rc _ _ fit] h(1) show ?thesis
    by (auto simp: flash_world_ex_def hu_env_ex_def)
qed

text \<open>A handle whose data argument is the text \<open>87cUR\<close>, the Ascii85 code of ``Hell''.\<close>

definition h_data :: hup_handle where
  "h_data = init_hupacket\<lparr>argc := 5, buffer := lit ''87cUR'' @ 0 # replicate 1530 0\<rparr>"

lemma h_data_arg: "rd (argv h_data) 4 = Some 0" "hstr h_data 0 = Some (lit ''87cUR'')" "length (tx_buffer h_data) = RECV_BUFFER_SIZE"
  by (simp_all add: h_data_def init_hupacket_def reset_hupacket_def hstr_def cstr_at_prefix lit_def)

lemma flash_decode_status_witness:
  "\<exists>rc tx. flash_decode 5 h_data = Some (rc, h_data\<lparr>tx_buffer := tx\<rparr>) \<and> length tx = RECV_BUFFER_SIZE \<and>
    rc \<in> {0, - EDESZA85, - EASCII85, - (EASCII85 + 1), - (EASCII85 + 2), - (EASCII85 + 3)}"
  using flash_decode_status [OF h_data_arg, of 5] by auto

lemma flash_never_writes_without_z_witness:
  "hup_flash hu_env_ex h_data flash_world_ex =
   hup_flash (hu_env_ex\<lparr>hu_flash := (hu_flash hu_env_ex)\<lparr>flash_area_write := (\<lambda>a off bs w. (- EIO, w))\<rparr>\<rparr>) h_data flash_world_ex"
  by (rule flash_never_writes_without_z [OF h_data_arg]) (simp add: lit_def)

end
