(* ===== verification/Mp_Thread.thy ===== *)
theory Mp_Thread
  imports Sdkz_Prelude
begin

text \<open>
  Python threads on the Zephyr kernel, after \<open>app/micropython/mpthreadport.c\<close> and the
  soft reset of \<open>app/micropython/main.c\<close>.  A thread is a node of the list
  \<open>thread\<close>; a user thread runs on one of four static stacks, whose use the flags
  \<open>stack_slot\<close> record, and its node leaves the list in \<open>mp_thread_gc_others\<close>
  once it is finished and the kernel does not list it any more.

  The kernel is a parameter: a record of the calls the port uses over a kernel state of any type.
  \<open>kernel_ok\<close> names what its documentation promises.  A node is identified by the
  address of its embedded thread object, which is also the kernel's thread id.  Each operation
  runs under \<open>thread_mutex\<close>; the step relation at the end interleaves the operations
  of different threads with threads leaving the kernel, also in the middle of a collection.
\<close>

section \<open>Data\<close>

type_synonym tid = u32

datatype mp_thread_status = MP_THREAD_STATUS_CREATED | MP_THREAD_STATUS_READY | MP_THREAD_STATUS_FINISHED

definition MP_THREAD_MAXIMUM_USER_THREADS :: nat where "MP_THREAD_MAXIMUM_USER_THREADS = 4"

record mp_thread =
  th_id :: tid
  th_status :: mp_thread_status
  th_alive :: bool
  th_slot :: nat
  th_arg :: u32
  th_stack :: u32
  th_stack_len :: nat

text \<open>
  The static variables.  \<open>thread\<close> is the list (empty for a null pointer), and
  \<open>thread_mutex\<close> the count of its binary semaphore.
\<close>

record mp_threads =
  thread_mutex :: nat
  thread :: "mp_thread list"
  mp_thread_counter :: u8
  stack_slot :: "bool list"

definition mp_thread_static :: mp_threads where
  "mp_thread_static = \<lparr>thread_mutex = 0, thread = [], mp_thread_counter = 0,
     stack_slot = replicate MP_THREAD_MAXIMUM_USER_THREADS False\<rparr>"

text \<open>
  The kernel: the threads it lists, the stack slot a thread runs on (none for other threads),
  creation on a slot in a given thread object, abortion, naming, a word of data per thread, and the
  start and size of the stacks.
\<close>

record 'k kernel =
  k_list :: "'k \<Rightarrow> tid list"
  k_slot :: "'k \<Rightarrow> tid \<Rightarrow> nat option"
  k_create :: "nat \<Rightarrow> tid \<Rightarrow> u32 \<Rightarrow> u32 \<Rightarrow> int \<Rightarrow> 'k \<Rightarrow> 'k"
  k_abort :: "tid \<Rightarrow> 'k \<Rightarrow> 'k"
  k_name :: "tid \<Rightarrow> string \<Rightarrow> 'k \<Rightarrow> 'k"
  k_data :: "'k \<Rightarrow> tid \<Rightarrow> u32"
  k_set_data :: "tid \<Rightarrow> u32 \<Rightarrow> 'k \<Rightarrow> 'k"
  k_stack :: "nat \<Rightarrow> u32"
  k_stack_size :: "nat \<Rightarrow> nat"

definition k_runs :: "'k kernel \<Rightarrow> 'k \<Rightarrow> tid \<Rightarrow> nat \<Rightarrow> bool" where
  "k_runs K k t i \<longleftrightarrow> t \<in> set (k_list K k) \<and> k_slot K k t = Some i"

definition kernel_ok :: "'k kernel \<Rightarrow> bool" where
  "kernel_ok K \<longleftrightarrow>
     (\<forall>k i t e a p. set (k_list K (k_create K i t e a p k)) = insert t (set (k_list K k)) \<and>
        k_slot K (k_create K i t e a p k) = (k_slot K k)(t := Some i)) \<and>
     (\<forall>k t. set (k_list K (k_abort K t k)) = set (k_list K k) - {t} \<and>
        (\<forall>t'. t' \<noteq> t \<longrightarrow> k_slot K (k_abort K t k) t' = k_slot K k t')) \<and>
     (\<forall>k t n. set (k_list K (k_name K t n k)) = set (k_list K k) \<and>
        k_slot K (k_name K t n k) = k_slot K k) \<and>
     (\<forall>k t d. set (k_list K (k_set_data K t d k)) = set (k_list K k) \<and>
        k_slot K (k_set_data K t d k) = k_slot K k)"

section \<open>The mutex\<close>

text \<open>A binary semaphore.  Taking it without waiting tells whether it was free; waiting for a
  taken one blocks, which is \<open>None\<close>.\<close>

definition mp_thread_mutex_init :: nat where "mp_thread_mutex_init = min 1 (0 + 1)"

definition mp_thread_mutex_lock :: "bool \<Rightarrow> nat \<Rightarrow> (bool \<times> nat) option" where
  "mp_thread_mutex_lock wait m =
     (if m > 0 then Some (True, m - 1) else if wait then None else Some (False, m))"

definition mp_thread_mutex_unlock :: "nat \<Rightarrow> nat" where "mp_thread_mutex_unlock m = min 1 (m + 1)"

definition lock :: "mp_threads \<Rightarrow> mp_threads option" where
  "lock s = map_option (\<lambda>(r, m). s\<lparr>thread_mutex := m\<rparr>) (mp_thread_mutex_lock True (thread_mutex s))"

definition unlock :: "mp_threads \<Rightarrow> mp_threads" where
  "unlock s = s\<lparr>thread_mutex := mp_thread_mutex_unlock (thread_mutex s)\<rparr>"

section \<open>Operations\<close>

text \<open>The interpreter's state of a thread is the kernel's word of data for it.\<close>

definition mp_thread_get_state :: "'k kernel \<Rightarrow> tid \<Rightarrow> 'k \<Rightarrow> u32" where
  "mp_thread_get_state K cur k = k_data K k cur"

definition mp_thread_set_state :: "'k kernel \<Rightarrow> tid \<Rightarrow> u32 \<Rightarrow> 'k \<Rightarrow> 'k" where
  "mp_thread_set_state K cur state k = k_set_data K cur state k"

definition mp_thread_get_id :: "tid \<Rightarrow> u32" where
  "mp_thread_get_id cur = cur"

text \<open>The first entry; its slot field is static storage and never assigned.  \<open>main_state\<close> is
  the address of the first thread's state.\<close>

definition mp_thread_init ::
  "'k kernel \<Rightarrow> tid \<Rightarrow> u32 \<Rightarrow> u32 \<Rightarrow> nat \<Rightarrow> mp_threads \<Rightarrow> 'k \<Rightarrow> mp_threads \<times> 'k" where
  "mp_thread_init K cur main_state stack stack_len s k =
     (let k = mp_thread_set_state K cur main_state k;
          thread_entry0 = \<lparr>th_id = cur, th_status = MP_THREAD_STATUS_READY, th_alive = True, th_slot = 0,
            th_arg = 0, th_stack = stack, th_stack_len = stack_len\<rparr>;
          k = k_name K cur ''mp_main'' k;
          s = s\<lparr>mp_thread_counter := 0\<rparr>;
          s = s\<lparr>thread_mutex := mp_thread_mutex_init\<rparr>
      in (s\<lparr>thread := [thread_entry0]\<rparr>, k))"

definition mp_thread_iterate_threads_cb :: "tid \<Rightarrow> mp_thread list \<Rightarrow> mp_thread list" where
  "mp_thread_iterate_threads_cb t =
     map (\<lambda>th. if th_id th = t then th\<lparr>th_alive := True\<rparr> else th)"

definition k_thread_foreach :: "'k kernel \<Rightarrow> 'k \<Rightarrow> mp_thread list \<Rightarrow> mp_thread list" where
  "k_thread_foreach K k ths = fold mp_thread_iterate_threads_cb (k_list K k) ths"

text \<open>The sweep over the list, with the flags and the counter.\<close>

fun gc_sweep :: "mp_thread list \<Rightarrow> bool list \<Rightarrow> u8 \<Rightarrow> (mp_thread list \<times> bool list \<times> u8) option" where
  "gc_sweep [] slots n = Some ([], slots, n)"
| "gc_sweep (th # ths) slots n =
     (if th_status th = MP_THREAD_STATUS_FINISHED \<and> \<not> th_alive th then do {
        slots \<leftarrow> wr slots (th_slot th) False;
        gc_sweep ths slots (n - 1)
      } else do {
        (ths, slots, n) \<leftarrow> gc_sweep ths slots n;
        Some (th\<lparr>th_alive := False\<rparr> # ths, slots, n)
      })"

text \<open>What the collector is given as roots: the nodes, their arguments and the stacks of the
  other ready threads.\<close>

datatype gc_root = Root_node tid | Root_arg u32 | Root_stack u32 nat

fun gc_roots :: "tid \<Rightarrow> mp_thread list \<Rightarrow> gc_root list" where
  "gc_roots cur [] = []"
| "gc_roots cur (th # ths) =
     Root_node (th_id th) # Root_arg (th_arg th) #
     (if th_id th = cur then gc_roots cur ths
      else if th_status th \<noteq> MP_THREAD_STATUS_READY then gc_roots cur ths
      else Root_stack (th_stack th) (th_stack_len th) # gc_roots cur ths)"

text \<open>The two halves of a collection, between which other threads may leave the kernel.\<close>

definition gc_mark :: "'k kernel \<Rightarrow> mp_threads \<Rightarrow> 'k \<Rightarrow> mp_threads option" where
  "gc_mark K s k = do {
     s \<leftarrow> lock s;
     Some (s\<lparr>thread := k_thread_foreach K k (thread s)\<rparr>)
   }"

definition gc_finish :: "tid \<Rightarrow> mp_threads \<Rightarrow> (gc_root list \<times> mp_threads) option" where
  "gc_finish cur s = do {
     (ths, slots, n) \<leftarrow> gc_sweep (thread s) (stack_slot s) (mp_thread_counter s);
     Some (gc_roots cur ths, unlock (s\<lparr>thread := ths, stack_slot := slots, mp_thread_counter := n\<rparr>))
   }"

definition mp_thread_gc_others :: "'k kernel \<Rightarrow> tid \<Rightarrow> mp_threads \<Rightarrow> 'k \<Rightarrow> (gc_root list \<times> mp_threads) option" where
  "mp_thread_gc_others K cur s k =
     (if thread s = [] then Some ([], s)
      else do { s \<leftarrow> gc_mark K s k; gc_finish cur s })"

text \<open>Setting the status of the caller's node: the first match in the list.\<close>

fun set_own_status :: "tid \<Rightarrow> mp_thread_status \<Rightarrow> mp_thread list \<Rightarrow> mp_thread list" where
  "set_own_status cur st [] = []"
| "set_own_status cur st (th # ths) =
     (if th_id th = cur then th\<lparr>th_status := st\<rparr> # ths else th # set_own_status cur st ths)"

definition mp_thread_start :: "tid \<Rightarrow> mp_threads \<Rightarrow> mp_threads option" where
  "mp_thread_start cur s = do {
     s \<leftarrow> lock s;
     Some (unlock (s\<lparr>thread := set_own_status cur MP_THREAD_STATUS_READY (thread s)\<rparr>))
   }"

definition mp_thread_finish :: "tid \<Rightarrow> mp_threads \<Rightarrow> mp_threads option" where
  "mp_thread_finish cur s = do {
     s \<leftarrow> lock s;
     Some (unlock (s\<lparr>thread := set_own_status cur MP_THREAD_STATUS_FINISHED (thread s)\<rparr>))
   }"

text \<open>The first free slot, or -1.\<close>

fun find_slot_from :: "nat \<Rightarrow> bool list \<Rightarrow> int" where
  "find_slot_from i [] = -1"
| "find_slot_from i (used # slots) = (if \<not> used then int i else find_slot_from (i + 1) slots)"

definition mp_thread_find_stack_slot :: "mp_threads \<Rightarrow> int" where
  "mp_thread_find_stack_slot s = find_slot_from 0 (stack_slot s)"

text \<open>
  Creation after the collection: \<open>th\<close> is the fresh node, whose embedded object is the
  thread id.  The result is the exception's text or the id and the stack size to use.
\<close>

definition create_locked ::
  "'k kernel \<Rightarrow> tid \<Rightarrow> u32 \<Rightarrow> u32 \<Rightarrow> int \<Rightarrow> string \<Rightarrow> mp_threads \<Rightarrow> 'k \<Rightarrow>
   ((string + tid \<times> nat) \<times> mp_threads \<times> 'k) option" where
  "create_locked K th entry arg priority name s k = do {
     s \<leftarrow> lock s;
     let i = mp_thread_find_stack_slot s;
     if i \<ge> 0 then do {
       let slot = nat i;
       let k = k_create K slot th entry arg priority k;
       if th = 0 then Some (Inl ''can't create thread'', unlock s, k)
       else do {
         let k = k_name K th name k;
         let node = \<lparr>th_id = th, th_status = MP_THREAD_STATUS_CREATED, th_alive = False, th_slot = slot,
           th_arg = arg, th_stack = k_stack K slot, th_stack_len = k_stack_size K slot div 4\<rparr>;
         slots \<leftarrow> wr (stack_slot s) slot True;
         let s = s\<lparr>thread := node # thread s, stack_slot := slots, mp_thread_counter := mp_thread_counter s + 1\<rparr>;
         Some (Inr (th, k_stack_size K slot - 1024), unlock s, k)
       }
     } else Some (Inl ''maximum number of threads reached'', unlock s, k)
   }"

definition mp_thread_create_ex ::
  "'k kernel \<Rightarrow> tid \<Rightarrow> tid \<Rightarrow> u32 \<Rightarrow> u32 \<Rightarrow> int \<Rightarrow> string \<Rightarrow> mp_threads \<Rightarrow> 'k \<Rightarrow>
   ((string + tid \<times> nat) \<times> mp_threads \<times> 'k) option" where
  "mp_thread_create_ex K cur th entry arg priority name s k = do {
     (roots, s) \<leftarrow> mp_thread_gc_others K cur s k;
     create_locked K th entry arg priority name s k
   }"

fun decimal :: "nat \<Rightarrow> string" where
  "decimal n = (if n < 10 then [char_of (48 + n)] else decimal (n div 10) @ [char_of (48 + n mod 10)])"

text \<open>The name is cut to the 16 bytes of its buffer.\<close>

definition mp_thread_create ::
  "'k kernel \<Rightarrow> tid \<Rightarrow> tid \<Rightarrow> u32 \<Rightarrow> u32 \<Rightarrow> int \<Rightarrow> mp_threads \<Rightarrow> 'k \<Rightarrow>
   ((string + tid \<times> nat) \<times> mp_threads \<times> 'k) option" where
  "mp_thread_create K cur th entry arg priority s k =
     mp_thread_create_ex K cur th entry arg priority
       (take 15 (''mp_thread_'' @ decimal (unat (mp_thread_counter s)))) s k"

text \<open>All other threads that are not finished are marked so and aborted.\<close>

fun deinit_loop :: "'k kernel \<Rightarrow> tid \<Rightarrow> mp_thread list \<Rightarrow> 'k \<Rightarrow> mp_thread list \<times> 'k" where
  "deinit_loop K cur [] k = ([], k)"
| "deinit_loop K cur (th # ths) k =
     (if th_id th \<noteq> cur \<and> th_status th \<noteq> MP_THREAD_STATUS_FINISHED then
        (let (r, k) = deinit_loop K cur ths (k_abort K (th_id th) k)
         in (th\<lparr>th_status := MP_THREAD_STATUS_FINISHED\<rparr> # r, k))
      else (let (r, k) = deinit_loop K cur ths k in (th # r, k)))"

definition mp_thread_deinit :: "'k kernel \<Rightarrow> tid \<Rightarrow> mp_threads \<Rightarrow> 'k \<Rightarrow> (mp_threads \<times> 'k) option" where
  "mp_thread_deinit K cur s k = do {
     s \<leftarrow> lock s;
     let (ths, k) = deinit_loop K cur (thread s) k;
     Some (unlock (s\<lparr>thread := ths\<rparr>), k)
   }"

text \<open>The end of a thread: its entry function has returned and it aborts itself.\<close>

definition zephyr_exit :: "'k kernel \<Rightarrow> tid \<Rightarrow> 'k \<Rightarrow> 'k" where
  "zephyr_exit K cur k = k_abort K cur k"

definition zephyr_entry :: "'k kernel \<Rightarrow> tid \<Rightarrow> (u32 \<Rightarrow> 'k \<Rightarrow> 'k) option \<Rightarrow> u32 \<Rightarrow> 'k \<Rightarrow> 'k" where
  "zephyr_entry K cur arg1 arg2 k =
     (let k = (case arg1 of None \<Rightarrow> k | Some entry \<Rightarrow> entry arg2 k) in zephyr_exit K cur k)"

text \<open>The thread part of a soft reset: \<open>mp_thread_deinit\<close>, then \<open>gc_collect\<close>; all
  heap objects are freed right after it (\<open>gc_sweep_all\<close>), so the list must not hold a
  node of the heap any more.\<close>

definition soft_reset_threads :: "'k kernel \<Rightarrow> tid \<Rightarrow> mp_threads \<Rightarrow> 'k \<Rightarrow> (mp_threads \<times> 'k) option" where
  "soft_reset_threads K cur s k = do {
     (s, k) \<leftarrow> mp_thread_deinit K cur s k;
     (roots, s) \<leftarrow> mp_thread_gc_others K cur s k;
     Some (s, k)
   }"

section \<open>The collection in closed form\<close>

definition dead :: "mp_thread \<Rightarrow> bool" where
  "dead th \<longleftrightarrow> th_status th = MP_THREAD_STATUS_FINISHED \<and> \<not> th_alive th"

definition unmark :: "mp_thread \<Rightarrow> mp_thread" where
  "unmark th = th\<lparr>th_alive := False\<rparr>"

lemma unmark_simps [simp]:
  "th_id (unmark th) = th_id th" "th_status (unmark th) = th_status th" "th_slot (unmark th) = th_slot th"
  "th_alive (unmark th) = False"
  by (simp_all add: unmark_def)

text \<open>A slot stays used unless one of the nodes in \<open>ds\<close> gives it back.\<close>

definition release :: "mp_thread list \<Rightarrow> bool list \<Rightarrow> bool list" where
  "release ds slots = map (\<lambda>i. slots ! i \<and> i \<notin> th_slot ` set ds) [0..<length slots]"

lemma length_release [simp]: "length (release ds slots) = length slots"
  by (simp add: release_def)

lemma release_nth [simp]: "i < length slots \<Longrightarrow> release ds slots ! i = (slots ! i \<and> i \<notin> th_slot ` set ds)"
  by (simp add: release_def)

lemma release_Nil [simp]: "release [] slots = slots"
  by (rule nth_equalityI) simp_all

lemma release_Cons: "release ds (slots[th_slot d := False]) = release (d # ds) slots"
  by (cases "th_slot d < length slots"; rule nth_equalityI) (auto simp: nth_list_update)

lemma gc_sweep_eq:
  assumes "\<forall>th\<in>set ths. th_slot th < length slots"
  shows "gc_sweep ths slots n =
    Some (map unmark (filter (\<lambda>th. \<not> dead th) ths), release (filter dead ths) slots,
      n - of_nat (length (filter dead ths)))"
  using assms
proof (induction ths slots n rule: gc_sweep.induct)
  case (2 th ths slots n)
  then show ?case
    by (auto simp: dead_def unmark_def release_Cons algebra_simps)
qed simp

lemma k_thread_foreach_eq:
  "k_thread_foreach K k ths =
     map (\<lambda>th. if th_id th \<in> set (k_list K k) then th\<lparr>th_alive := True\<rparr> else th) ths"
proof -
  have "fold mp_thread_iterate_threads_cb ts xs =
      map (\<lambda>th. if th_id th \<in> set ts then th\<lparr>th_alive := True\<rparr> else th) xs" for ts xs
  proof (induction ts arbitrary: xs)
    case (Cons t ts)
    then show ?case
      by (simp add: mp_thread_iterate_threads_cb_def)
  qed simp
  then show ?thesis
    by (simp add: k_thread_foreach_def)
qed

lemma find_slot_from_nonneg:
  "0 \<le> find_slot_from i slots \<longleftrightarrow> False \<in> set slots"
proof (induction i slots rule: find_slot_from.induct)
  case (2 i used slots)
  then show ?case by (cases used) simp_all
qed simp

lemma find_slot_from_free:
  assumes "0 \<le> find_slot_from i slots"
  shows "\<exists>j < length slots. find_slot_from i slots = int (i + j) \<and> \<not> slots ! j \<and> (\<forall>l<j. slots ! l)"
  using assms
proof (induction i slots rule: find_slot_from.induct)
  case (2 i used slots)
  show ?case
  proof (cases used)
    case True
    with 2 obtain j where j: "j < length slots" "find_slot_from (i + 1) slots = int (i + 1 + j)"
        "\<not> slots ! j" "\<forall>l<j. slots ! l"
      by auto
    have "\<forall>l<Suc j. (used # slots) ! l"
      using True j(4) by (simp add: nth_Cons split: nat.splits)
    then show ?thesis
      using True j by (intro exI [of _ "Suc j"]) simp
  next
    case False
    then show ?thesis by (intro exI [of _ 0]) simp
  qed
qed simp

section \<open>The invariant\<close>

text \<open>
  The main thread is last in the list and never finished; the user nodes have distinct ids and
  distinct slots, which are exactly the slots in use; the counter counts them; and every kernel
  thread on a slot is the thread of a user node with that slot, which a sweep in progress will
  find alive.
\<close>

abbreviation users :: "mp_threads \<Rightarrow> mp_thread list" where
  "users s \<equiv> butlast (thread s)"

definition list_inv :: "tid \<Rightarrow> mp_threads \<Rightarrow> bool" where
  "list_inv main s \<longleftrightarrow>
     thread s \<noteq> [] \<and> th_id (last (thread s)) = main \<and>
     th_status (last (thread s)) \<noteq> MP_THREAD_STATUS_FINISHED \<and> th_slot (last (thread s)) = 0 \<and>
     distinct (map th_id (thread s)) \<and> distinct (map th_slot (users s)) \<and>
     length (stack_slot s) = MP_THREAD_MAXIMUM_USER_THREADS \<and>
     {i. i < MP_THREAD_MAXIMUM_USER_THREADS \<and> stack_slot s ! i} = th_slot ` set (users s) \<and>
     mp_thread_counter s = of_nat (length (users s))"

definition kernel_inv :: "'k kernel \<Rightarrow> bool \<Rightarrow> mp_threads \<Rightarrow> 'k \<Rightarrow> bool" where
  "kernel_inv K sweeping s k \<longleftrightarrow>
     thread_mutex s = (if sweeping then 0 else 1) \<and>
     (\<forall>t i. k_runs K k t i \<longrightarrow>
        (\<exists>th\<in>set (users s). th_id th = t \<and> th_slot th = i \<and> (sweeping \<longrightarrow> th_alive th))) \<and>
     (\<not> sweeping \<longrightarrow> (\<forall>th\<in>set (users s). \<not> th_alive th))"

lemma kernel_inv_mono:
  "kernel_inv K ph s k \<Longrightarrow> (\<And>t i. k_runs K k' t i \<Longrightarrow> k_runs K k t i) \<Longrightarrow> kernel_inv K ph s k'"
  by (auto simp: kernel_inv_def)

lemma lock_Some: "lock s = Some s' \<longleftrightarrow> 0 < thread_mutex s \<and> s' = s\<lparr>thread_mutex := thread_mutex s - 1\<rparr>"
  by (auto simp: lock_def mp_thread_mutex_lock_def)

lemma unlock_simps [simp]:
  "thread (unlock s) = thread s" "stack_slot (unlock s) = stack_slot s"
  "mp_thread_counter (unlock s) = mp_thread_counter s" "thread_mutex s = 0 \<Longrightarrow> thread_mutex (unlock s) = 1"
  by (simp_all add: unlock_def mp_thread_mutex_unlock_def)

lemma k_runs_abort: "kernel_ok K \<Longrightarrow> k_runs K (k_abort K t k) t' i \<longleftrightarrow> t' \<noteq> t \<and> k_runs K k t' i"
  by (auto simp: kernel_ok_def k_runs_def)

lemma k_runs_set_state: "kernel_ok K \<Longrightarrow> k_runs K (mp_thread_set_state K t d k) t' i \<longleftrightarrow> k_runs K k t' i"
  by (auto simp: kernel_ok_def k_runs_def mp_thread_set_state_def)

lemma k_runs_name: "kernel_ok K \<Longrightarrow> k_runs K (k_name K t n k) t' i \<longleftrightarrow> k_runs K k t' i"
  by (auto simp: kernel_ok_def k_runs_def)

lemma k_runs_create:
  "kernel_ok K \<Longrightarrow> k_runs K (k_create K j t e a p k) t' i \<longleftrightarrow> (if t' = t then i = j else k_runs K k t' i)"
  by (auto simp: kernel_ok_def k_runs_def)

text \<open>The invariant as an introduction and an elimination rule over the shape of the list.\<close>

lemma list_invI:
  assumes "thread s = us @ [m]" "th_id m = main" "th_status m \<noteq> MP_THREAD_STATUS_FINISHED" "th_slot m = 0"
    "distinct (map th_id (us @ [m]))" "distinct (map th_slot us)"
    "length (stack_slot s) = MP_THREAD_MAXIMUM_USER_THREADS"
    "\<forall>i. i < MP_THREAD_MAXIMUM_USER_THREADS \<and> stack_slot s ! i \<longleftrightarrow> i \<in> th_slot ` set us"
    "mp_thread_counter s = of_nat (length us)"
  shows "list_inv main s"
  using assms by (simp add: list_inv_def set_eq_iff)

lemma list_invE:
  assumes "list_inv main s"
  obtains us m where "thread s = us @ [m]" "users s = us" "th_id m = main"
    "th_status m \<noteq> MP_THREAD_STATUS_FINISHED" "th_slot m = 0"
    "distinct (map th_id (us @ [m]))" "distinct (map th_slot us)"
    "length (stack_slot s) = MP_THREAD_MAXIMUM_USER_THREADS"
    "\<forall>i. i < MP_THREAD_MAXIMUM_USER_THREADS \<and> stack_slot s ! i \<longleftrightarrow> i \<in> th_slot ` set us"
    "mp_thread_counter s = of_nat (length us)"
proof -
  from assms have "thread s \<noteq> []" by (simp add: list_inv_def)
  then obtain us m where t: "thread s = us @ [m]" by (cases "thread s" rule: rev_cases) auto
  show ?thesis
    using assms by (intro that [of us m]) (auto simp: list_inv_def t set_eq_iff)
qed

lemma slot_bound:
  assumes "list_inv main s"
  shows "\<forall>th\<in>set (thread s). th_slot th < length (stack_slot s)"
  using assms
proof (rule list_invE)
  fix us m
  assume "thread s = us @ [m]" "th_slot m = 0" "length (stack_slot s) = MP_THREAD_MAXIMUM_USER_THREADS"
    "\<forall>i. i < MP_THREAD_MAXIMUM_USER_THREADS \<and> stack_slot s ! i \<longleftrightarrow> i \<in> th_slot ` set us"
  then show ?thesis
    by (auto simp: MP_THREAD_MAXIMUM_USER_THREADS_def)
qed

section \<open>Every operation keeps the invariant\<close>

text \<open>A change of the list that keeps ids, slots and the main entry.\<close>

lemma list_inv_map:
  assumes "list_inv main s"
    and "\<And>th. th_id (f th) = th_id th \<and> th_slot (f th) = th_slot th"
    and "th_status (f (last (thread s))) \<noteq> MP_THREAD_STATUS_FINISHED"
    and "thread s' = map f (thread s)" "stack_slot s' = stack_slot s" "mp_thread_counter s' = mp_thread_counter s"
  shows "list_inv main s'"
  using assms(1)
proof (rule list_invE)
  fix us m
  assume s: "thread s = us @ [m]" "th_id m = main" "th_slot m = 0"
    "distinct (map th_id (us @ [m]))" "distinct (map th_slot us)"
    "length (stack_slot s) = MP_THREAD_MAXIMUM_USER_THREADS"
    "\<forall>i. i < MP_THREAD_MAXIMUM_USER_THREADS \<and> stack_slot s ! i \<longleftrightarrow> i \<in> th_slot ` set us"
    "mp_thread_counter s = of_nat (length us)"
  have c: "th_id \<circ> f = th_id" "th_slot \<circ> f = th_slot"
    using assms(2) by (auto simp: fun_eq_iff)
  show ?thesis
    using s assms(2-) by (intro list_invI [where us = "map f us" and m = "f m"]) (simp_all add: c image_image)
qed

lemma gc_mark_inv:
  assumes "list_inv main s" and "kernel_inv K False s k" and "gc_mark K s k = Some s'"
  shows "list_inv main s' \<and> kernel_inv K True s' k"
proof -
  let ?f = "\<lambda>th. if th_id th \<in> set (k_list K k) then th\<lparr>th_alive := True\<rparr> else th"
  from assms(3) have t: "thread s' = map ?f (thread s)" "stack_slot s' = stack_slot s"
      "mp_thread_counter s' = mp_thread_counter s" and m: "thread_mutex s' = thread_mutex s - 1"
    by (auto simp: gc_mark_def lock_Some k_thread_foreach_eq elim!: bind_SomeE)
  have "list_inv main s'"
    using assms(1) t by (intro list_inv_map [where f = ?f, OF assms(1)]) (auto simp: list_inv_def)
  moreover have "kernel_inv K True s' k"
    unfolding kernel_inv_def
  proof (intro conjI allI impI)
    show "thread_mutex s' = (if True then 0 else 1)"
      using assms(2) m by (simp add: kernel_inv_def)
    fix t i assume r: "k_runs K k t i"
    with assms(2) obtain th where "th \<in> set (users s)" "th_id th = t" "th_slot th = i"
      by (auto simp: kernel_inv_def)
    moreover from r have "t \<in> set (k_list K k)" by (simp add: k_runs_def)
    ultimately show "\<exists>th\<in>set (users s'). th_id th = t \<and> th_slot th = i \<and> (True \<longrightarrow> th_alive th)"
      by (intro bexI [of _ "?f th"]) (auto simp: t map_butlast [symmetric])
  qed simp
  ultimately show ?thesis ..
qed

lemma gc_finish_Some:
  assumes "list_inv main s"
  shows "gc_finish cur s =
    (let ths = map unmark (filter (\<lambda>th. \<not> dead th) (thread s))
     in Some (gc_roots cur ths, unlock (s\<lparr>thread := ths,
          stack_slot := release (filter dead (thread s)) (stack_slot s),
          mp_thread_counter := mp_thread_counter s - of_nat (length (filter dead (thread s)))\<rparr>)))"
  using gc_sweep_eq [OF slot_bound [OF assms]] by (simp add: gc_finish_def Let_def)

lemma gc_finish_inv:
  assumes i: "list_inv main s" and k: "kernel_inv K True s k" and g: "gc_finish cur s = Some (roots, s')"
  shows "list_inv main s' \<and> kernel_inv K False s' k"
proof -
  from i obtain us m where s: "thread s = us @ [m]" "users s = us" "th_id m = main"
    "th_status m \<noteq> MP_THREAD_STATUS_FINISHED" "th_slot m = 0"
    "distinct (map th_id (us @ [m]))" "distinct (map th_slot us)"
    "length (stack_slot s) = MP_THREAD_MAXIMUM_USER_THREADS"
    "\<forall>i. i < MP_THREAD_MAXIMUM_USER_THREADS \<and> stack_slot s ! i \<longleftrightarrow> i \<in> th_slot ` set us"
    "mp_thread_counter s = of_nat (length us)"
    by (rule list_invE)
  let ?keep = "filter (\<lambda>th. \<not> dead th) us"
  have dm: "\<not> dead m" using s(4) by (simp add: dead_def)
  have t: "thread s' = map unmark ?keep @ [unmark m]"
      "stack_slot s' = release (filter dead us) (stack_slot s)"
      "mp_thread_counter s' = of_nat (length us) - of_nat (length (filter dead us))"
      "thread_mutex s' = 1"
    using g k dm by (auto simp: gc_finish_Some [OF i] s(1,10) kernel_inv_def unlock_def mp_thread_mutex_unlock_def Let_def)
  have "list_inv main s'"
  proof (rule list_invI [OF t(1)])
    have "distinct (map th_id ?keep)" "distinct (map th_slot ?keep)"
      using s(6,7) by (auto intro: distinct_map_filter)
    then show "distinct (map th_id (map unmark ?keep @ [unmark m]))" "distinct (map th_slot (map unmark ?keep))"
      using s(6) by (auto simp: comp_def)
    have n: "(of_nat (length us) :: u8) = of_nat (length ?keep) + of_nat (length (filter dead us))"
      by (metis add.commute of_nat_add sum_length_filter_compl)
    show "mp_thread_counter s' = of_nat (length (map unmark ?keep))"
      by (simp add: t(3) n)
    have "inj_on th_slot (set us)"
      using s(7) by (simp add: distinct_map)
    then have keep: "j \<in> th_slot ` set ?keep \<longleftrightarrow> j \<in> th_slot ` set us \<and> j \<notin> th_slot ` set (filter dead us)" for j
      by (auto dest: inj_onD)
    have sl: "stack_slot s' ! j \<longleftrightarrow> stack_slot s ! j \<and> j \<notin> th_slot ` set (filter dead us)"
        if "j < MP_THREAD_MAXIMUM_USER_THREADS" for j
      using that by (simp add: t(2) s(8))
    have im: "th_slot ` set (map unmark ?keep) = th_slot ` set ?keep"
      by (simp add: image_image)
    show "\<forall>j. j < MP_THREAD_MAXIMUM_USER_THREADS \<and> stack_slot s' ! j \<longleftrightarrow> j \<in> th_slot ` set (map unmark ?keep)"
    proof
      fix j
      from s(9) have u: "(j < MP_THREAD_MAXIMUM_USER_THREADS \<and> stack_slot s ! j) \<longleftrightarrow> j \<in> th_slot ` set us" ..
      show "j < MP_THREAD_MAXIMUM_USER_THREADS \<and> stack_slot s' ! j \<longleftrightarrow> j \<in> th_slot ` set (map unmark ?keep)"
        unfolding im keep using u sl [of j] by argo
    qed
  qed (use s t in simp_all)
  moreover have "kernel_inv K False s' k"
    unfolding kernel_inv_def
  proof (intro conjI allI impI)
    fix t' i' assume "k_runs K k t' i'"
    with k obtain th where th: "th \<in> set us" "th_id th = t'" "th_slot th = i'" "th_alive th"
      by (auto simp: kernel_inv_def s(2))
    then have "unmark th \<in> set (users s')"
      by (auto simp: t(1) dead_def)
    then show "\<exists>th\<in>set (users s'). th_id th = t' \<and> th_slot th = i' \<and> (False \<longrightarrow> th_alive th)"
      using th by (intro bexI [of _ "unmark th"]) simp_all
  qed (auto simp: t(1,4))
  ultimately show ?thesis ..
qed

lemma set_own_status_map:
  "distinct (map th_id ths) \<Longrightarrow>
   set_own_status cur st ths = map (\<lambda>th. if th_id th = cur then th\<lparr>th_status := st\<rparr> else th) ths"
proof (induction cur st ths rule: set_own_status.induct)
  case (2 cur st th ths)
  have "map (\<lambda>th. if th_id th = cur then th\<lparr>th_status := st\<rparr> else th) ths = ths" if "th_id th = cur"
    using 2(2) that by (intro map_idI) (auto simp: image_iff)
  then show ?case using 2 by auto
qed simp

text \<open>Kernel and list agree after a change of the list that keeps ids, slots and marks.\<close>

lemma kernel_inv_map:
  assumes "kernel_inv K False s k"
    and "\<And>th. th_id (f th) = th_id th \<and> th_slot (f th) = th_slot th \<and> th_alive (f th) = th_alive th"
    and "thread s' = map f (thread s)" "thread_mutex s' = 1"
  shows "kernel_inv K False s' k"
  unfolding kernel_inv_def
proof (intro conjI allI impI)
  show "\<forall>th\<in>set (users s'). \<not> th_alive th"
    using assms(1,2) by (auto simp: assms(3) kernel_inv_def map_butlast [symmetric])
next
  fix t i assume "k_runs K k t i"
  with assms(1) obtain th where th: "th \<in> set (users s)" "th_id th = t" "th_slot th = i"
    by (auto simp: kernel_inv_def)
  then have "f th \<in> set (users s')"
    by (simp add: assms(3) map_butlast [symmetric])
  then show "\<exists>th\<in>set (users s'). th_id th = t \<and> th_slot th = i \<and> (False \<longrightarrow> th_alive th)"
    using th assms(2) by blast
qed (simp add: assms(4))

lemma set_own_status_inv:
  assumes i: "list_inv main s" and k: "kernel_inv K False s k"
    and st: "st \<noteq> MP_THREAD_STATUS_FINISHED \<or> cur \<noteq> main"
    and m: "thread_mutex s' = 1" "thread s' = set_own_status cur st (thread s)"
      "stack_slot s' = stack_slot s" "mp_thread_counter s' = mp_thread_counter s"
  shows "list_inv main s' \<and> kernel_inv K False s' k"
proof -
  let ?f = "\<lambda>th. if th_id th = cur then th\<lparr>th_status := st\<rparr> else th"
  have t: "thread s' = map ?f (thread s)"
    using i m(2) by (simp add: list_inv_def set_own_status_map)
  have "list_inv main s'"
    using i st m t by (intro list_inv_map [where f = ?f, OF i]) (auto simp: list_inv_def)
  moreover have "kernel_inv K False s' k"
    using m(1) t by (intro kernel_inv_map [where f = ?f, OF k]) auto
  ultimately show ?thesis ..
qed

lemma deinit_loop_eq:
  "deinit_loop K cur ths k =
    (map (\<lambda>th. if th_id th \<noteq> cur then th\<lparr>th_status := MP_THREAD_STATUS_FINISHED\<rparr> else th) ths,
     fold (k_abort K) (map th_id (filter (\<lambda>th. th_id th \<noteq> cur \<and> th_status th \<noteq> MP_THREAD_STATUS_FINISHED) ths)) k)"
  by (induction K cur ths k rule: deinit_loop.induct) (auto simp: case_prod_unfold)

lemma k_runs_aborts:
  "kernel_ok K \<Longrightarrow> k_runs K (fold (k_abort K) ts k) t i \<longleftrightarrow> t \<notin> set ts \<and> k_runs K k t i"
  by (induction ts arbitrary: k) (auto simp: k_runs_abort)

lemma deinit_inv:
  assumes i: "list_inv main s" and k: "kernel_inv K False s k" and K: "kernel_ok K"
    and d: "mp_thread_deinit K main s k = Some (s', k')"
  shows "list_inv main s' \<and> kernel_inv K False s' k'"
proof -
  let ?f = "\<lambda>th. if th_id th \<noteq> main then th\<lparr>th_status := MP_THREAD_STATUS_FINISHED\<rparr> else th"
  from d k have t: "thread s' = map ?f (thread s)" "thread_mutex s' = 1"
      "stack_slot s' = stack_slot s" "mp_thread_counter s' = mp_thread_counter s"
      "\<And>t i. k_runs K k' t i \<Longrightarrow> k_runs K k t i"
    by (auto simp: mp_thread_deinit_def lock_Some deinit_loop_eq kernel_inv_def unlock_def
        mp_thread_mutex_unlock_def k_runs_aborts [OF K] elim!: bind_SomeE)
  have "list_inv main s'"
    using i t by (intro list_inv_map [where f = ?f, OF i]) (auto simp: list_inv_def)
  moreover have "kernel_inv K False s' k"
    using t by (intro kernel_inv_map [where f = ?f, OF k]) auto
  then have "kernel_inv K False s' k'"
    using t(5) by (rule kernel_inv_mono)
  ultimately show ?thesis ..
qed

lemma find_stack_slot_free:
  assumes "list_inv main s" and "0 \<le> mp_thread_find_stack_slot s"
  shows "nat (mp_thread_find_stack_slot s) < MP_THREAD_MAXIMUM_USER_THREADS \<and>
    \<not> stack_slot s ! nat (mp_thread_find_stack_slot s) \<and>
    nat (mp_thread_find_stack_slot s) \<notin> th_slot ` set (users s)"
proof -
  obtain j where "j < length (stack_slot s)" "mp_thread_find_stack_slot s = int j" "\<not> stack_slot s ! j"
    using find_slot_from_free [of 0 "stack_slot s"] assms(2) by (auto simp: mp_thread_find_stack_slot_def)
  then show ?thesis
    using assms(1) by (auto simp: list_inv_def)
qed

lemma create_locked_inv:
  assumes i: "list_inv main s" and k: "kernel_inv K False s k" and K: "kernel_ok K"
    and fresh: "th \<notin> th_id ` set (thread s)" "th \<noteq> 0"
    and c: "create_locked K th entry arg priority name s k = Some (r, s', k')"
  shows "list_inv main s' \<and> kernel_inv K False s' k'"
proof (cases "0 \<le> mp_thread_find_stack_slot s")
  case False
  have "s' = s \<and> k' = k"
    using c k False by (auto simp: create_locked_def lock_Some kernel_inv_def unlock_def
        mp_thread_mutex_unlock_def mp_thread_find_stack_slot_def elim!: bind_SomeE)
  then show ?thesis using i k by simp
next
  case True
  let ?slot = "nat (mp_thread_find_stack_slot s)"
  let ?node = "\<lparr>th_id = th, th_status = MP_THREAD_STATUS_CREATED, th_alive = False, th_slot = ?slot,
     th_arg = arg, th_stack = k_stack K ?slot, th_stack_len = k_stack_size K ?slot div 4\<rparr>"
  note free = find_stack_slot_free [OF i True]
  from i have len: "length (stack_slot s) = MP_THREAD_MAXIMUM_USER_THREADS" by (simp add: list_inv_def)
  have f: "mp_thread_find_stack_slot (s\<lparr>thread_mutex := m\<rparr>) = mp_thread_find_stack_slot s" for m
    by (simp add: mp_thread_find_stack_slot_def)
  have t: "thread s' = ?node # thread s" "stack_slot s' = (stack_slot s)[?slot := True]"
      "mp_thread_counter s' = mp_thread_counter s + 1" "thread_mutex s' = 1"
      "k' = k_name K th name (k_create K ?slot th entry arg priority k)"
    using c k True fresh(2) free len by (auto simp: create_locked_def lock_Some f kernel_inv_def unlock_def
        mp_thread_mutex_unlock_def Let_def elim!: bind_SomeE)
  from i obtain us m where s: "thread s = us @ [m]" "users s = us" "th_id m = main"
    "th_status m \<noteq> MP_THREAD_STATUS_FINISHED" "th_slot m = 0"
    "distinct (map th_id (us @ [m]))" "distinct (map th_slot us)"
    "length (stack_slot s) = MP_THREAD_MAXIMUM_USER_THREADS"
    "\<forall>i. i < MP_THREAD_MAXIMUM_USER_THREADS \<and> stack_slot s ! i \<longleftrightarrow> i \<in> th_slot ` set us"
    "mp_thread_counter s = of_nat (length us)"
    by (rule list_invE)
  have "list_inv main s'"
  proof (rule list_invI)
    show "thread s' = (?node # us) @ [m]" by (simp add: t(1) s(1))
    show "\<forall>i. i < MP_THREAD_MAXIMUM_USER_THREADS \<and> stack_slot s' ! i \<longleftrightarrow> i \<in> th_slot ` set (?node # us)"
      using s(9) free len by (auto simp: t(2) nth_list_update)
  qed (use s t free fresh in auto)
  moreover have "kernel_inv K False s' k'"
    unfolding kernel_inv_def
  proof (intro conjI allI impI)
    fix t' i' assume "k_runs K k' t' i'"
    then have "t' = th \<and> i' = ?slot \<or> k_runs K k t' i'"
      by (auto simp: t(5) k_runs_name [OF K] k_runs_create [OF K] split: if_splits)
    with k have "t' = th \<and> i' = ?slot \<or> (\<exists>th\<in>set us. th_id th = t' \<and> th_slot th = i')"
      by (auto simp: kernel_inv_def s(2))
    then show "\<exists>th\<in>set (users s'). th_id th = t' \<and> th_slot th = i' \<and> (False \<longrightarrow> th_alive th)"
      by (auto simp: t(1) s(1))
  qed (use k in \<open>auto simp: t(1,4) s(1) butlast_append kernel_inv_def\<close>)
  ultimately show ?thesis ..
qed

section \<open>Interleaved execution\<close>

text \<open>
  A configuration is the static state, the kernel state and whether a collection is between its
  two halves.  Every operation is possible at any time, so far as the mutex lets it run; a thread
  may leave the kernel at any time, also in the middle of a collection, and the rest of the
  system may do what it likes with its own threads.  A fresh node is memory outside the list;
  only user threads finish, and the main thread resets.
\<close>

type_synonym 'k conf = "mp_threads \<times> 'k \<times> bool"

inductive mp_step :: "'k kernel \<Rightarrow> tid \<Rightarrow> 'k conf \<Rightarrow> 'k conf \<Rightarrow> bool" for K main where
  step_mark: "gc_mark K s k = Some s' \<Longrightarrow> mp_step K main (s, k, ph) (s', k, True)"
| step_sweep: "gc_finish cur s = Some (roots, s') \<Longrightarrow> mp_step K main (s, k, True) (s', k, False)"
| step_create: "th \<noteq> 0 \<Longrightarrow> th \<notin> th_id ` set (thread s) \<Longrightarrow>
    create_locked K th entry arg priority name s k = Some (r, s', k') \<Longrightarrow>
    mp_step K main (s, k, ph) (s', k', ph)"
| step_start: "mp_thread_start cur s = Some s' \<Longrightarrow> mp_step K main (s, k, ph) (s', k, ph)"
| step_finish: "cur \<noteq> main \<Longrightarrow> mp_thread_finish cur s = Some s' \<Longrightarrow>
    mp_step K main (s, k, ph) (s', k, ph)"
| step_exit: "mp_step K main (s, k, ph) (s, zephyr_exit K cur k, ph)"
| step_deinit: "mp_thread_deinit K main s k = Some (s', k') \<Longrightarrow> mp_step K main (s, k, ph) (s', k', ph)"
| step_other: "(\<And>t i. k_runs K k' t i \<Longrightarrow> k_runs K k t i) \<Longrightarrow> mp_step K main (s, k, ph) (s, k', ph)"

inductive mp_reach :: "'k kernel \<Rightarrow> tid \<Rightarrow> 'k conf \<Rightarrow> bool" for K main where
  reach_init: "(\<And>t i. \<not> k_runs K k t i) \<Longrightarrow>
    mp_thread_init K main main_state stack stack_len mp_thread_static k = (s, k') \<Longrightarrow> mp_reach K main (s, k', False)"
| reach_step: "mp_reach K main c \<Longrightarrow> mp_step K main c c' \<Longrightarrow> mp_reach K main c'"

inductive_cases mp_stepE: "mp_step K main (s, k, ph) c'"

definition conf_inv :: "'k kernel \<Rightarrow> tid \<Rightarrow> 'k conf \<Rightarrow> bool" where
  "conf_inv K main c = (case c of (s, k, ph) \<Rightarrow> list_inv main s \<and> kernel_inv K ph s k)"

lemma init_inv:
  assumes "kernel_ok K" and "\<And>t i. \<not> k_runs K k t i"
    and "mp_thread_init K main main_state stack stack_len mp_thread_static k = (s, k')"
  shows "conf_inv K main (s, k', False)"
  using assms(2,3) by (auto simp: mp_thread_init_def conf_inv_def list_inv_def kernel_inv_def mp_thread_static_def
      mp_thread_mutex_init_def MP_THREAD_MAXIMUM_USER_THREADS_def k_runs_name [OF assms(1)]
      k_runs_set_state [OF assms(1)] Let_def)

text \<open>While a collection is under way the mutex is taken and no operation starts.\<close>

lemma locked_out:
  assumes "thread_mutex s = 0"
  shows "gc_mark K s k = None" "create_locked K th entry arg priority name s k = None"
    "mp_thread_start cur s = None" "mp_thread_finish cur s = None" "mp_thread_deinit K main s k = None"
  using assms by (simp_all add: gc_mark_def create_locked_def mp_thread_start_def mp_thread_finish_def
      mp_thread_deinit_def lock_def mp_thread_mutex_lock_def)

lemma own_status_inv:
  assumes "list_inv main s" "kernel_inv K False s k"
    and "st \<noteq> MP_THREAD_STATUS_FINISHED \<or> cur \<noteq> main"
    and "do { s \<leftarrow> lock s; Some (unlock (s\<lparr>thread := set_own_status cur st (thread s)\<rparr>)) } = Some s'"
  shows "list_inv main s' \<and> kernel_inv K False s' k"
  using assms(4) assms(2)
  by (intro set_own_status_inv [OF assms(1-3)])
    (auto simp: lock_Some kernel_inv_def unlock_def mp_thread_mutex_unlock_def elim!: bind_SomeE)

lemma step_inv:
  assumes K: "kernel_ok K" and i: "conf_inv K main c" and st: "mp_step K main c c'"
  shows "conf_inv K main c'"
proof -
  obtain s k ph where c: "c = (s, k, ph)" by (cases c)
  from i have l: "list_inv main s" and ki: "kernel_inv K ph s k" by (auto simp: c conf_inv_def)
  have m: "ph \<Longrightarrow> thread_mutex s = 0" using ki by (simp add: kernel_inv_def)
  from st [unfolded c] show ?thesis
  proof (cases rule: mp_stepE [consumes 1])
    case (1 s')
    then have "\<not> ph" using m by (auto simp: locked_out)
    then show ?thesis using gc_mark_inv [OF l _ 1(2)] ki 1(1) by (simp add: conf_inv_def)
  next
    case (2 cur roots s')
    then show ?thesis using gc_finish_inv [OF l _ 2(3)] ki by (simp add: conf_inv_def)
  next
    case (3 th entry arg priority name r s' k')
    then have "\<not> ph" using m by (auto simp: locked_out)
    then show ?thesis using create_locked_inv [OF l _ K 3(3,2,4)] ki 3(1) by (simp add: conf_inv_def)
  next
    case (4 cur s')
    then have "\<not> ph" using m by (auto simp: locked_out)
    then show ?thesis
      using own_status_inv [OF l _ _ 4(2) [unfolded mp_thread_start_def]] ki 4(1) by (simp add: conf_inv_def)
  next
    case (5 cur s')
    then have "\<not> ph" using m by (auto simp: locked_out)
    then show ?thesis
      using own_status_inv [OF l _ _ 5(3) [unfolded mp_thread_finish_def]] ki 5(1,2) by (simp add: conf_inv_def)
  next
    case (6 cur)
    then show ?thesis
      using l kernel_inv_mono [OF ki, of "zephyr_exit K cur k"]
      by (simp add: conf_inv_def zephyr_exit_def k_runs_abort [OF K])
  next
    case (7 s' k')
    then have "\<not> ph" using m by (auto simp: locked_out)
    then show ?thesis using deinit_inv [OF l _ K 7(2)] ki 7(1) by (simp add: conf_inv_def)
  next
    case (8 k')
    then show ?thesis using l kernel_inv_mono [OF ki, of k'] by (simp add: conf_inv_def)
  qed
qed

lemma reach_inv: "mp_reach K main c \<Longrightarrow> kernel_ok K \<Longrightarrow> conf_inv K main c"
  by (induction rule: mp_reach.induct) (auto intro: init_inv step_inv)

lemma users_le:
  assumes "list_inv main s"
  shows "length (users s) \<le> MP_THREAD_MAXIMUM_USER_THREADS"
  using assms
proof (rule list_invE)
  fix us m
  assume s: "users s = us" "distinct (map th_slot us)"
    "\<forall>i. i < MP_THREAD_MAXIMUM_USER_THREADS \<and> stack_slot s ! i \<longleftrightarrow> i \<in> th_slot ` set us"
  have "length us = card (th_slot ` set us)"
    using distinct_card [OF s(2)] by simp
  also have "\<dots> \<le> card {..<MP_THREAD_MAXIMUM_USER_THREADS}"
    using s(3) by (intro card_mono) auto
  finally show ?thesis using s(1) by simp
qed

text \<open>
  Claim C19.  However the threads interleave, no two kernel threads run on the same Python stack,
  a stack in use is marked used, the list has at most four user threads with the main thread
  last, and the counter is their number, so it never wraps.
\<close>

theorem mp_stacks_never_shared:
  assumes "kernel_ok K" and "mp_reach K main (s, k, ph)"
  shows "(\<forall>t t' i. k_runs K k t i \<and> k_runs K k t' i \<longrightarrow> t = t') \<and>
    (\<forall>t i. k_runs K k t i \<longrightarrow> i < MP_THREAD_MAXIMUM_USER_THREADS \<and> stack_slot s ! i) \<and>
    length (thread s) \<le> MP_THREAD_MAXIMUM_USER_THREADS + 1 \<and> th_id (last (thread s)) = main \<and>
    unat (mp_thread_counter s) = length (thread s) - 1"
proof -
  from reach_inv [OF assms(2,1)] have l: "list_inv main s" and k: "kernel_inv K ph s k"
    by (simp_all add: conf_inv_def)
  from l have d: "distinct (map th_slot (users s))" by (simp add: list_inv_def)
  have sl: "\<exists>th\<in>set (users s). th_id th = t \<and> th_slot th = i" if "k_runs K k t i" for t i
    using k that by (auto simp: kernel_inv_def)
  have "t = t'" if "k_runs K k t i" "k_runs K k t' i" for t t' i
    using sl [OF that(1)] sl [OF that(2)] d by (auto simp: distinct_map dest: inj_onD)
  moreover have "i < MP_THREAD_MAXIMUM_USER_THREADS \<and> stack_slot s ! i" if "k_runs K k t i" for t i
    using sl [OF that] l by (auto simp: list_inv_def)
  moreover have "length (thread s) = length (users s) + 1"
    using l by (simp add: list_inv_def)
  moreover have "th_id (last (thread s)) = main"
    using l by (simp add: list_inv_def)
  moreover have "unat (mp_thread_counter s) = length (users s)"
    using users_le [OF l] l by (simp add: list_inv_def MP_THREAD_MAXIMUM_USER_THREADS_def unat_of_nat)
  ultimately show ?thesis
    using users_le [OF l] by auto
qed

section \<open>Creation and soft reset\<close>

lemma filter_map_cong:
  "(\<And>x. x \<in> set xs \<Longrightarrow> P (f x) \<longleftrightarrow> Q x) \<Longrightarrow> filter P (map f xs) = map f (filter Q xs)"
  by (induction xs) auto

text \<open>The nodes a collection removes: finished, and no longer known to the kernel.\<close>

definition gone :: "'k kernel \<Rightarrow> 'k \<Rightarrow> mp_thread \<Rightarrow> bool" where
  "gone K k th \<longleftrightarrow> th_status th = MP_THREAD_STATUS_FINISHED \<and> th_id th \<notin> set (k_list K k)"

lemma release_cong: "th_slot ` set ds = th_slot ` set ds' \<Longrightarrow> release ds slots = release ds' slots"
  by (simp add: release_def)

lemma gc_others_effect:
  assumes l: "list_inv main s" and k: "kernel_inv K False s k"
  shows "\<exists>s'. mp_thread_gc_others K cur s k = Some (gc_roots cur (thread s'), s') \<and>
    thread s' = map unmark (filter (\<lambda>th. \<not> gone K k th) (thread s)) \<and>
    list_inv main s' \<and> kernel_inv K False s' k"
proof -
  let ?f = "\<lambda>th. if th_id th \<in> set (k_list K k) then th\<lparr>th_alive := True\<rparr> else th"
  obtain s1 where s1: "gc_mark K s k = Some s1"
    using k by (simp add: gc_mark_def lock_def mp_thread_mutex_lock_def kernel_inv_def)
  from gc_mark_inv [OF l k s1] have l1: "list_inv main s1" and k1: "kernel_inv K True s1 k" by auto
  from s1 have t1: "thread s1 = map ?f (thread s)"
    by (auto simp: gc_mark_def lock_Some k_thread_foreach_eq elim!: bind_SomeE)
  obtain roots s' where s': "gc_finish cur s1 = Some (roots, s')"
    by (simp add: gc_finish_Some [OF l1] Let_def)
  have d: "dead (?f th) \<longleftrightarrow> gone K k th" if "th \<in> set (thread s)" for th
  proof -
    have "th \<in> set (users s @ [last (thread s)])"
      using l that by (simp add: list_inv_def)
    then show ?thesis
      using k l by (auto simp: dead_def gone_def kernel_inv_def list_inv_def)
  qed
  have "filter (\<lambda>th. \<not> dead th) (thread s1) = map ?f (filter (\<lambda>th. \<not> gone K k th) (thread s))"
    unfolding t1 using d by (intro filter_map_cong) blast
  then have t': "thread s' = map unmark (filter (\<lambda>th. \<not> gone K k th) (thread s))"
    using s' by (auto simp: gc_finish_Some [OF l1] Let_def unmark_def)
  have "mp_thread_gc_others K cur s k = Some (gc_roots cur (thread s'), s')"
    using s1 s' l by (auto simp: mp_thread_gc_others_def list_inv_def gc_finish_Some [OF l1] Let_def)
  then show ?thesis
    using gc_finish_inv [OF l1 k1 s'] t' by blast
qed

lemma users_unmark_keep:
  assumes "list_inv main s"
  shows "map unmark (filter (\<lambda>th. \<not> gone K k th) (thread s)) =
    map unmark (filter (\<lambda>th. \<not> gone K k th) (users s)) @ [unmark (last (thread s))]"
  using assms by (rule list_invE) (simp add: gone_def)

lemma find_slot_iff:
  assumes "list_inv main s"
  shows "0 \<le> mp_thread_find_stack_slot s \<longleftrightarrow> length (users s) < MP_THREAD_MAXIMUM_USER_THREADS"
proof -
  from assms obtain us m where s: "thread s = us @ [m]" "users s = us" "distinct (map th_slot us)"
    "length (stack_slot s) = MP_THREAD_MAXIMUM_USER_THREADS"
    "\<forall>i. i < MP_THREAD_MAXIMUM_USER_THREADS \<and> stack_slot s ! i \<longleftrightarrow> i \<in> th_slot ` set us"
    by (rule list_invE)
  let ?S = "th_slot ` set us" and ?N = "{..<MP_THREAD_MAXIMUM_USER_THREADS}"
  have card: "card ?S = length us"
    using distinct_card [OF s(3)] by simp
  have sub: "?S \<subseteq> ?N" using s(5) by auto
  have "0 \<le> mp_thread_find_stack_slot s \<longleftrightarrow> (\<exists>i < MP_THREAD_MAXIMUM_USER_THREADS. \<not> stack_slot s ! i)"
    using s(4) by (auto simp: mp_thread_find_stack_slot_def find_slot_from_nonneg in_set_conv_nth)
  also have "\<dots> \<longleftrightarrow> ?S \<noteq> ?N"
    using s(5) sub by (auto simp del: image_subset_iff)
  also have "\<dots> \<longleftrightarrow> card ?S < card ?N"
    using sub psubset_card_mono [of ?N ?S] by (auto simp: psubset_eq)
  finally show ?thesis using s(2) card by simp
qed

lemma find_slot_least:
  assumes "list_inv main s" and "0 \<le> mp_thread_find_stack_slot s"
  shows "\<forall>j < nat (mp_thread_find_stack_slot s). j \<in> th_slot ` set (users s)"
proof (intro allI impI)
  fix j assume j: "j < nat (mp_thread_find_stack_slot s)"
  obtain i where i: "i < length (stack_slot s)" "mp_thread_find_stack_slot s = int i" "\<forall>l<i. stack_slot s ! l"
    using find_slot_from_free [of 0 "stack_slot s"] assms(2) by (auto simp: mp_thread_find_stack_slot_def)
  with j have "j < MP_THREAD_MAXIMUM_USER_THREADS \<and> stack_slot s ! j"
    using assms(1) by (simp add: list_inv_def)
  then show "j \<in> th_slot ` set (users s)"
    using assms(1) by (elim list_invE) simp
qed

lemma create_locked_effect:
  assumes l: "list_inv main s" and k: "kernel_inv K False s k" and th: "th \<noteq> 0"
  shows "\<exists>r s' k'. create_locked K th entry arg priority name s k = Some (r, s', k') \<and>
    (if length (users s) < MP_THREAD_MAXIMUM_USER_THREADS
     then \<exists>i. r = Inr (th, k_stack_size K i - 1024) \<and> i < MP_THREAD_MAXIMUM_USER_THREADS \<and>
       i \<notin> th_slot ` set (users s) \<and> (\<forall>j<i. j \<in> th_slot ` set (users s)) \<and>
       map th_id (thread s') = th # map th_id (thread s) \<and>
       k' = k_name K th name (k_create K i th entry arg priority k)
     else r = Inl ''maximum number of threads reached'' \<and> thread s' = thread s \<and> k' = k)"
proof -
  from k have m: "thread_mutex s = 1" by (simp add: kernel_inv_def)
  have f: "mp_thread_find_stack_slot (s\<lparr>thread_mutex := m\<rparr>) = mp_thread_find_stack_slot s" for m
    by (simp add: mp_thread_find_stack_slot_def)
  show ?thesis
  proof (cases "0 \<le> mp_thread_find_stack_slot s")
    case True
    note free = find_stack_slot_free [OF l True]
    have "length (stack_slot s) = MP_THREAD_MAXIMUM_USER_THREADS" using l by (simp add: list_inv_def)
    then show ?thesis
      using True free find_slot_least [OF l True] th m find_slot_iff [OF l]
      by (auto simp: create_locked_def lock_def mp_thread_mutex_lock_def f Let_def)
  next
    case False
    then show ?thesis
      using m find_slot_iff [OF l] by (auto simp: create_locked_def lock_def mp_thread_mutex_lock_def f Let_def)
  qed
qed

text \<open>
  Claim C20.  Creating a thread first collects the nodes of threads that are finished and have
  left the kernel.  If fewer than four user threads remain it succeeds: the new thread runs on
  the lowest stack none of them uses and its node heads the list; otherwise the exception is
  raised, nothing is created and the kernel is as before.
\<close>

theorem mp_thread_create_reuses:
  assumes "kernel_ok K" and "mp_reach K main (s, k, False)" and "th \<noteq> 0" "th \<notin> th_id ` set (thread s)"
  shows "\<exists>r s' k'. mp_thread_create_ex K cur th entry arg priority name s k = Some (r, s', k') \<and>
    (let live = filter (\<lambda>t. \<not> gone K k t) (users s)
     in if length live < MP_THREAD_MAXIMUM_USER_THREADS
        then \<exists>i. r = Inr (th, k_stack_size K i - 1024) \<and> i < MP_THREAD_MAXIMUM_USER_THREADS \<and>
          i \<notin> th_slot ` set live \<and> (\<forall>j<i. j \<in> th_slot ` set live) \<and> k_runs K k' th i \<and>
          map th_id (thread s') = th # map th_id live @ [main]
        else r = Inl ''maximum number of threads reached'' \<and> k' = k \<and>
          map th_id (thread s') = map th_id live @ [main])"
proof -
  from reach_inv [OF assms(2,1)] have l: "list_inv main s" and k: "kernel_inv K False s k"
    by (simp_all add: conf_inv_def)
  obtain s1 where g: "mp_thread_gc_others K cur s k = Some (gc_roots cur (thread s1), s1)"
      and t1: "thread s1 = map unmark (filter (\<lambda>th. \<not> gone K k th) (thread s))"
      and l1: "list_inv main s1" and k1: "kernel_inv K False s1 k"
    using gc_others_effect [OF l k, of cur] by blast
  let ?live = "filter (\<lambda>th. \<not> gone K k th) (users s)"
  have u: "users s1 = map unmark ?live" and i: "map th_id (thread s1) = map th_id ?live @ [main]"
    using l by (simp_all add: t1 users_unmark_keep comp_def list_inv_def)
  have sl: "th_slot ` set (users s1) = th_slot ` set ?live"
    by (simp add: u image_image)
  have n: "length (users s1) = length ?live" by (simp add: u)
  have run: "k_runs K (k_name K th name (k_create K i th entry arg priority k)) th i" for i
    by (simp add: k_runs_name [OF assms(1)] k_runs_create [OF assms(1)])
  obtain r s' k' where c: "create_locked K th entry arg priority name s1 k = Some (r, s', k')"
    and e: "if length ?live < MP_THREAD_MAXIMUM_USER_THREADS
     then \<exists>i. r = Inr (th, k_stack_size K i - 1024) \<and> i < MP_THREAD_MAXIMUM_USER_THREADS \<and>
       i \<notin> th_slot ` set ?live \<and> (\<forall>j<i. j \<in> th_slot ` set ?live) \<and>
       map th_id (thread s') = th # map th_id ?live @ [main] \<and>
       k' = k_name K th name (k_create K i th entry arg priority k)
     else r = Inl ''maximum number of threads reached'' \<and> thread s' = thread s1 \<and> k' = k"
    using create_locked_effect [OF l1 k1 assms(3), of entry arg priority name] unfolding sl n i by blast
  have "mp_thread_create_ex K cur th entry arg priority name s k = Some (r, s', k')"
    using g c by (simp add: mp_thread_create_ex_def)
  then show ?thesis
    using e run i by (auto simp: Let_def split: if_splits)
qed

text \<open>The threads that have marked themselves finished but not yet left the kernel.\<close>

abbreviation late :: "'k kernel \<Rightarrow> mp_threads \<Rightarrow> 'k \<Rightarrow> mp_thread list" where
  "late K s k \<equiv> filter (\<lambda>th. th_status th = MP_THREAD_STATUS_FINISHED \<and> th_id th \<in> set (k_list K k)) (users s)"

lemma k_list_aborts:
  "kernel_ok K \<Longrightarrow> set (k_list K (fold (k_abort K) ts k)) = set (k_list K k) - set ts"
  by (induction ts arbitrary: k) (auto simp: kernel_ok_def)

lemma deinit_users:
  assumes l: "list_inv main s" and K: "kernel_ok K"
    and d: "mp_thread_deinit K main s k = Some (s1, k1)"
  defines "f \<equiv> \<lambda>th. if th_id th \<noteq> main then th\<lparr>th_status := MP_THREAD_STATUS_FINISHED\<rparr> else th"
  shows "filter (\<lambda>th. \<not> gone K k1 th) (users s1) = map f (late K s k)"
proof -
  let ?ab = "map th_id (filter (\<lambda>th. th_id th \<noteq> main \<and> th_status th \<noteq> MP_THREAD_STATUS_FINISHED) (thread s))"
  from l obtain us m where s: "thread s = us @ [m]" "users s = us" "th_id m = main" "distinct (map th_id (us @ [m]))"
    by (rule list_invE)
  from d have t1: "thread s1 = map f (thread s)" and kk: "k1 = fold (k_abort K) ?ab k"
    by (auto simp: mp_thread_deinit_def lock_Some deinit_loop_eq f_def elim!: bind_SomeE)
  have keep: "\<not> gone K k1 (f th) \<longleftrightarrow> th_status th = MP_THREAD_STATUS_FINISHED \<and> th_id th \<in> set (k_list K k)"
    if "th \<in> set us" for th
  proof -
    have ne: "th_id th \<noteq> main" using that s(3,4) by (auto simp: image_iff)
    moreover have "th_id th \<in> set ?ab \<longleftrightarrow> th_status th \<noteq> MP_THREAD_STATUS_FINISHED"
      using that s ne by (auto simp: distinct_map dest: inj_onD intro!: imageI)
    ultimately show ?thesis
      by (auto simp: gone_def kk f_def k_list_aborts [OF K] simp del: set_map set_filter)
  qed
  have "users s1 = map f us" using t1 s(1) by simp
  then show ?thesis
    unfolding s(2) using keep by (simp only:) (intro filter_map_cong, blast)
qed

lemma soft_reset_effect:
  assumes l: "list_inv main s" and k: "kernel_inv K False s k" and K: "kernel_ok K"
  shows "\<exists>s' k'. soft_reset_threads K main s k = Some (s', k') \<and> list_inv main s' \<and> kernel_inv K False s' k' \<and>
    map th_id (users s') = map th_id (late K s k) \<and> map th_slot (users s') = map th_slot (late K s k)"
proof -
  let ?f = "\<lambda>th. if th_id th \<noteq> main then th\<lparr>th_status := MP_THREAD_STATUS_FINISHED\<rparr> else th"
  obtain s1 k1 where d: "mp_thread_deinit K main s k = Some (s1, k1)"
    using k by (simp add: mp_thread_deinit_def lock_def mp_thread_mutex_lock_def kernel_inv_def deinit_loop_eq)
  from deinit_inv [OF l k K d] have l1: "list_inv main s1" and ki: "kernel_inv K False s1 k1" by auto
  obtain s2 where g: "mp_thread_gc_others K main s1 k1 = Some (gc_roots main (thread s2), s2)"
      and t2: "thread s2 = map unmark (filter (\<lambda>th. \<not> gone K k1 th) (thread s1))"
      and l2: "list_inv main s2" and k2: "kernel_inv K False s2 k1"
    using gc_others_effect [OF l1 ki, of main] by blast
  have u: "users s2 = map unmark (map ?f (late K s k))"
    by (simp only: t2 users_unmark_keep [OF l1] deinit_users [OF l K d] butlast_snoc)
  have f: "th_id \<circ> unmark \<circ> ?f = th_id" "th_slot \<circ> unmark \<circ> ?f = th_slot"
    by (auto simp: fun_eq_iff)
  have "map th_id (users s2) = map th_id (late K s k) \<and> map th_slot (users s2) = map th_slot (late K s k)"
    unfolding u map_map comp_assoc [symmetric] f by simp
  moreover have "soft_reset_threads K main s k = Some (s2, k1)"
    using d g by (simp add: soft_reset_threads_def)
  ultimately show ?thesis
    using l2 k2 by blast
qed

text \<open>
  A soft reset takes every user thread out of the list and frees all four stacks,
  unless a thread had already marked itself finished but not yet left the kernel: exactly the
  nodes of those stay linked, although their memory is freed with the heap.
\<close>

lemma mp_soft_reset_nodes:
  assumes "kernel_ok K" and "mp_reach K main (s, k, False)"
  shows "\<exists>s' k'. soft_reset_threads K main s k = Some (s', k') \<and>
    map th_id (thread s') = map th_id (late K s k) @ [main] \<and>
    (\<forall>i < MP_THREAD_MAXIMUM_USER_THREADS. stack_slot s' ! i \<longleftrightarrow> i \<in> th_slot ` set (late K s k)) \<and>
    unat (mp_thread_counter s') = length (late K s k) \<and>
    (\<forall>t i. k_runs K k' t i \<longrightarrow> t \<in> th_id ` set (late K s k))"
proof -
  from reach_inv [OF assms(2,1)] have l: "list_inv main s" and k: "kernel_inv K False s k"
    by (simp_all add: conf_inv_def)
  obtain s' k' where r: "soft_reset_threads K main s k = Some (s', k')"
      and l': "list_inv main s'" and k': "kernel_inv K False s' k'"
      and ids: "map th_id (users s') = map th_id (late K s k)" and sl: "map th_slot (users s') = map th_slot (late K s k)"
    using soft_reset_effect [OF l k assms(1)] by blast
  have im: "th_slot ` set (users s') = th_slot ` set (late K s k)" "th_id ` set (users s') = th_id ` set (late K s k)"
    using arg_cong [OF sl, of set] arg_cong [OF ids, of set] by simp_all
  have n: "length (users s') = length (late K s k)"
    using arg_cong [OF ids, of length] by simp
  have "map th_id (thread s') = map th_id (late K s k) @ [main]"
    unfolding ids [symmetric] using l' by (elim list_invE) simp
  moreover have "\<forall>i < MP_THREAD_MAXIMUM_USER_THREADS. stack_slot s' ! i \<longleftrightarrow> i \<in> th_slot ` set (late K s k)"
    using l' unfolding im(1) [symmetric] by (auto elim!: list_invE)
  moreover have "unat (mp_thread_counter s') = length (late K s k)"
    using users_le [OF l'] l' n by (simp add: list_inv_def MP_THREAD_MAXIMUM_USER_THREADS_def unat_of_nat)
  moreover have "t \<in> th_id ` set (late K s k)" if "k_runs K k' t i" for t i
    unfolding im(2) [symmetric] using k' that by (auto simp: kernel_inv_def)
  ultimately show ?thesis
    using r by blast
qed

section \<open>A kernel and an execution\<close>

text \<open>A kernel as a list of thread ids with the stack slot each runs on.\<close>

definition ex_kernel :: "(tid \<times> nat option) list kernel" where
  "ex_kernel =
     \<lparr>k_list = map fst,
      k_slot = (\<lambda>k t. case map_of k t of None \<Rightarrow> None | Some x \<Rightarrow> x),
      k_create = (\<lambda>i t entry arg prio k. (t, Some i) # k),
      k_abort = (\<lambda>t k. filter (\<lambda>p. fst p \<noteq> t) k),
      k_name = (\<lambda>t n k. k),
      k_data = (\<lambda>k t. 0), k_set_data = (\<lambda>t d k. k),
      k_stack = (\<lambda>i. 0x20000000 + 5120 * of_nat i),
      k_stack_size = (\<lambda>i. 5120)\<rparr>"

lemma map_of_filter_other: "t' \<noteq> t \<Longrightarrow> map_of (filter (\<lambda>p. fst p \<noteq> t) k) t' = map_of k t'"
  by (induction k) auto

lemma ex_kernel_ok: "kernel_ok ex_kernel"
  by (auto simp: kernel_ok_def ex_kernel_def map_of_filter_other fun_eq_iff)

definition ex_node :: "tid \<Rightarrow> mp_thread_status \<Rightarrow> nat \<Rightarrow> mp_thread" where
  "ex_node t st i = \<lparr>th_id = t, th_status = st, th_alive = False, th_slot = i, th_arg = 7,
     th_stack = 0x20000000 + 5120 * of_nat i, th_stack_len = 1280\<rparr>"

definition ex_main :: mp_thread where
  "ex_main = \<lparr>th_id = 1, th_status = MP_THREAD_STATUS_READY, th_alive = True, th_slot = 0, th_arg = 0,
     th_stack = 0x1000, th_stack_len = 64\<rparr>"

text \<open>Two threads are created; the first starts, and the second finishes but is still listed.\<close>

definition ex_threads :: mp_threads where
  "ex_threads = \<lparr>thread_mutex = 1,
     thread = [ex_node 200 MP_THREAD_STATUS_FINISHED 1, ex_node 100 MP_THREAD_STATUS_READY 0, ex_main],
     mp_thread_counter = 2, stack_slot = [True, True, False, False]\<rparr>"

definition ex_k :: "(tid \<times> nat option) list" where
  "ex_k = [(200, Some 1), (100, Some 0), (1, None)]"

lemmas ex_mp_eval = ex_kernel_def ex_node_def ex_main_def lock_def unlock_def mp_thread_mutex_lock_def
  mp_thread_mutex_unlock_def mp_thread_find_stack_slot_def Let_def

lemma ex_mp_reach: "mp_reach ex_kernel 1 (ex_threads, ex_k, False)"
proof -
  let ?s0 = "\<lparr>thread_mutex = 1, thread = [ex_main], mp_thread_counter = 0, stack_slot = [False, False, False, False]\<rparr>"
  let ?s1 = "\<lparr>thread_mutex = 1, thread = [ex_node 100 MP_THREAD_STATUS_CREATED 0, ex_main],
    mp_thread_counter = 1, stack_slot = [True, False, False, False]\<rparr>"
  let ?s2 = "?s1\<lparr>thread := [ex_node 100 MP_THREAD_STATUS_READY 0, ex_main]\<rparr>"
  let ?s3 = "\<lparr>thread_mutex = 1, thread = [ex_node 200 MP_THREAD_STATUS_CREATED 1, ex_node 100 MP_THREAD_STATUS_READY 0, ex_main],
    mp_thread_counter = 2, stack_slot = [True, True, False, False]\<rparr>"
  have "mp_reach ex_kernel 1 (?s0, [(1, None)], False)"
    by (rule reach_init [where main_state = 0 and stack = "0x1000" and stack_len = 64 and k = "[(1, None)]"])
      (simp_all add: k_runs_def mp_thread_init_def mp_thread_set_state_def mp_thread_static_def ex_mp_eval mp_thread_mutex_init_def
        MP_THREAD_MAXIMUM_USER_THREADS_def numeral_eq_Suc)
  moreover have "mp_step ex_kernel 1 (?s0, [(1, None)], False) (?s1, [(100, Some 0), (1, None)], False)"
    by (rule step_create [where th = 100 and entry = 3 and arg = 7 and priority = 0 and name = "''t''" and r = "Inr (100, 4096)"])
      (simp_all add: create_locked_def ex_mp_eval)
  moreover have "mp_step ex_kernel 1 (?s1, [(100, Some 0), (1, None)], False) (?s2, [(100, Some 0), (1, None)], False)"
    by (rule step_start [where cur = 100]) (simp add: mp_thread_start_def ex_mp_eval)
  moreover have "mp_step ex_kernel 1 (?s2, [(100, Some 0), (1, None)], False) (?s3, ex_k, False)"
    by (rule step_create [where th = 200 and entry = 3 and arg = 7 and priority = 0 and name = "''t''" and r = "Inr (200, 4096)"])
      (simp_all add: create_locked_def ex_mp_eval ex_k_def)
  moreover have "mp_step ex_kernel 1 (?s3, ex_k, False) (ex_threads, ex_k, False)"
    by (rule step_finish [where cur = 200]) (simp_all add: mp_thread_finish_def ex_mp_eval ex_threads_def)
  ultimately show ?thesis
    by (blast intro: reach_step)
qed

lemma mp_stacks_never_shared_witness:
  "k_runs ex_kernel ex_k 100 0 \<and> k_runs ex_kernel ex_k 200 1 \<and> stack_slot ex_threads ! 0 \<and>
   length (thread ex_threads) \<le> 5"
proof -
  have "k_runs ex_kernel ex_k 100 0" "k_runs ex_kernel ex_k 200 1"
    by (simp_all add: k_runs_def ex_kernel_def ex_k_def)
  with mp_stacks_never_shared [OF ex_kernel_ok ex_mp_reach] show ?thesis
    by (auto simp: MP_THREAD_MAXIMUM_USER_THREADS_def)
qed

text \<open>Before the second thread has left the kernel a third gets slot 2; both live on.\<close>

lemma mp_thread_create_reuses_witness:
  "\<exists>s' k'. mp_thread_create_ex ex_kernel 1 300 3 7 0 ''u'' ex_threads ex_k = Some (Inr (300, 4096), s', k') \<and>
    map th_id (thread s') = [300, 200, 100, 1] \<and> k_runs ex_kernel k' 300 2"
proof -
  have live: "filter (\<lambda>t. \<not> gone ex_kernel ex_k t) (users ex_threads) = users ex_threads"
    by (simp add: gone_def ex_threads_def ex_mp_eval ex_k_def)
  have u: "users ex_threads = [ex_node 200 MP_THREAD_STATUS_FINISHED 1, ex_node 100 MP_THREAD_STATUS_READY 0]"
    by (simp add: ex_threads_def)
  have i: "i = 2" if "i < 4" "i \<notin> {1, 0}" "\<forall>j<i. j \<in> {1, 0}" for i :: nat
  proof -
    from that have "\<not> 2 < i" by auto
    with that(2) show ?thesis by auto
  qed
  have sl: "th_slot ` set (users ex_threads) = {1, 0}" and ids: "map th_id (users ex_threads) = [200, 100]"
    by (simp_all add: u ex_node_def)
  have fresh: "(300 :: tid) \<notin> th_id ` set (thread ex_threads)"
    by (simp add: ex_threads_def ex_node_def ex_main_def)
  obtain r s' k' j where c: "mp_thread_create_ex ex_kernel 1 300 3 7 0 ''u'' ex_threads ex_k = Some (r, s', k')"
    and r: "r = Inr (300, k_stack_size ex_kernel j - 1024)" "j < 4" "j \<notin> {1, 0}" "\<forall>l<j. l \<in> {1, 0}"
      "k_runs ex_kernel k' 300 j" "map th_id (thread s') = 300 # [200, 100] @ [1]"
    using mp_thread_create_reuses [OF ex_kernel_ok ex_mp_reach _ fresh, of 1 3 7 0 "''u''"]
    unfolding live Let_def sl ids by (auto simp: u MP_THREAD_MAXIMUM_USER_THREADS_def)
  from c r(1,5,6) show ?thesis
    unfolding i [OF r(2-4)] by (simp add: ex_kernel_def)
qed

text \<open>The second thread is finished but still listed: its node survives the reset.\<close>

lemma mp_soft_reset_nodes_witness:
  "\<exists>s' k'. soft_reset_threads ex_kernel 1 ex_threads ex_k = Some (s', k') \<and>
    map th_id (thread s') = [200, 1] \<and> unat (mp_thread_counter s') = 1"
proof -
  have "filter (\<lambda>th. th_status th = MP_THREAD_STATUS_FINISHED \<and> th_id th \<in> set (k_list ex_kernel ex_k)) (users ex_threads) =
      [ex_node 200 MP_THREAD_STATUS_FINISHED 1]"
    by (simp add: ex_threads_def ex_mp_eval ex_k_def)
  with mp_soft_reset_nodes [OF ex_kernel_ok ex_mp_reach] show ?thesis
    by (auto simp: Let_def ex_node_def)
qed

end
