(* ===== verification/Mp_Base.thy ===== *)
theory Mp_Base
  imports Sdkz_Prelude
begin

text \<open>
  What the MicroPython bindings share: the Python values they take and return, the exceptions
  they raise, and the growable strings (\<open>vstr_t\<close>) they build paths in.  A binding returns
  \<open>mp_exc + value\<close> with the new state.

  A \<open>vstr\<close> keeps its whole buffer, so that a pointer into it can be followed after later
  writes: \<open>vid\<close> names the memory block, which changes when the buffer has to grow.  How
  far it grows is a parameter of the definitions, since the string library is not part of the
  repository; \<open>grow_ok\<close> says that it grows far enough.
\<close>

named_theorems vstr_simps \<open>rules that evaluate growable strings\<close>

section \<open>Values and exceptions\<close>

datatype mp_obj =
    Mp_Null
  | Mp_None
  | Mp_Bool bool
  | Mp_Int int
  | Mp_Str bytes
  | Mp_Bytes bytes
  | Mp_Tuple "mp_obj list"
  | Mp_List "mp_obj list"

text \<open>\<open>Mp_Null\<close> is the null object pointer, which is not a Python value.
  An \<open>OSError\<close> holds an error number, or a text with a path and the number in it.\<close>

datatype mp_exc =
    OSError int
  | OSError_msg string bytes int
  | ValueError string
  | TypeError string
  | RuntimeError string
  | NotImplementedError string

text \<open>Conversions of arguments: an integer (or truth value), a string, a pair.\<close>

definition mp_obj_get_int :: "mp_obj \<Rightarrow> mp_exc + int" where
  "mp_obj_get_int v =
     (case v of Mp_Int i \<Rightarrow> Inr i | Mp_Bool b \<Rightarrow> Inr (if b then 1 else 0)
      | _ \<Rightarrow> Inl (TypeError ''can't convert to int''))"

definition mp_obj_get_bytes :: "mp_obj \<Rightarrow> mp_exc + bytes" where
  "mp_obj_get_bytes v =
     (case v of Mp_Str s \<Rightarrow> Inr s | Mp_Bytes s \<Rightarrow> Inr s | _ \<Rightarrow> Inl (TypeError ''can't convert to str''))"

definition mp_obj_get_pair :: "mp_obj \<Rightarrow> mp_exc + mp_obj \<times> mp_obj" where
  "mp_obj_get_pair v =
     (case v of
        Mp_Tuple xs \<Rightarrow> (case xs of [a, b] \<Rightarrow> Inr (a, b) | _ \<Rightarrow> Inl (ValueError ''requested length 2''))
      | Mp_List xs \<Rightarrow> (case xs of [a, b] \<Rightarrow> Inr (a, b) | _ \<Rightarrow> Inl (ValueError ''requested length 2''))
      | _ \<Rightarrow> Inl (TypeError ''object isn't a tuple or list''))"

text \<open>Sequencing of computations that may raise.\<close>

definition sbind :: "'e + 'a \<Rightarrow> ('a \<Rightarrow> 'e + 'b) \<Rightarrow> 'e + 'b" where
  "sbind m f = (case m of Inl e \<Rightarrow> Inl e | Inr x \<Rightarrow> f x)"

lemma sbind_simps [simp]: "sbind (Inl e) f = Inl e" "sbind (Inr x) f = f x"
  by (simp_all add: sbind_def)

lemma sbind_Inr: "sbind m f = Inr y \<longleftrightarrow> (\<exists>x. m = Inr x \<and> f x = Inr y)"
  by (cases m) auto

text \<open>The characters of a Python string up to the first NUL, as a C function sees them.\<close>

definition c_str :: "bytes \<Rightarrow> bytes" where "c_str s = takeWhile (\<lambda>b. b \<noteq> 0) s"

lemma c_str_no_nul [simp]: "0 \<notin> set (c_str s)"
  by (auto simp: c_str_def dest: set_takeWhileD)

lemma c_str_id [simp]: "0 \<notin> set s \<Longrightarrow> c_str s = s"
  by (auto simp: c_str_def takeWhile_eq_all_conv)

section \<open>Growable strings\<close>

record vstr =
  vbuf :: bytes
  vlen :: nat
  vid :: nat

definition vstr_ok :: "vstr \<Rightarrow> bool" where "vstr_ok v \<longleftrightarrow> vlen v \<le> length (vbuf v)"

definition vstr_str :: "vstr \<Rightarrow> bytes" where "vstr_str v = take (vlen v) (vbuf v)"

definition vstr_init :: "nat \<Rightarrow> vstr" where
  "vstr_init n = \<lparr>vbuf = replicate n 0, vlen = 0, vid = 0\<rparr>"

definition vstr_ensure :: "(nat \<Rightarrow> nat) \<Rightarrow> nat \<Rightarrow> vstr \<Rightarrow> vstr" where
  "vstr_ensure g n v =
     (if n > length (vbuf v)
      then v\<lparr>vbuf := vbuf v @ replicate (g n - length (vbuf v)) 0, vid := vid v + 1\<rparr> else v)"

definition vstr_add :: "(nat \<Rightarrow> nat) \<Rightarrow> bytes \<Rightarrow> vstr \<Rightarrow> vstr" where
  "vstr_add g s v =
     (let v = vstr_ensure g (vlen v + length s) v
      in v\<lparr>vbuf := take (vlen v) (vbuf v) @ s @ drop (vlen v + length s) (vbuf v),
           vlen := vlen v + length s\<rparr>)"

definition vstr_null_terminated :: "(nat \<Rightarrow> nat) \<Rightarrow> vstr \<Rightarrow> vstr" where
  "vstr_null_terminated g v =
     (let v = vstr_ensure g (vlen v + 1) v in v\<lparr>vbuf := (vbuf v)[vlen v := 0]\<rparr>)"

definition vstr_cut_out_bytes :: "nat \<Rightarrow> nat \<Rightarrow> vstr \<Rightarrow> vstr" where
  "vstr_cut_out_bytes pos n v =
     (let r = take pos (vstr_str v) @ drop (pos + n) (vstr_str v)
      in v\<lparr>vbuf := r @ drop (length r) (vbuf v), vlen := length r\<rparr>)"

definition grow_ok :: "(nat \<Rightarrow> nat) \<Rightarrow> bool" where "grow_ok g \<longleftrightarrow> (\<forall>n. n \<le> g n)"

text \<open>The string at the start of a vstr's block, as a pointer taken earlier sees it.\<close>

definition vstr_deref :: "vstr \<Rightarrow> nat \<Rightarrow> bytes option" where
  "vstr_deref v p = (if p = vid v then cstr_at (vbuf v) 0 else None)"

section \<open>Their contents\<close>

lemma vstr_init_ok [vstr_simps, simp]: "vstr_ok (vstr_init n)" "vstr_str (vstr_init n) = []" "vlen (vstr_init n) = 0"
  by (simp_all add: vstr_init_def vstr_ok_def vstr_str_def)

lemma vstr_ensure_props [vstr_simps]:
  "vlen (vstr_ensure g n v) = vlen v" "vstr_ok v \<Longrightarrow> vstr_str (vstr_ensure g n v) = vstr_str v"
  "vstr_ok v \<Longrightarrow> vstr_ok (vstr_ensure g n v)"
  by (auto simp: vstr_ensure_def vstr_ok_def vstr_str_def)

lemma vstr_ensure_length: "grow_ok g \<Longrightarrow> n \<le> length (vbuf (vstr_ensure g n v))"
  by (auto simp: vstr_ensure_def grow_ok_def le_diff_conv intro: le_trans)

lemma vstr_add_props [vstr_simps, simp]:
  assumes "grow_ok g" "vstr_ok v"
  shows "vstr_ok (vstr_add g s v)" "vstr_str (vstr_add g s v) = vstr_str v @ s"
    "vlen (vstr_add g s v) = vlen v + length s"
proof -
  let ?v = "vstr_ensure g (vlen v + length s) v"
  have l: "vlen v + length s \<le> length (vbuf ?v)"
    using assms(1) by (rule vstr_ensure_length)
  have t: "take (vlen v) (vbuf ?v) = vstr_str v"
    using vstr_ensure_props(1,2) [where v = v and g = g] assms(2) by (simp add: vstr_str_def)
  have n: "length (vstr_str v) = vlen v"
    using assms(2) by (simp add: vstr_str_def vstr_ok_def)
  show "vstr_ok (vstr_add g s v)" "vlen (vstr_add g s v) = vlen v + length s"
      "vstr_str (vstr_add g s v) = vstr_str v @ s"
    using l t n by (simp_all add: vstr_add_def Let_def vstr_ensure_props(1) vstr_ok_def vstr_str_def)
qed

lemma vstr_add_block:
  "vlen v + length s \<le> length (vbuf v) \<Longrightarrow>
   vid (vstr_add g s v) = vid v \<and> length (vbuf (vstr_add g s v)) = length (vbuf v)"
  by (simp add: vstr_add_def vstr_ensure_def)

lemma vstr_null_props [vstr_simps, simp]:
  assumes "grow_ok g" "vstr_ok v"
  shows "vstr_ok (vstr_null_terminated g v)" "vstr_str (vstr_null_terminated g v) = vstr_str v"
    "vlen (vstr_null_terminated g v) = vlen v"
  using assms(2) vstr_ensure_props [where v = v and g = g]
  by (auto simp: vstr_null_terminated_def Let_def vstr_ok_def vstr_str_def)

lemma vstr_null_block:
  "vlen v < length (vbuf v) \<Longrightarrow>
   vid (vstr_null_terminated g v) = vid v \<and> length (vbuf (vstr_null_terminated g v)) = length (vbuf v)"
  by (simp add: vstr_null_terminated_def vstr_ensure_def)

lemma vstr_null_vbuf:
  assumes "grow_ok g" "vstr_ok v"
  shows "\<exists>r. vbuf (vstr_null_terminated g v) = vstr_str v @ 0 # r"
proof -
  let ?v = "vstr_ensure g (vlen v + 1) v"
  have l: "vlen v + 1 \<le> length (vbuf ?v)"
    using assms(1) by (rule vstr_ensure_length)
  have t: "take (vlen v) (vbuf ?v) = vstr_str v"
    using vstr_ensure_props(1,2) [where v = v and g = g] assms(2) by (simp add: vstr_str_def)
  have "vbuf (vstr_null_terminated g v) = vstr_str v @ 0 # drop (vlen v + 1) (vbuf ?v)"
    using l t upd_conv_take_nth_drop [of "vlen v" "vbuf ?v"]
    by (simp add: vstr_null_terminated_def Let_def vstr_ensure_props(1))
  then show ?thesis ..
qed

lemma vstr_deref_null:
  assumes "grow_ok g" "vstr_ok v" "0 \<notin> set (vstr_str v)"
  shows "vstr_deref (vstr_null_terminated g v) (vid (vstr_null_terminated g v)) = Some (vstr_str v)"
  using vstr_null_vbuf [OF assms(1,2)] assms(3) by (auto simp: vstr_deref_def cstr_at_prefix)

text \<open>Setting the length back keeps the start of the string and the block.\<close>

lemma vstr_deref_vlen [simp]: "vstr_deref (v\<lparr>vlen := n\<rparr>) p = vstr_deref v p"
  by (simp add: vstr_deref_def)

lemma vstr_str_prefix:
  "vstr_ok v \<Longrightarrow> vstr_str v = a @ b \<Longrightarrow> vstr_str (v\<lparr>vlen := length a\<rparr>) = a \<and> vstr_ok (v\<lparr>vlen := length a\<rparr>)"
proof -
  assume v: "vstr_ok v" "vstr_str v = a @ b"
  then have "length (a @ b) = vlen v"
    by (metis length_take min.absorb2 vstr_ok_def vstr_str_def)
  then have l: "length a + length b = vlen v" by simp
  then have "take (length a) (vbuf v) = take (length a) (vstr_str v)"
    by (simp add: vstr_str_def min_def)
  also have "\<dots> = a" by (simp add: v(2))
  finally show ?thesis
    using v(1) l by (simp add: vstr_str_def vstr_ok_def)
qed

end
