(* ===== verification/Zephyr_Filesystem.thy ===== *)
theory Zephyr_Filesystem
  imports Mp_Base
begin

text \<open>
  The Python file system object on Zephyr's file system, after
  \<open>app/micropython/zephyr_filesystem.c\<close>: paths relative to a mount point and a current
  directory, files, directories, and mounting.

  Zephyr's file system is a parameter: a record of the calls the binding makes, each taking and
  returning the state \<open>'w\<close> of the file system.  A file or directory object is identified by
  the address of the structure the binding allocates for it.  A \<open>None\<close> would be a read
  through a pointer to a freed buffer.
\<close>

section \<open>The file system's interface\<close>

datatype fs_entry_type = FS_DIR_ENTRY_FILE | FS_DIR_ENTRY_DIR

record fs_dirent =
  d_type :: fs_entry_type
  d_name :: bytes
  d_size :: nat

record fs_stats =
  f_bsize :: nat
  f_frsize :: nat
  f_blocks :: nat
  f_bfree :: nat

record fs_mount_t =
  mnt_point :: bytes
  mnt_flags :: u8

type_synonym fs_obj = u32

record 'w fs_api =
  fs_open :: "fs_obj \<Rightarrow> bytes \<Rightarrow> u32 \<Rightarrow> 'w \<Rightarrow> int \<times> 'w"
  fs_close :: "fs_obj \<Rightarrow> 'w \<Rightarrow> int \<times> 'w"
  fs_read :: "fs_obj \<Rightarrow> nat \<Rightarrow> 'w \<Rightarrow> (int \<times> bytes) \<times> 'w"
  fs_write :: "fs_obj \<Rightarrow> bytes \<Rightarrow> 'w \<Rightarrow> int \<times> 'w"
  fs_seek :: "fs_obj \<Rightarrow> int \<Rightarrow> int \<Rightarrow> 'w \<Rightarrow> int \<times> 'w"
  fs_tell :: "fs_obj \<Rightarrow> 'w \<Rightarrow> int"
  fs_sync :: "fs_obj \<Rightarrow> 'w \<Rightarrow> int \<times> 'w"
  fs_opendir :: "fs_obj \<Rightarrow> bytes \<Rightarrow> 'w \<Rightarrow> int \<times> 'w"
  fs_readdir :: "fs_obj \<Rightarrow> 'w \<Rightarrow> (int \<times> fs_dirent) \<times> 'w"
  fs_closedir :: "fs_obj \<Rightarrow> 'w \<Rightarrow> int \<times> 'w"
  fs_mkdir :: "bytes \<Rightarrow> 'w \<Rightarrow> int \<times> 'w"
  fs_unlink :: "bytes \<Rightarrow> 'w \<Rightarrow> int \<times> 'w"
  fs_rename :: "bytes \<Rightarrow> bytes \<Rightarrow> 'w \<Rightarrow> int \<times> 'w"
  fs_stat :: "bytes \<Rightarrow> 'w \<Rightarrow> (int \<times> fs_dirent) \<times> 'w"
  fs_statvfs :: "bytes \<Rightarrow> 'w \<Rightarrow> (int \<times> fs_stats) \<times> 'w"
  fs_mount :: "fs_mount_t \<Rightarrow> 'w \<Rightarrow> int \<times> 'w"
  fs_unmount :: "fs_mount_t \<Rightarrow> 'w \<Rightarrow> int \<times> 'w"
  fs_mkfs :: "fs_mount_t \<Rightarrow> 'w \<Rightarrow> int \<times> 'w"
  fs_linked :: "fs_mount_t \<Rightarrow> 'w \<Rightarrow> bool"
  fs_known :: "fs_mount_t \<Rightarrow> 'w \<Rightarrow> bool"
  fs_max_name :: nat

definition FS_O_READ :: u32 where "FS_O_READ = 0x01"
definition FS_O_WRITE :: u32 where "FS_O_WRITE = 0x02"
definition FS_O_RDWR :: u32 where "FS_O_RDWR = 0x03"
definition FS_O_CREATE :: u32 where "FS_O_CREATE = 0x10"
definition FS_O_APPEND :: u32 where "FS_O_APPEND = 0x20"
definition FS_O_TRUNC :: u32 where "FS_O_TRUNC = 0x40"
definition FS_MOUNT_FLAG_AUTOMOUNT :: u8 where "FS_MOUNT_FLAG_AUTOMOUNT = 0x08"
definition MP_S_IFDIR :: int where "MP_S_IFDIR = 0x4000"
definition MP_S_IFREG :: int where "MP_S_IFREG = 0x8000"
definition MP_ENOTDIR :: int where "MP_ENOTDIR = 20"

lemmas fs_flag_defs = FS_O_READ_def FS_O_WRITE_def FS_O_RDWR_def FS_O_CREATE_def FS_O_APPEND_def FS_O_TRUNC_def

section \<open>Paths\<close>

record zephyr_fs_obj =
  fs_mnt :: fs_mount_t
  cur_dir :: vstr
  root_dir :: vstr

abbreviation SLASH :: u8 where "SLASH \<equiv> 47"
abbreviation DOT :: u8 where "DOT \<equiv> 46"

text \<open>
  The path is built at the end of \<open>root_dir\<close>, whose length is then set back: the result is
  a pointer to the buffer of \<open>root_dir\<close> itself.
\<close>

definition relative :: "bytes \<Rightarrow> bool" where
  "relative path \<longleftrightarrow> path = [] \<or> hd path \<noteq> SLASH"

definition trim_dot :: "bytes \<Rightarrow> bytes" where
  "trim_dot path =
     (let n = length path
      in if n > 0 \<and> (path ! (n - 1) = DOT \<and> (n = 1 \<or> path ! (n - 2) = SLASH)) then take (n - 1) path else path)"

definition zephyr_fs_make_path :: "(nat \<Rightarrow> nat) \<Rightarrow> zephyr_fs_obj \<Rightarrow> bytes \<Rightarrow> nat \<times> zephyr_fs_obj" where
  "zephyr_fs_make_path g self path_in =
     (let path = c_str path_in;
          l = vlen (root_dir self);
          r = root_dir self;
          r = (if relative path then
                 (let lc = vlen (cur_dir self); r = vstr_add g [SLASH] r
                  in vstr_add g (take lc (vbuf (cur_dir self))) r)
               else r);
          r = vstr_add g (trim_dot path) r;
          r = vstr_null_terminated g r
      in (vid r, self\<lparr>root_dir := r\<lparr>vlen := l\<rparr>\<rparr>))"

definition path_at :: "zephyr_fs_obj \<Rightarrow> nat \<Rightarrow> bytes option" where
  "path_at self p = vstr_deref (root_dir self) p"

section \<open>Files\<close>

text \<open>Stream calls return the result or an error code.\<close>

definition file_obj_read :: "'w fs_api \<Rightarrow> fs_obj \<Rightarrow> nat \<Rightarrow> 'w \<Rightarrow> (int + int \<times> bytes) \<times> 'w" where
  "file_obj_read api fp n w =
     (let ((err, buf), w) = fs_read api fp n w
      in if err < 0 then (Inl (- err), w) else (Inr (err, buf), w))"

definition file_obj_write :: "'w fs_api \<Rightarrow> fs_obj \<Rightarrow> bytes \<Rightarrow> 'w \<Rightarrow> (int + int) \<times> 'w" where
  "file_obj_write api fp buf w =
     (let (err, w) = fs_write api fp buf w in if err < 0 then (Inl (- err), w) else (Inr err, w))"

datatype stream_request = MP_STREAM_SEEK int int | MP_STREAM_FLUSH | MP_STREAM_CLOSE | MP_STREAM_OTHER

text \<open>A seek returns the new offset; the error code of a failed \<open>fs_tell\<close> is taken from
  the seek before it, as in the source.\<close>

definition file_obj_ioctl :: "'w fs_api \<Rightarrow> fs_obj \<Rightarrow> stream_request \<Rightarrow> 'w \<Rightarrow> (int + int) \<times> 'w" where
  "file_obj_ioctl api fp req w =
     (case req of
        MP_STREAM_SEEK offset whence \<Rightarrow>
          (let (err, w) = fs_seek api fp offset whence w
           in if err < 0 then (Inl (- err), w)
              else (let tell = fs_tell api fp w
                    in if tell < 0 then (Inl (- err), w) else (Inr tell, w)))
      | MP_STREAM_FLUSH \<Rightarrow>
          (let (err, w) = fs_sync api fp w in if err < 0 then (Inl (- err), w) else (Inr 0, w))
      | MP_STREAM_CLOSE \<Rightarrow>
          (let (err, w) = fs_close api fp w in if err < 0 then (Inl (- err), w) else (Inr 0, w))
      | MP_STREAM_OTHER \<Rightarrow> (Inl EINVAL, w))"

text \<open>The mode string: flags, the exclusive mark and whether the file is a text file.\<close>

fun open_mode :: "bytes \<Rightarrow> u32 \<Rightarrow> bool \<Rightarrow> bool \<Rightarrow> mp_exc + u32 \<times> bool \<times> bool" where
  "open_mode [] flags x_mode is_text = Inr (flags, x_mode, is_text)"
| "open_mode (c # cs) flags x_mode is_text =
     (let new_flags =
            (if c = 114 then FS_O_READ
             else if c = 119 then FS_O_WRITE OR FS_O_CREATE OR FS_O_TRUNC
             else if c = 120 then FS_O_WRITE
             else if c = 97 then FS_O_WRITE OR FS_O_CREATE OR FS_O_APPEND else 0);
          x_mode = (c = 120 \<or> x_mode);
          flags = (if c = 43 then flags OR FS_O_RDWR else flags);
          is_text = (if c = 98 then False else if c = 116 then True else is_text)
      in if new_flags \<noteq> 0
         then if flags \<noteq> 0 then Inl (ValueError '''') else open_mode cs new_flags x_mode is_text
         else open_mode cs flags x_mode is_text)"

text \<open>The result is the file's type and the address of its structure.\<close>

definition zephyr_fs_open ::
  "(nat \<Rightarrow> nat) \<Rightarrow> 'w fs_api \<Rightarrow> zephyr_fs_obj \<Rightarrow> bytes \<Rightarrow> bytes \<Rightarrow> fs_obj \<Rightarrow> 'w \<Rightarrow>
   ((mp_exc + bool \<times> fs_obj) \<times> zephyr_fs_obj \<times> 'w) option" where
  "zephyr_fs_open g api self path_in mode_in ob w =
     (let (p, self) = zephyr_fs_make_path g self path_in
      in case open_mode (c_str mode_in) 0 False True of
           Inl e \<Rightarrow> Some (Inl e, self, w)
         | Inr (flags, x_mode, is_text) \<Rightarrow> do {
             path \<leftarrow> path_at self p;
             let (err, w) = fs_open api ob path flags w;
             if x_mode \<and> \<not> err < 0 then
               (let (_, w) = fs_close api ob w
                in Some (Inl (OSError_msg ''file %s Already exists: %q'' path (- err)), self, w))
             else
               (let (err, w) = (if x_mode then fs_open api ob path (flags OR FS_O_CREATE) w else (err, w))
                in if err < 0 then Some (Inl (OSError_msg ''error opening file %s: %q'' path (- err)), self, w)
                   else Some (Inr (is_text, ob), self, w))
           })"

section \<open>Directories\<close>

definition dirent_obj :: "bool \<Rightarrow> fs_dirent \<Rightarrow> mp_obj" where
  "dirent_obj is_str d =
     Mp_Tuple [if is_str then Mp_Str (c_str (d_name d)) else Mp_Bytes (c_str (d_name d)),
       Mp_Int (if d_type d = FS_DIR_ENTRY_DIR then MP_S_IFDIR else MP_S_IFREG), Mp_Int 0, Mp_Int (int (d_size d))]"

text \<open>The next entry, or \<open>None\<close> at the end of the iteration.\<close>

definition ilistdir_iternext :: "'w fs_api \<Rightarrow> bool \<times> fs_obj \<Rightarrow> 'w \<Rightarrow> mp_obj option \<times> 'w" where
  "ilistdir_iternext api it w =
     (let ((err, stats), w) = fs_readdir api (snd it) w
      in if err < 0 \<or> c_str (d_name stats) = [] then (let (_, w) = fs_closedir api (snd it) w in (None, w))
         else (Some (dirent_obj (fst it) stats), w))"

definition ilistdir_del :: "'w fs_api \<Rightarrow> bool \<times> fs_obj \<Rightarrow> 'w \<Rightarrow> 'w" where
  "ilistdir_del api it w = (let (_, w) = fs_closedir api (snd it) w in w)"

text \<open>Listing: without an argument the path is empty, whatever the current directory.\<close>

definition zephyr_fs_ilistdir ::
  "(nat \<Rightarrow> nat) \<Rightarrow> 'w fs_api \<Rightarrow> zephyr_fs_obj \<Rightarrow> mp_obj option \<Rightarrow> fs_obj \<Rightarrow> 'w \<Rightarrow>
   ((mp_exc + bool \<times> fs_obj) \<times> zephyr_fs_obj \<times> 'w) option" where
  "zephyr_fs_ilistdir g api self arg it w = do {
     (is_str, path, self) \<leftarrow>
       (case arg of
          Some (Mp_Str s) \<Rightarrow> (let (p, self) = zephyr_fs_make_path g self s in do { path \<leftarrow> path_at self p; Some (True, path, self) })
        | Some (Mp_Bytes s) \<Rightarrow> (let (p, self) = zephyr_fs_make_path g self s in do { path \<leftarrow> path_at self p; Some (False, path, self) })
        | _ \<Rightarrow> Some (True, [], self));
     let (err, w) = fs_opendir api it path w;
     Some (if err < 0 then Inl (OSError_msg ''could not open directory %s: %q'' path (- err)) else Inr (is_str, it), self, w)
   }"

definition zephyr_fs_mkdir ::
  "(nat \<Rightarrow> nat) \<Rightarrow> 'w fs_api \<Rightarrow> zephyr_fs_obj \<Rightarrow> bytes \<Rightarrow> 'w \<Rightarrow> ((mp_exc + mp_obj) \<times> zephyr_fs_obj \<times> 'w) option" where
  "zephyr_fs_mkdir g api self path_o w =
     (let (p, self) = zephyr_fs_make_path g self path_o
      in do {
        path \<leftarrow> path_at self p;
        let (err, w) = fs_mkdir api path w;
        Some (if err < 0 then Inl (OSError_msg ''could not mkdir %s: %q'' path (- err)) else Inr Mp_None, self, w)
      })"

section \<open>The current directory\<close>

text \<open>
  The normalisation loop of \<open>chdir\<close> on the contents of its local string: \<open>to\<close> is
  the end of what is kept and \<open>from\<close> the read position.  Positions in the tests are inside
  the string.
\<close>

definition cut :: "nat \<Rightarrow> nat \<Rightarrow> bytes \<Rightarrow> bytes" where
  "cut pos n xs = take pos xs @ drop (pos + n) xs"

lemma length_cut: "length (cut pos n xs) = (if pos + n \<le> length xs then length xs - n else min pos (length xs))"
  by (auto simp: cut_def)

function skip_to :: "(u8 \<Rightarrow> bool) \<Rightarrow> bytes \<Rightarrow> nat \<Rightarrow> nat" where
  "skip_to P cwd from' = (if from' < length cwd \<and> P (cwd ! from') then skip_to P cwd (from' + 1) else from')"
  by pat_completeness auto
termination by (relation "measure (\<lambda>(P, cwd, i). length cwd - i)") auto

declare skip_to.simps [simp del]

lemma skip_to_ge: "i \<le> skip_to P cwd i"
proof (induction P cwd i rule: skip_to.induct)
  case (1 P cwd i)
  then show ?case by (subst skip_to.simps) auto
qed

lemma skip_to_le: "i \<le> length cwd \<Longrightarrow> skip_to P cwd i \<le> length cwd"
proof (induction P cwd i rule: skip_to.induct)
  case (1 P cwd i)
  then show ?case by (subst skip_to.simps) auto
qed

text \<open>Going back over the last element kept.\<close>

fun skip_back :: "bytes \<Rightarrow> nat \<Rightarrow> nat" where
  "skip_back cwd 0 = 0"
| "skip_back cwd (Suc to) = (if Suc to > 1 \<and> cwd ! to \<noteq> SLASH then skip_back cwd to else Suc to)"

lemma skip_back_le: "skip_back cwd to \<le> to"
  by (induction to) (auto intro: le_SucI)

text \<open>Leading slashes are cut out.\<close>

definition squeeze :: "bytes \<Rightarrow> nat \<Rightarrow> nat \<Rightarrow> bytes \<times> nat" where
  "squeeze cwd to from' =
     (let from1 = skip_to (\<lambda>c. c = SLASH) cwd from'
      in if from1 > to then (cut to (from1 - to) cwd, to) else (cwd, from1))"

lemma cut_progress: "to \<le> e \<Longrightarrow> length (cut to (e - to) xs) - to \<le> length xs - e"
  by (auto simp: length_cut)

lemma squeeze_progress:
  assumes "(cwd', from1) = squeeze cwd to from'" and "from' < length cwd"
  shows "length cwd' - (skip_to P cwd' from1 + 1) < length cwd - from'"
proof -
  let ?e = "skip_to (\<lambda>c. c = SLASH) cwd from'"
  have e: "from' \<le> ?e" "?e \<le> length cwd"
    using assms(2) by (simp_all add: skip_to_ge skip_to_le)
  have "from1 \<le> skip_to P cwd' from1" by (rule skip_to_ge)
  moreover have "length cwd' - from1 \<le> length cwd - from'"
    using assms(1) e cut_progress [of to ?e cwd]
    by (auto simp: squeeze_def Let_def split: if_splits)
  ultimately show ?thesis using assms(2) by linarith
qed

function chdir_loop :: "bytes \<Rightarrow> nat \<Rightarrow> nat \<Rightarrow> bytes" where
  "chdir_loop cwd to from' =
     (if from' < length cwd then
        (let (cwd, from1) = squeeze cwd to from';
             from2 = skip_to (\<lambda>c. c \<noteq> SLASH) cwd from1
         in if int from2 - int to = 1 \<and> cwd ! to = DOT then
              chdir_loop (cut to (from2 + 1 - to) cwd) to to
            else if int from2 - int to = 2 \<and> cwd ! to = DOT \<and> cwd ! (to + 1) = DOT then
              (let to' = (if to > 1 then skip_back cwd (to - 1) else to)
               in chdir_loop (cut to' (from2 + 1 - to') cwd) to' to')
            else chdir_loop cwd (from2 + 1) (from2 + 1))
      else cwd)"
  by pat_completeness auto
termination
proof (relation "measure (\<lambda>(cwd, to, from'). length cwd - from')", goal_cases)
  case 1
  then show ?case by simp
next
  case (2 cwd to from' p cwd' from1 from2)
  then show ?case
    using squeeze_progress [of cwd' from1 cwd to from' "\<lambda>c. c \<noteq> SLASH"] cut_progress [of to "from2 + 1" cwd']
    by auto
next
  case (3 cwd to from' p cwd' from1 from2 to')
  have "to' \<le> to"
    using 3(7) skip_back_le [of cwd' "to - 1"] by auto
  with 3 show ?case
    using squeeze_progress [of cwd' from1 cwd to from' "\<lambda>c. c \<noteq> SLASH"] cut_progress [of to' "from2 + 1" cwd']
    by auto
next
  case (4 cwd to from' p cwd' from1 from2)
  then show ?case
    using squeeze_progress [of cwd' from1 cwd to from' "\<lambda>c. c \<noteq> SLASH"] by simp
qed

declare chdir_loop.simps [simp del]

text \<open>The path is looked up, and becomes the current directory below the mount point.\<close>

definition chdir_string :: "zephyr_fs_obj \<Rightarrow> bytes \<Rightarrow> bytes" where
  "chdir_string self path =
     (let chdir = take (vlen (root_dir self)) (vbuf (root_dir self));
          chdir = (if relative path then (chdir @ [SLASH]) @ take (vlen (cur_dir self)) (vbuf (cur_dir self)) else chdir)
      in (chdir @ path) @ [SLASH])"

definition zephyr_fs_chdir ::
  "(nat \<Rightarrow> nat) \<Rightarrow> 'w fs_api \<Rightarrow> zephyr_fs_obj \<Rightarrow> bytes \<Rightarrow> 'w \<Rightarrow> (mp_exc + mp_obj) \<times> zephyr_fs_obj \<times> 'w" where
  "zephyr_fs_chdir g api self path_in w =
     (let path = c_str path_in;
          l = vlen (root_dir self);
          chdir = chdir_loop (chdir_string self path) 1 1;
          ((err, stats), w) = fs_stat api (c_str chdir) w;
          chdir = cut 0 (l + 1) chdir
      in if err < 0 then (Inl (OSError_msg ''could not chdir to %s: %q'' path (- err)), self, w)
         else if d_type stats \<noteq> FS_DIR_ENTRY_DIR then (Inl (OSError MP_ENOTDIR), self, w)
         else (Inr Mp_None, self\<lparr>cur_dir := vstr_add g chdir ((cur_dir self)\<lparr>vlen := 0\<rparr>)\<rparr>, w))"

text \<open>The current directory: a slash and the stored path, read from behind the mount point.\<close>

definition zephyr_fs_getcwd :: "(nat \<Rightarrow> nat) \<Rightarrow> zephyr_fs_obj \<Rightarrow> (mp_obj \<times> zephyr_fs_obj) option" where
  "zephyr_fs_getcwd g self =
     (if vlen (cur_dir self) = 0 then Some (Mp_Str [SLASH], self)
      else
        let l = vlen (root_dir self);
            lc = vlen (cur_dir self);
            r = vstr_add g [SLASH] (root_dir self);
            r = vstr_add g (take lc (vbuf (cur_dir self))) r;
            r = vstr_null_terminated g r
        in do {
          s \<leftarrow> cstr_at (vbuf r) l;
          Some (Mp_Str s, self\<lparr>root_dir := r\<lparr>vlen := l\<rparr>\<rparr>)
        })"

section \<open>Removing, renaming, inspecting\<close>

text \<open>The common part of \<open>rmdir\<close> and \<open>remove\<close>: the entry must not be of type \<open>bad\<close>.\<close>

definition unlink_unless ::
  "fs_entry_type \<Rightarrow> string \<Rightarrow> string \<Rightarrow> (nat \<Rightarrow> nat) \<Rightarrow> 'w fs_api \<Rightarrow> zephyr_fs_obj \<Rightarrow> bytes \<Rightarrow> 'w \<Rightarrow>
   ((mp_exc + mp_obj) \<times> zephyr_fs_obj \<times> 'w) option" where
  "unlink_unless bad refused failed g api self path_in w =
     (let (p, self) = zephyr_fs_make_path g self path_in
      in do {
        path \<leftarrow> path_at self p;
        let ((err, stats), w) = fs_stat api path w;
        if err < 0 then
          Some (Inl (OSError_msg ''error getting stats of Zephyr File System at %s: %q'' path (- err)), self, w)
        else if d_type stats = bad then Some (Inl (OSError_msg refused [] 0), self, w)
        else
          (let (err, w) = fs_unlink api path w
           in Some (if err < 0 then Inl (OSError_msg failed path (- err)) else Inr Mp_None, self, w))
      })"

definition zephyr_fs_rmdir ::
  "(nat \<Rightarrow> nat) \<Rightarrow> 'w fs_api \<Rightarrow> zephyr_fs_obj \<Rightarrow> bytes \<Rightarrow> 'w \<Rightarrow> ((mp_exc + mp_obj) \<times> zephyr_fs_obj \<times> 'w) option" where
  "zephyr_fs_rmdir =
     unlink_unless FS_DIR_ENTRY_FILE ''not for removing files'' ''error removing directory at %s: %q''"

definition zephyr_fs_remove ::
  "(nat \<Rightarrow> nat) \<Rightarrow> 'w fs_api \<Rightarrow> zephyr_fs_obj \<Rightarrow> bytes \<Rightarrow> 'w \<Rightarrow> ((mp_exc + mp_obj) \<times> zephyr_fs_obj \<times> 'w) option" where
  "zephyr_fs_remove =
     unlink_unless FS_DIR_ENTRY_DIR ''not for removing directories'' ''error removing file at %s: %q''"

text \<open>Both paths are built before either is used, in the same buffer.\<close>

definition zephyr_fs_rename ::
  "(nat \<Rightarrow> nat) \<Rightarrow> 'w fs_api \<Rightarrow> zephyr_fs_obj \<Rightarrow> bytes \<Rightarrow> bytes \<Rightarrow> 'w \<Rightarrow>
   ((mp_exc + mp_obj) \<times> zephyr_fs_obj \<times> 'w) option" where
  "zephyr_fs_rename g api self path_in path_out w =
     (let (old_p, self) = zephyr_fs_make_path g self path_in;
          (new_p, self) = zephyr_fs_make_path g self path_out
      in do {
        old_path \<leftarrow> path_at self old_p;
        new_path \<leftarrow> path_at self new_p;
        let (err, w) = fs_rename api old_path new_path w;
        Some (if err < 0 then Inl (OSError_msg ''error renaming file from %s to %s: %q'' old_path (- err))
              else Inr Mp_None, self, w)
      })"

datatype mp_import_stat_t = MP_IMPORT_STAT_NO_EXIST | MP_IMPORT_STAT_DIR | MP_IMPORT_STAT_FILE

definition zephyr_fs_import_stat ::
  "(nat \<Rightarrow> nat) \<Rightarrow> 'w fs_api \<Rightarrow> zephyr_fs_obj \<Rightarrow> bytes \<Rightarrow> 'w \<Rightarrow> (mp_import_stat_t \<times> zephyr_fs_obj \<times> 'w) option" where
  "zephyr_fs_import_stat g api self path w =
     (let (p, self) = zephyr_fs_make_path g self path
      in do {
        ppath \<leftarrow> path_at self p;
        let ((err, stats), w) = fs_stat api ppath w;
        Some (if err = 0 then (if d_type stats = FS_DIR_ENTRY_DIR then MP_IMPORT_STAT_DIR else MP_IMPORT_STAT_FILE)
              else MP_IMPORT_STAT_NO_EXIST, self, w)
      })"

definition zephyr_fs_stat ::
  "(nat \<Rightarrow> nat) \<Rightarrow> 'w fs_api \<Rightarrow> zephyr_fs_obj \<Rightarrow> bytes \<Rightarrow> 'w \<Rightarrow> ((mp_exc + mp_obj) \<times> zephyr_fs_obj \<times> 'w) option" where
  "zephyr_fs_stat g api self path_in w =
     (let (p, self) = zephyr_fs_make_path g self path_in
      in do {
        path \<leftarrow> path_at self p;
        let ((err, stats), w) = fs_stat api path w;
        Some (if err < 0 then
                Inl (OSError_msg ''error getting stats of Zephyr File System at %s: %q'' path (- err))
              else
                Inr (Mp_Tuple [Mp_Int (if d_type stats = FS_DIR_ENTRY_DIR then MP_S_IFDIR else MP_S_IFREG),
                  Mp_Int 0, Mp_Int 0, Mp_Int 0, Mp_Int 0, Mp_Int 0, Mp_Int (int (d_size stats)),
                  Mp_Int 0, Mp_Int 0, Mp_Int 0]), self, w)
      })"

definition zephyr_fs_statvfs ::
  "'w fs_api \<Rightarrow> zephyr_fs_obj \<Rightarrow> 'w \<Rightarrow> (mp_exc + mp_obj) \<times> 'w" where
  "zephyr_fs_statvfs api self w =
     (let ((err, stats), w) = fs_statvfs api (mnt_point (fs_mnt self)) w
      in if err < 0 then (Inl (OSError_msg ''error getting stats of Zephyr File System: %q'' [] (- err)), w)
         else
           (let bsize = (if f_frsize stats > f_bsize stats then f_frsize stats else f_bsize stats);
                bfree = Mp_Int (int (f_bfree stats))
            in (Inr (Mp_Tuple [Mp_Int (int bsize), Mp_Int (int (f_frsize stats)), Mp_Int (int (f_blocks stats)),
                  bfree, bfree, Mp_Int 0, Mp_Int 0, Mp_Int 0, Mp_Int 0, Mp_Int (int (fs_max_name api))]), w)))"

section \<open>Mounting\<close>

definition zephyr_fs_umount :: "'w fs_api \<Rightarrow> zephyr_fs_obj \<Rightarrow> 'w \<Rightarrow> (mp_exc + mp_obj) \<times> 'w" where
  "zephyr_fs_umount api self w =
     (let (err, w) = fs_unmount api (fs_mnt self) w
      in (if err < 0 then Inl (OSError_msg ''error un-mounting Zephyr File System: %q'' [] (- err)) else Inr Mp_None, w))"

text \<open>The last part of mounting: the error of the last \<open>fs_mount\<close>.\<close>

definition mount_result :: "int \<Rightarrow> mp_exc + mp_obj" where
  "mount_result err =
     (if err = - EROFS then Inl (OSError_msg ''read only filesystem that requires formatting'' [] 0)
      else if err < 0 then Inl (OSError_msg ''error mounting Zephyr File System: %q'' [] (- err))
      else Inr Mp_None)"

definition zephyr_fs_mount :: "'w fs_api \<Rightarrow> zephyr_fs_obj \<Rightarrow> 'w \<Rightarrow> (mp_exc + mp_obj) \<times> 'w" where
  "zephyr_fs_mount api self w =
     (let mount = fs_mnt self
      in if fs_linked api mount w \<and> mnt_flags mount AND FS_MOUNT_FLAG_AUTOMOUNT \<noteq> 0 then (Inr Mp_None, w)
         else
           (let (err, w) = fs_mount api mount w
            in if err = - EBUSY then
                 (let (err, w) = fs_unmount api mount w
                  in if err < 0 then
                       (Inl (OSError_msg ''error un-mounting Zephyr File System: %q'' [] (- err)), w)
                     else (let (err, w) = fs_mount api mount w in (mount_result err, w)))
               else (mount_result err, w)))"

definition zephyr_fs_mkfs :: "'w fs_api \<Rightarrow> zephyr_fs_obj \<Rightarrow> 'w \<Rightarrow> (mp_exc + mp_obj) \<times> 'w" where
  "zephyr_fs_mkfs api self w =
     (let (err, w) = fs_mkfs api (fs_mnt self) w
      in (if err < 0 then Inl (OSError_msg ''error formatting Zephyr File System'' [] 0) else Inr Mp_None, w))"

fun find_mount :: "bytes \<Rightarrow> fs_mount_t list \<Rightarrow> fs_mount_t option" where
  "find_mount m [] = None"
| "find_mount m (x # xs) = (if m = mnt_point x then Some x else find_mount m xs)"

definition zephyr_fs_make_new ::
  "(nat \<Rightarrow> nat) \<Rightarrow> 'w fs_api \<Rightarrow> fs_mount_t list \<Rightarrow> mp_obj \<Rightarrow> 'w \<Rightarrow> (mp_exc + zephyr_fs_obj) \<times> 'w" where
  "zephyr_fs_make_new g api mounts arg w =
     (case arg of
        Mp_Str s \<Rightarrow>
          (case find_mount (c_str s) mounts of
             None \<Rightarrow> (Inl (ValueError ''couldn't find zephyr mountpoint''), w)
           | Some m \<Rightarrow>
               (let (err, w) = (if \<not> fs_known api m w then fs_mount api m w else (0, w))
                in if err \<noteq> 0 then (Inl (RuntimeError ''FS is invalid, try adding automount to fstab''), w)
                   else (Inr \<lparr>fs_mnt = m, cur_dir = vstr_init 32, root_dir = vstr_add g (mnt_point m) (vstr_init 128)\<rparr>, w)))
      | _ \<Rightarrow> (Inl (ValueError ''argument must be a zephyr FSTAB mountpoint string''), w))"

definition zephyr_fs_fstab :: "fs_mount_t list \<Rightarrow> mp_obj" where
  "zephyr_fs_fstab mounts = Mp_List (map (\<lambda>m. Mp_Str (mnt_point m)) mounts)"

section \<open>Paths reach the file system whole\<close>

definition fs_ok :: "zephyr_fs_obj \<Rightarrow> bool" where
  "fs_ok self \<longleftrightarrow> vstr_ok (root_dir self) \<and> vstr_ok (cur_dir self) \<and>
     0 \<notin> set (vstr_str (root_dir self)) \<and> 0 \<notin> set (vstr_str (cur_dir self))"

text \<open>What a path means: the mount point, the current directory for a relative path, the path.\<close>

definition dir_prefix :: "zephyr_fs_obj \<Rightarrow> bytes \<Rightarrow> bytes" where
  "dir_prefix self path =
     vstr_str (root_dir self) @ (if relative path then SLASH # vstr_str (cur_dir self) else [])"

definition abs_path :: "zephyr_fs_obj \<Rightarrow> bytes \<Rightarrow> bytes" where
  "abs_path self path_in = dir_prefix self (c_str path_in) @ trim_dot (c_str path_in)"

definition same_dirs :: "zephyr_fs_obj \<Rightarrow> zephyr_fs_obj \<Rightarrow> bool" where
  "same_dirs self self' \<longleftrightarrow> vstr_str (root_dir self') = vstr_str (root_dir self) \<and>
     cur_dir self' = cur_dir self \<and> fs_mnt self' = fs_mnt self"

lemma length_vstr_str: "vstr_ok v \<Longrightarrow> length (vstr_str v) = vlen v"
  by (simp add: vstr_str_def vstr_ok_def)

lemma trim_dot_no_nul: "0 \<notin> set s \<Longrightarrow> 0 \<notin> set (trim_dot s)"
  by (auto simp: trim_dot_def Let_def dest: in_set_takeD)

lemma make_path_abs:
  assumes g: "grow_ok g" and s: "fs_ok self" and m: "zephyr_fs_make_path g self path = (p, self')"
  shows "path_at self' p = Some (abs_path self path) \<and> fs_ok self' \<and> same_dirs self self'"
proof -
  let ?c = "c_str path" and ?root = "root_dir self" and ?cur = "cur_dir self"
  define r1 where "r1 = (if relative ?c then vstr_add g (vstr_str ?cur) (vstr_add g [SLASH] ?root) else ?root)"
  define r2 where "r2 = vstr_add g (trim_dot ?c) r1"
  define r3 where "r3 = vstr_null_terminated g r2"
  from s have ok: "vstr_ok ?root" "vstr_ok ?cur" and nn: "0 \<notin> set (vstr_str ?root)" "0 \<notin> set (vstr_str ?cur)"
    by (simp_all add: fs_ok_def)
  have ok1: "vstr_ok r1" and s1: "vstr_str r1 = dir_prefix self ?c"
    using g ok by (simp_all add: r1_def dir_prefix_def)
  have ok2: "vstr_ok r2" and s2: "vstr_str r2 = abs_path self path"
    using g ok1 s1 by (simp_all add: r2_def abs_path_def)
  have z: "0 \<notin> set (vstr_str r2)"
    using nn trim_dot_no_nul [of ?c] by (auto simp: s2 abs_path_def dir_prefix_def)
  have ok3: "vstr_ok r3" and s3: "vstr_str r3 = vstr_str r2"
    using g ok2 by (simp_all add: r3_def)
  have d: "vstr_deref r3 (vid r3) = Some (abs_path self path)"
    using vstr_deref_null [OF g ok2 z] by (simp add: r3_def s2)
  have e: "p = vid r3" "self' = self\<lparr>root_dir := r3\<lparr>vlen := vlen ?root\<rparr>\<rparr>"
    using m by (auto simp: zephyr_fs_make_path_def Let_def r1_def r2_def r3_def vstr_str_def)
  have "vstr_str r3 = vstr_str ?root @ ((if relative ?c then SLASH # vstr_str ?cur else []) @ trim_dot ?c)"
    by (simp add: s3 s2 abs_path_def dir_prefix_def)
  from vstr_str_prefix [OF ok3 this] have
    "vstr_str (r3\<lparr>vlen := vlen ?root\<rparr>) = vstr_str ?root" "vstr_ok (r3\<lparr>vlen := vlen ?root\<rparr>)"
    using length_vstr_str [OF ok(1)] by simp_all
  then show ?thesis
    using d nn ok by (simp add: e path_at_def fs_ok_def same_dirs_def)
qed

text \<open>
  Claim C21.  Removing a file or a directory looks the whole absolute path up first: a missing
  entry or one of the other kind is refused without touching anything, and otherwise exactly that
  path is unlinked; the object's directories stay as they were.
\<close>

theorem fs_remove_exact:
  assumes "grow_ok g" and "fs_ok self"
  shows "\<exists>res self' w'. zephyr_fs_remove g api self path w = Some (res, self', w') \<and>
    fs_ok self' \<and> same_dirs self self' \<and>
    (let a = abs_path self path; err = fst (fst (fs_stat api a w)); st = snd (fst (fs_stat api a w)); w1 = snd (fs_stat api a w)
     in if err < 0 \<or> d_type st = FS_DIR_ENTRY_DIR then (\<exists>e. res = Inl e) \<and> w' = w1
        else w' = snd (fs_unlink api a w1) \<and>
          (res = Inr Mp_None \<longleftrightarrow> 0 \<le> fst (fs_unlink api a w1)))"
proof -
  obtain p s1 where m: "zephyr_fs_make_path g self path = (p, s1)"
    by (cases "zephyr_fs_make_path g self path")
  from make_path_abs [OF assms m] have "path_at s1 p = Some (abs_path self path)" "fs_ok s1" "same_dirs self s1"
    by auto
  then show ?thesis
    by (auto simp: zephyr_fs_remove_def unlink_unless_def m case_prod_unfold Let_def)
qed

lemma make_path_in_place:
  assumes "fs_ok self"
    and "length (abs_path self path) < length (vbuf (root_dir self))"
    and "zephyr_fs_make_path g self path = (p, self')"
  shows "p = vid (root_dir self) \<and> vid (root_dir self') = vid (root_dir self) \<and>
    length (vbuf (root_dir self')) = length (vbuf (root_dir self))"
proof -
  let ?c = "c_str path" and ?root = "root_dir self" and ?cur = "cur_dir self"
  from assms(1) have ok: "vstr_ok ?root" "vstr_ok ?cur" by (simp_all add: fs_ok_def)
  define ra where "ra = vstr_add g [SLASH] ?root"
  define rb where "rb = vstr_add g (vstr_str ?cur) ra"
  define r1 where "r1 = (if relative ?c then rb else ?root)"
  define r2 where "r2 = vstr_add g (trim_dot ?c) r1"
  have len: "vlen ?root + length (if relative ?c then SLASH # vstr_str ?cur else []) + length (trim_dot ?c) < length (vbuf ?root)"
    using assms(2) ok(1) by (simp add: abs_path_def dir_prefix_def length_vstr_str split: if_splits)
  have vl: "vlen (vstr_add g s v) = vlen v + length s" for s v
    by (simp add: vstr_add_def Let_def vstr_ensure_props)
  have a: "relative ?c \<Longrightarrow> vid ra = vid ?root \<and> length (vbuf ra) = length (vbuf ?root)"
    unfolding ra_def using len by (intro vstr_add_block) simp
  have b: "relative ?c \<Longrightarrow> vid rb = vid ?root \<and> length (vbuf rb) = length (vbuf ?root)"
    unfolding rb_def using a len vstr_add_block [of ra "vstr_str ?cur" g] by (simp add: ra_def vl)
  have r1: "vid r1 = vid ?root \<and> length (vbuf r1) = length (vbuf ?root) \<and>
      vlen r1 = vlen ?root + length (if relative ?c then SLASH # vstr_str ?cur else [])"
    using b by (simp add: r1_def rb_def ra_def vl)
  have r2: "vid r2 = vid ?root \<and> length (vbuf r2) = length (vbuf ?root) \<and> vlen r2 = vlen r1 + length (trim_dot ?c)"
    unfolding r2_def using r1 len vstr_add_block [of r1 "trim_dot ?c" g] by (simp add: vl)
  have "vid (vstr_null_terminated g r2) = vid ?root \<and>
      length (vbuf (vstr_null_terminated g r2)) = length (vbuf ?root)"
    using r1 r2 len vstr_null_block [of r2 g] by simp
  moreover have "p = vid (vstr_null_terminated g r2)"
      "root_dir self' = (vstr_null_terminated g r2)\<lparr>vlen := vlen ?root\<rparr>"
    using assms(3) by (auto simp: zephyr_fs_make_path_def Let_def r2_def r1_def rb_def ra_def vstr_str_def)
  ultimately show ?thesis by simp
qed

text \<open>
  Claim C22.  When the buffer of the mount point's string has room for both paths, as its 128
  bytes usually have, renaming hands the file system the new path twice: the pointer to the old
  path shows the new one, and nothing is renamed.
\<close>

theorem fs_rename_to_itself:
  assumes g: "grow_ok g" and s: "fs_ok self"
    and "length (abs_path self path_in) < length (vbuf (root_dir self))"
    and "length (abs_path self path_out) < length (vbuf (root_dir self))"
  shows "\<exists>self'. zephyr_fs_rename g api self path_in path_out w =
    Some (let n = abs_path self path_out; err = fst (fs_rename api n n w)
          in (if err < 0 then Inl (OSError_msg ''error renaming file from %s to %s: %q'' n (- err)) else Inr Mp_None,
              self', snd (fs_rename api n n w)))"
proof -
  obtain p s1 where m1: "zephyr_fs_make_path g self path_in = (p, s1)"
    by (cases "zephyr_fs_make_path g self path_in")
  obtain q s2 where m2: "zephyr_fs_make_path g s1 path_out = (q, s2)"
    by (cases "zephyr_fs_make_path g s1 path_out")
  from make_path_abs [OF g s m1] have ok1: "fs_ok s1" and d1: "same_dirs self s1" by auto
  have e: "abs_path s1 path_out = abs_path self path_out"
    using d1 by (simp add: abs_path_def dir_prefix_def same_dirs_def)
  from make_path_in_place [OF s assms(3) m1] have i1: "p = vid (root_dir self)"
      "vid (root_dir s1) = vid (root_dir self)" "length (vbuf (root_dir s1)) = length (vbuf (root_dir self))"
    by auto
  from make_path_in_place [OF ok1 _ m2] have "q = vid (root_dir self)"
    using i1 assms(4) by (simp add: e)
  with i1 have pq: "p = q" by simp
  from make_path_abs [OF g ok1 m2] have "path_at s2 q = Some (abs_path self path_out)"
    by (simp add: e)
  then show ?thesis
    by (simp add: zephyr_fs_rename_def m1 m2 pq case_prod_unfold Let_def)
qed

section \<open>The normal form of a directory\<close>

text \<open>
  The reference: a path as the list of its elements between slashes; empty elements and
  \<open>.\<close> are dropped, and \<open>..\<close> drops the element before it, if there is one.
\<close>

fun split_slash :: "bytes \<Rightarrow> bytes \<Rightarrow> bytes list" where
  "split_slash acc [] = []"
| "split_slash acc (c # cs) = (if c = SLASH then acc # split_slash [] cs else split_slash (acc @ [c]) cs)"

definition join_slash :: "bytes list \<Rightarrow> bytes" where
  "join_slash es = concat (map (\<lambda>e. e @ [SLASH]) es)"

definition enter :: "bytes list \<Rightarrow> bytes \<Rightarrow> bytes list" where
  "enter kept e = (if e = [] \<or> e = [DOT] then kept else if e = [DOT, DOT] then butlast kept else kept @ [e])"

definition normal_path :: "bytes \<Rightarrow> bytes" where
  "normal_path s = hd s # join_slash (foldl enter [] (split_slash [] (tl s)))"

definition slash_free :: "bytes list \<Rightarrow> bool" where
  "slash_free es \<longleftrightarrow> (\<forall>e\<in>set es. SLASH \<notin> set e)"

lemma join_slash_simps [simp]:
  "join_slash [] = []" "join_slash (e # es) = e @ SLASH # join_slash es"
  "join_slash (xs @ ys) = join_slash xs @ join_slash ys"
  by (simp_all add: join_slash_def)

lemma split_slash_join: "SLASH \<notin> set acc \<Longrightarrow> s \<noteq> [] \<longrightarrow> last s = SLASH \<Longrightarrow>
  slash_free (split_slash acc s) \<and> (s \<noteq> [] \<longrightarrow> join_slash (split_slash acc s) = acc @ s)"
  by (induction acc s rule: split_slash.induct) (auto simp: slash_free_def split: if_splits)

lemma skip_to_span:
  "i \<le> length xs \<Longrightarrow> skip_to P xs i = i + length (takeWhile P (drop i xs))"
proof (induction P xs i rule: skip_to.induct)
  case (1 P xs i)
  show ?case
  proof (cases "i < length xs")
    case True
    then have d: "drop i xs = xs ! i # drop (Suc i) xs" by (simp add: Cons_nth_drop_Suc)
    show ?thesis
      using 1 True by (subst skip_to.simps) (auto simp: d)
  next
    case False
    then show ?thesis using 1(2) by (subst skip_to.simps) simp
  qed
qed

lemma skip_to_app:
  assumes "\<forall>c\<in>set m. P c" and "r = [] \<or> \<not> P (hd r)"
  shows "skip_to P (p @ m @ r) (length p) = length p + length m"
proof -
  have "takeWhile P (m @ r) = m"
    using assms by (cases r) (auto simp: takeWhile_append)
  then show ?thesis by (simp add: skip_to_span)
qed

lemma skip_back_app:
  assumes "SLASH \<notin> set e" and "p \<noteq> []" and "length p > 1 \<longrightarrow> last p = SLASH"
  shows "skip_back (p @ e @ r) (length p + length e) = length p"
  using assms(1)
proof (induction e arbitrary: r rule: rev_induct)
  case Nil
  from assms(2) obtain n where n: "length p = Suc n" by (cases p) auto
  have "length p > 1 \<longrightarrow> (p @ r) ! n = SLASH"
    using assms(2,3) n by (metis diff_Suc_1 last_conv_nth lessI nth_append)
  then show ?case by (auto simp: n)
next
  case (snoc c e)
  have "(p @ (e @ [c]) @ r) ! (length p + length e) = c"
    by (simp add: nth_append)
  then show ?case
    using snoc assms(2) snoc.IH [of "c # r"] by (cases p) auto
qed

lemma cut_app: "cut (length p) (length m) (p @ m @ r) = p @ r"
  by (simp add: cut_def)

text \<open>One round of the loop on an element, and the skipped slashes of empty ones.\<close>

definition kept_text :: "u8 \<Rightarrow> bytes list \<Rightarrow> bytes" where
  "kept_text x kept = x # join_slash kept"

lemma kept_text_last: "length (kept_text x kept) > 1 \<Longrightarrow> last (kept_text x kept) = SLASH"
  by (induction kept rule: rev_induct) (auto simp: kept_text_def)

fun drop_empty :: "bytes list \<Rightarrow> bytes list" where
  "drop_empty ([] # es) = drop_empty es"
| "drop_empty es = es"

lemma drop_empty_split: "\<exists>n. join_slash es = replicate n SLASH @ join_slash (drop_empty es)"
proof (induction es rule: drop_empty.induct)
  case (1 es)
  then obtain n where "join_slash es = replicate n SLASH @ join_slash (drop_empty es)" ..
  then have "join_slash ([] # es) = replicate (Suc n) SLASH @ join_slash (drop_empty ([] # es))" by simp
  then show ?case ..
qed (auto intro: exI [of _ 0])

lemma drop_empty_length: "length (drop_empty es) \<le> length es"
  by (induction es rule: drop_empty.induct) auto

lemma drop_empty_props:
  "slash_free es \<Longrightarrow> slash_free (drop_empty es)" "foldl enter kept (drop_empty es) = foldl enter kept es"
  "drop_empty es = e # es' \<Longrightarrow> e \<noteq> []"
  by (induction es rule: drop_empty.induct) (auto simp: slash_free_def enter_def)

lemma squeeze_app:
  assumes "p \<noteq> []" and "slash_free es"
  shows "squeeze (p @ join_slash es) (length p) (length p) = (p @ join_slash (drop_empty es), length p)"
proof -
  obtain n where n: "join_slash es = replicate n SLASH @ join_slash (drop_empty es)"
    using drop_empty_split by blast
  have "join_slash (drop_empty es) = [] \<or> hd (join_slash (drop_empty es)) \<noteq> SLASH"
  proof (cases "drop_empty es")
    case (Cons e es')
    then have "e \<noteq> []" "SLASH \<notin> set e"
      using drop_empty_props(1,3) assms(2) by (auto simp: slash_free_def)
    then show ?thesis using Cons by (cases e) auto
  qed simp
  then have s: "skip_to (\<lambda>c. c = SLASH) (p @ join_slash es) (length p) = length p + n"
    unfolding n by (subst skip_to_app) auto
  have c: "cut (length p) n (p @ join_slash es) = p @ join_slash (drop_empty es)"
    unfolding n using cut_app [of p "replicate n SLASH"] by simp
  then show ?thesis
    unfolding squeeze_def Let_def s using n by (cases n) simp_all
qed

lemma one_char: "e \<noteq> [] \<Longrightarrow> (length e = 1 \<and> (p @ e @ r) ! length p = c) = (e = [c])"
  by (cases e) (auto simp: nth_append)

lemma two_chars:
  "e \<noteq> [] \<Longrightarrow>
   (length e = 2 \<and> (p @ e @ r) ! length p = c \<and> (p @ e @ r) ! (length p + 1) = d) = (e = [c, d])"
  by (cases e; cases "tl e") (auto simp: nth_append)

lemma chdir_loop_end: "length cwd \<le> n \<Longrightarrow> chdir_loop cwd to n = cwd"
  by (subst chdir_loop.simps) simp

lemma chdir_loop_element:
  assumes p: "p \<noteq> []" and es: "slash_free es" "es \<noteq> []" and ds: "drop_empty es = e # es'"
  shows "chdir_loop (p @ join_slash es) (length p) (length p) =
    (let cwd = p @ join_slash (e # es'); n = length p
     in if e = [DOT] then chdir_loop (p @ join_slash es') n n
        else if e = [DOT, DOT] then
          (let to' = (if n > 1 then skip_back cwd (n - 1) else n)
           in chdir_loop (cut to' (n + 3 - to') cwd) to' to')
        else chdir_loop cwd (n + length e + 1) (n + length e + 1))"
proof -
  have lt: "length p < length (p @ join_slash es)"
    using es(2) by (cases es) simp_all
  have e: "e \<noteq> []" "SLASH \<notin> set e"
    using drop_empty_props(1,3) ds es(1) by (auto simp: slash_free_def)
  let ?cwd = "p @ e @ SLASH # join_slash es'"
  have f: "skip_to (\<lambda>c. c \<noteq> SLASH) ?cwd (length p) = length p + length e"
    using e(2) by (intro skip_to_app) auto
  have i: "int (length p + length e) - int (length p) = int (length e)" by simp
  have c1: "(int (length e) = 1 \<and> ?cwd ! length p = DOT) = (e = [DOT])"
    using one_char [OF e(1), of p "SLASH # join_slash es'"] by auto
  have c2: "(int (length e) = 2 \<and> ?cwd ! length p = DOT \<and> ?cwd ! (length p + 1) = DOT) = (e = [DOT, DOT])"
    using two_chars [OF e(1), of p "SLASH # join_slash es'"] by auto
  have cut: "e = [DOT] \<Longrightarrow> cut (length p) (length p + length e + 1 - length p) ?cwd = p @ join_slash es'"
    using cut_app [of p "[DOT, SLASH]" "join_slash es'"] by (simp add: numeral_2_eq_2)
  show ?thesis
    apply (subst chdir_loop.simps)
    unfolding if_P [OF lt] squeeze_app [OF p es(1)] ds join_slash_simps Let_def prod.case f i c1 c2
    using cut by (cases "e = [DOT]"; cases "e = [DOT, DOT]") (simp_all add: numeral_3_eq_3)
qed

lemma pop_element:
  fixes p kept x r
  defines "p \<equiv> kept_text x kept"
  assumes "slash_free kept"
  shows "(if length p > 1 then skip_back (p @ r) (length p - 1) else length p) = length (kept_text x (butlast kept))"
    and "take (length (kept_text x (butlast kept))) (p @ r) = kept_text x (butlast kept)"
proof -
  show "(if length p > 1 then skip_back (p @ r) (length p - 1) else length p) = length (kept_text x (butlast kept))"
  proof (cases kept rule: rev_cases)
    case Nil
    then show ?thesis by (simp add: p_def kept_text_def)
  next
    case (snoc ks k)
    let ?q = "kept_text x ks"
    have p: "p = ?q @ k @ [SLASH]" by (simp add: p_def snoc kept_text_def)
    have "SLASH \<notin> set k" using assms(2) snoc by (simp add: slash_free_def)
    then have "skip_back (?q @ k @ (SLASH # r)) (length ?q + length k) = length ?q"
      using kept_text_last [of x ks] by (intro skip_back_app) (auto simp: kept_text_def)
    moreover have "?q \<noteq> []" by (simp add: kept_text_def)
    ultimately show ?thesis by (simp add: p snoc)
  qed
  show "take (length (kept_text x (butlast kept))) (p @ r) = kept_text x (butlast kept)"
    by (cases kept rule: rev_cases) (simp_all add: p_def kept_text_def)
qed

lemma chdir_loop_normal:
  assumes "slash_free es" and "slash_free kept"
  shows "chdir_loop (kept_text x kept @ join_slash es) (length (kept_text x kept)) (length (kept_text x kept)) =
    kept_text x (foldl enter kept es)"
  using assms
proof (induction "length es" arbitrary: es kept rule: less_induct)
  case less
  let ?p = "kept_text x kept"
  have p: "?p \<noteq> []" by (simp add: kept_text_def)
  show ?case
  proof (cases "es = []")
    case True
    then show ?thesis by (simp add: chdir_loop_end)
  next
    case ne: False
    show ?thesis
    proof (cases "drop_empty es")
      case Nil
      have lt: "length ?p < length (?p @ join_slash es)"
        using ne by (cases es) simp_all
      have s: "skip_to (\<lambda>c. c \<noteq> SLASH) ?p (length ?p) = length ?p"
        using skip_to_app [of "[]" _ "[]" ?p] by simp
      have "chdir_loop (?p @ join_slash es) (length ?p) (length ?p) = chdir_loop ?p (length ?p + 1) (length ?p + 1)"
        apply (subst chdir_loop.simps)
        unfolding squeeze_app [OF p less(2)] Nil
        using lt by (simp add: s Let_def)
      then show ?thesis
        using drop_empty_props(2) [of kept es] by (simp add: Nil chdir_loop_end)
    next
      case (Cons e es')
      have sf: "slash_free es'" "SLASH \<notin> set e" and ne': "e \<noteq> []"
        using drop_empty_props(1,3) Cons less(2) by (auto simp: slash_free_def)
      have l: "length es' < length es"
        using drop_empty_length [of es] by (simp add: Cons)
      have fold: "foldl enter kept es = foldl enter (enter kept e) es'"
        using drop_empty_props(2) [of kept es] by (simp add: Cons)
      note IH = less(1) [OF l sf(1)]
      note step = chdir_loop_element [OF p less(2) ne Cons]
      consider "e = [DOT]" | "e = [DOT, DOT]" | "e \<noteq> [DOT]" "e \<noteq> [DOT, DOT]" by blast
      then show ?thesis
      proof cases
        case 1
        then show ?thesis using IH [OF less(3)] step by (simp add: fold enter_def)
      next
        case 2
        let ?q = "kept_text x (butlast kept)" and ?cwd = "?p @ join_slash ([DOT, DOT] # es')"
        have sb: "slash_free (butlast kept)"
          using less(3) by (auto simp: slash_free_def dest: in_set_butlastD)
        note pop = pop_element [OF less(3), of x "join_slash ([DOT, DOT] # es')"]
        have q: "length ?q \<le> length ?p"
          by (cases kept rule: rev_cases) (simp_all add: kept_text_def)
        then have "cut (length ?q) (length ?p + 3 - length ?q) ?cwd = ?q @ join_slash es'"
          using pop(2) by (simp add: cut_def)
        then have "chdir_loop (?p @ join_slash es) (length ?p) (length ?p) = chdir_loop (?q @ join_slash es') (length ?q) (length ?q)"
          unfolding step unfolding 2 Let_def pop(1) by simp
        then show ?thesis
          using IH [OF sb] 2 by (simp add: fold enter_def)
      next
        case 3
        have "slash_free (kept @ [e])" using less(3) sf by (auto simp: slash_free_def)
        from IH [OF this] show ?thesis
          using step 3 ne' by (simp add: fold enter_def kept_text_def Let_def)
      qed
    qed
  qed
qed

lemma getcwd_str:
  assumes g: "grow_ok g" and s: "fs_ok self"
  shows "map_option fst (zephyr_fs_getcwd g self) = Some (Mp_Str (SLASH # vstr_str (cur_dir self)))"
proof (cases "vlen (cur_dir self) = 0")
  case True
  then show ?thesis by (simp add: zephyr_fs_getcwd_def vstr_str_def)
next
  case False
  from s have ok: "vstr_ok (root_dir self)" "vstr_ok (cur_dir self)" and nn: "0 \<notin> set (vstr_str (cur_dir self))"
    by (simp_all add: fs_ok_def)
  define r where "r = vstr_add g (vstr_str (cur_dir self)) (vstr_add g [SLASH] (root_dir self))"
  have r: "vstr_ok r" "vstr_str r = vstr_str (root_dir self) @ SLASH # vstr_str (cur_dir self)"
    using g ok by (simp_all add: r_def)
  from vstr_null_vbuf [OF g r(1)] obtain z where
    "vbuf (vstr_null_terminated g r) = (vstr_str (root_dir self) @ SLASH # vstr_str (cur_dir self)) @ 0 # z"
    unfolding r(2) by blast
  then have "drop (vlen (root_dir self)) (vbuf (vstr_null_terminated g r)) = (SLASH # vstr_str (cur_dir self)) @ 0 # z"
    using length_vstr_str [OF ok(1)] by simp
  then have "cstr_at (vbuf (vstr_null_terminated g r)) (vlen (root_dir self)) = Some (SLASH # vstr_str (cur_dir self))"
    using nn by (intro cstr_at_prefix) auto
  then show ?thesis
    using False by (simp add: zephyr_fs_getcwd_def Let_def r_def vstr_str_def)
qed

lemma chdir_string_prefix:
  "chdir_string self path = dir_prefix self path @ path @ [SLASH]"
  by (simp add: chdir_string_def dir_prefix_def vstr_str_def Let_def)

lemma split_slash_free: "SLASH \<notin> set acc \<Longrightarrow> slash_free (split_slash acc s)"
  by (induction acc s rule: split_slash.induct) (auto simp: slash_free_def)

lemma split_slash_join_end: "join_slash (split_slash acc (s @ [SLASH])) = acc @ s @ [SLASH]"
  by (induction acc s rule: split_slash.induct) auto

lemma chdir_loop_path: "chdir_loop ((x # s) @ [SLASH]) 1 1 = normal_path ((x # s) @ [SLASH])"
  using chdir_loop_normal [OF split_slash_free, of "[]" "[]" x "s @ [SLASH]"]
  by (simp add: slash_free_def kept_text_def split_slash_join_end normal_path_def)

lemma in_join_slash: "c \<in> set (join_slash es) \<Longrightarrow> c = SLASH \<or> (\<exists>e\<in>set es. c \<in> set e)"
  by (auto simp: join_slash_def split: if_splits)

lemma foldl_enter_subset: "set (foldl enter kept es) \<subseteq> set kept \<union> set es"
proof (induction es arbitrary: kept)
  case (Cons e es)
  have "set (enter kept e) \<subseteq> set kept \<union> {e}"
    by (auto simp: enter_def dest: in_set_butlastD)
  then show ?case using Cons [of "enter kept e"] by auto
qed simp

lemma split_slash_chars: "e \<in> set (split_slash acc s) \<Longrightarrow> c \<in> set e \<Longrightarrow> c \<in> set acc \<or> c \<in> set s"
  by (induction acc s rule: split_slash.induct) (auto split: if_splits)

lemma normal_path_no_nul:
  assumes "0 \<notin> set s" and "s \<noteq> []"
  shows "0 \<notin> set (normal_path s)"
proof
  assume "0 \<in> set (normal_path s)"
  then have "0 \<in> set (join_slash (foldl enter [] (split_slash [] (tl s))))"
    using assms by (cases s) (auto simp: normal_path_def)
  then obtain e where "e \<in> set (split_slash [] (tl s))" "0 \<in> set e"
    using in_join_slash [of 0] foldl_enter_subset [of "[]" "split_slash [] (tl s)"] by fastforce
  then show False
    using split_slash_chars [of e "[]" "tl s" 0] assms by (cases s) auto
qed

text \<open>
  Claim C23.  The loop of \<open>chdir\<close> ends and computes the normal form of the path: the
  directory looked up is the one whose empty and dot elements are dropped and whose dot-dot
  elements have dropped the element before them, the mount point's included; if it is a directory
  the rest of that path behind the mount point becomes the current directory, which
  \<open>getcwd\<close> then shows, and otherwise the exception leaves the object as it was.
\<close>

theorem fs_chdir_normal:
  assumes "grow_ok g" and "fs_ok self" and "vstr_str (root_dir self) \<noteq> []"
  shows "\<exists>res self'.
    (let c = c_str path; n = normal_path (dir_prefix self c @ c @ [SLASH]); r = fs_stat api n w
     in zephyr_fs_chdir g api self path w = (res, self', snd r) \<and>
        (if 0 \<le> fst (fst r) \<and> d_type (snd (fst r)) = FS_DIR_ENTRY_DIR
         then res = Inr Mp_None \<and> vstr_str (cur_dir self') = drop (length (vstr_str (root_dir self)) + 1) n \<and>
           root_dir self' = root_dir self \<and> fs_ok self' \<and>
           map_option fst (zephyr_fs_getcwd g self') = Some (Mp_Str (SLASH # vstr_str (cur_dir self')))
         else (\<exists>e. res = Inl e) \<and> self' = self))"
proof -
  let ?c = "c_str path"
  let ?s = "dir_prefix self ?c @ ?c @ [SLASH]"
  let ?n = "normal_path ?s"
  from assms(2) have ok: "vstr_ok (root_dir self)" "vstr_ok (cur_dir self)"
    and nn: "0 \<notin> set (vstr_str (root_dir self))" "0 \<notin> set (vstr_str (cur_dir self))"
    by (simp_all add: fs_ok_def)
  obtain x s where xs: "dir_prefix self ?c @ ?c = x # s"
    using assms(3) by (cases "vstr_str (root_dir self)") (auto simp: dir_prefix_def)
  have loop: "chdir_loop (chdir_string self ?c) 1 1 = ?n"
    using chdir_loop_path [of x s] unfolding chdir_string_prefix append_assoc [symmetric] xs .
  have "0 \<notin> set ?s"
    using nn by (auto simp: dir_prefix_def)
  then have nz: "0 \<notin> set ?n"
    by (intro normal_path_no_nul) simp_all
  have l: "length (vstr_str (root_dir self)) = vlen (root_dir self)"
    using ok(1) by (rule length_vstr_str)
  let ?cur = "vstr_add g (drop (vlen (root_dir self) + 1) ?n) ((cur_dir self)\<lparr>vlen := 0\<rparr>)"
  have c0: "vstr_ok ((cur_dir self)\<lparr>vlen := 0\<rparr>)" "vstr_str ((cur_dir self)\<lparr>vlen := 0\<rparr>) = []"
    by (simp_all add: vstr_ok_def vstr_str_def)
  have cur: "vstr_str ?cur = drop (vlen (root_dir self) + 1) ?n" "vstr_ok ?cur"
    using assms(1) c0 by simp_all
  have ok': "fs_ok (self\<lparr>cur_dir := ?cur\<rparr>)"
    using cur ok nn nz by (auto simp: fs_ok_def dest: in_set_dropD)
  show ?thesis
    unfolding zephyr_fs_chdir_def Let_def loop case_prod_unfold cut_def
    using getcwd_str [OF assms(1) ok'] cur ok' nz by (simp add: l)
qed

section \<open>A file system\<close>

text \<open>A file system as the list of its directories and a log of the calls that change it.\<close>

datatype fs_call = Call_unlink bytes | Call_rename bytes bytes | Call_other

record ex_fs =
  ex_dirs :: "bytes list"
  ex_files :: "bytes list"
  ex_calls :: "fs_call list"

definition ex_log :: "fs_call \<Rightarrow> ex_fs \<Rightarrow> int \<times> ex_fs" where
  "ex_log c w = (0, w\<lparr>ex_calls := c # ex_calls w\<rparr>)"

definition ex_fs_stat :: "bytes \<Rightarrow> ex_fs \<Rightarrow> (int \<times> fs_dirent) \<times> ex_fs" where
  "ex_fs_stat p w =
     ((if p \<in> set (ex_dirs w) \<union> set (ex_files w) then 0 else -2,
       \<lparr>d_type = if p \<in> set (ex_dirs w) then FS_DIR_ENTRY_DIR else FS_DIR_ENTRY_FILE, d_name = p, d_size = 1\<rparr>), w)"

definition ex_api :: "ex_fs fs_api" where
  "ex_api =
     \<lparr>fs_open = (\<lambda>f p m w. (0, w)), fs_close = (\<lambda>f w. (0, w)), fs_read = (\<lambda>f n w. ((0, []), w)),
      fs_write = (\<lambda>f b w. (int (length b), w)), fs_seek = (\<lambda>f i j w. (0, w)), fs_tell = (\<lambda>f w. 0),
      fs_sync = (\<lambda>f w. (0, w)), fs_opendir = (\<lambda>f p w. (0, w)),
      fs_readdir = (\<lambda>f w. ((-1, \<lparr>d_type = FS_DIR_ENTRY_FILE, d_name = [], d_size = 0\<rparr>), w)),
      fs_closedir = (\<lambda>f w. (0, w)), fs_mkdir = (\<lambda>p. ex_log Call_other), fs_unlink = (\<lambda>p. ex_log (Call_unlink p)),
      fs_rename = (\<lambda>p q. ex_log (Call_rename p q)), fs_stat = ex_fs_stat,
      fs_statvfs = (\<lambda>p w. ((0, \<lparr>f_bsize = 1, f_frsize = 1, f_blocks = 1, f_bfree = 1\<rparr>), w)),
      fs_mount = (\<lambda>m w. (0, w)), fs_unmount = (\<lambda>m w. (0, w)), fs_mkfs = (\<lambda>m w. (0, w)),
      fs_linked = (\<lambda>m w. True), fs_known = (\<lambda>m w. True), fs_max_name = 255\<rparr>"

definition ex_mount :: fs_mount_t where "ex_mount = \<lparr>mnt_point = lit ''/lfs'', mnt_flags = 0\<rparr>"

definition ex_self :: zephyr_fs_obj where
  "ex_self = \<lparr>fs_mnt = ex_mount, cur_dir = vstr_init 32, root_dir = vstr_add id (lit ''/lfs'') (vstr_init 128)\<rparr>"

definition ex_w :: ex_fs where
  "ex_w = \<lparr>ex_dirs = [lit ''/lfs/a/'', lit ''/usb/x/''], ex_files = [lit ''/lfs/f''], ex_calls = []\<rparr>"

lemma ex_grow: "grow_ok id"
  by (simp add: grow_ok_def)

lemma ex_self_str: "vstr_str (root_dir ex_self) = lit ''/lfs''" "vstr_str (cur_dir ex_self) = []"
  "length (vbuf (root_dir ex_self)) = 128"
  using ex_grow by (simp_all add: ex_self_def) (simp add: vstr_add_def vstr_ensure_def vstr_init_def)

lemma ex_self_ok: "fs_ok ex_self"
  using ex_grow ex_self_str by (simp add: fs_ok_def ex_self_def lit_def)

lemma ex_abs: "abs_path ex_self (lit ''f'') = lit ''/lfs/f''" "abs_path ex_self (lit ''g'') = lit ''/lfs/g''"
  by (simp_all add: abs_path_def dir_prefix_def ex_self_str lit_def relative_def trim_dot_def c_str_def)

lemma fs_remove_exact_witness:
  "\<exists>self'. zephyr_fs_remove id ex_api ex_self (lit ''f'') ex_w =
    Some (Inr Mp_None, self', ex_w\<lparr>ex_calls := [Call_unlink (lit ''/lfs/f'')]\<rparr>)"
  using fs_remove_exact [OF ex_grow ex_self_ok, of ex_api "lit ''f''" ex_w]
  unfolding ex_abs by (auto simp: Let_def ex_api_def ex_fs_stat_def ex_log_def ex_w_def lit_def)

text \<open>Renaming \<open>f\<close> to \<open>g\<close> asks the file system to rename \<open>g\<close> to itself.\<close>

lemma fs_rename_to_itself_witness:
  "\<exists>self'. zephyr_fs_rename id ex_api ex_self (lit ''f'') (lit ''g'') ex_w =
    Some (Inr Mp_None, self', ex_w\<lparr>ex_calls := [Call_rename (lit ''/lfs/g'') (lit ''/lfs/g'')]\<rparr>)"
  using fs_rename_to_itself [OF ex_grow ex_self_ok, of "lit ''f''" "lit ''g''" ex_api ex_w]
  unfolding ex_abs by (auto simp: ex_self_str Let_def ex_api_def ex_log_def ex_w_def)

text \<open>From the mount point, \<open>../usb/x\<close> leads to the directory of another mount point,
  and the current directory becomes \<open>x\<close> on the own one.\<close>

lemma fs_chdir_normal_witness:
  "\<exists>self'. zephyr_fs_chdir id ex_api ex_self (lit ''../usb/x'') ex_w = (Inr Mp_None, self', ex_w) \<and>
    vstr_str (cur_dir self') = lit ''x/''"
proof -
  have n: "normal_path (dir_prefix ex_self (lit ''../usb/x'') @ lit ''../usb/x'' @ [SLASH]) = lit ''/usb/x/''"
    by (simp add: dir_prefix_def ex_self_str relative_def lit_def normal_path_def enter_def)
  have c: "c_str (lit ''../usb/x'') = lit ''../usb/x''"
    by (simp add: lit_def c_str_def)
  show ?thesis
    using fs_chdir_normal [OF ex_grow ex_self_ok, of "lit ''../usb/x''" ex_api ex_w]
    unfolding Let_def c n ex_self_str
    by (auto simp: ex_api_def ex_fs_stat_def ex_w_def lit_def)
qed

end
