(* ===== verification/Modsocket.thy ===== *)
theory Modsocket
  imports Mp_Base
begin

text \<open>
  Python sockets on Zephyr's sockets, after \<open>app/micropython/modsocket.c\<close>.  A socket
  object holds a descriptor, -1 once closed.  The network stack is a parameter: a record of the
  calls the binding makes over a state \<open>'w\<close>, with \<open>errno\<close> read from it.  The
  resolver delivers a list of events to the callback before the query's semaphore is taken.

  A \<open>None\<close> is memory written outside the receive buffer, or waiting for ever.
\<close>

section \<open>The network's interface\<close>

definition AF_INET :: int where "AF_INET = 1"
definition AF_INET6 :: int where "AF_INET6 = 2"
definition SOCK_STREAM :: int where "SOCK_STREAM = 1"
definition IPPROTO_TCP :: int where "IPPROTO_TCP = 6"
definition IPPROTO_UDP :: int where "IPPROTO_UDP = 17"
definition EBADF :: int where "EBADF = 9"
definition MP_EINVAL :: int where "MP_EINVAL = 22"

record sockaddr =
  sa_family :: int
  sa_addr :: bytes
  sa_port :: u16
  sa_scope :: nat

datatype dns_query = DNS_QUERY_TYPE_A | DNS_QUERY_TYPE_AAAA

text \<open>What the resolver reports: an address, or a final status (a null info pointer).\<close>

datatype dns_event = Dns_info int sockaddr | Dns_status int

record 'w net_api =
  net_socket :: "int \<Rightarrow> int \<Rightarrow> int \<Rightarrow> 'w \<Rightarrow> int \<times> 'w"
  net_bind :: "int \<Rightarrow> sockaddr \<Rightarrow> 'w \<Rightarrow> int \<times> 'w"
  net_connect :: "int \<Rightarrow> sockaddr \<Rightarrow> 'w \<Rightarrow> int \<times> 'w"
  net_listen :: "int \<Rightarrow> int \<Rightarrow> 'w \<Rightarrow> int \<times> 'w"
  net_accept :: "int \<Rightarrow> 'w \<Rightarrow> int \<times> 'w"
  net_send :: "int \<Rightarrow> bytes \<Rightarrow> 'w \<Rightarrow> int \<times> 'w"
  net_recv :: "int \<Rightarrow> nat \<Rightarrow> 'w \<Rightarrow> (int \<times> bytes) \<times> 'w"
  net_recvfrom :: "int \<Rightarrow> nat \<Rightarrow> 'w \<Rightarrow> (int \<times> bytes \<times> sockaddr) \<times> 'w"
  net_close :: "int \<Rightarrow> 'w \<Rightarrow> int \<times> 'w"
  net_errno :: "'w \<Rightarrow> int"
  net_family :: "int \<Rightarrow> 'w \<Rightarrow> int"
  net_pton :: "int \<Rightarrow> bytes \<Rightarrow> int \<times> bytes"
  net_ntop :: "int \<Rightarrow> bytes \<Rightarrow> bytes"
  net_resolve :: "bytes \<Rightarrow> dns_query \<Rightarrow> 'w \<Rightarrow> (int \<times> dns_event list) \<times> 'w"
  net_free :: "'w \<Rightarrow> nat \<times> nat \<times> nat \<times> nat"
  net_all_done :: int
  net_backlog :: int
  net_dhcpv4 :: bool

definition htons :: "u16 \<Rightarrow> u16" where "htons p = word_rotr 8 p"

text \<open>The state of an object is set when it is made and never used.\<close>

record socket_obj =
  ctx :: int
  sk_state :: int

definition STATE_NEW :: int where "STATE_NEW = 0"

text \<open>A new object is given its descriptor by the caller.\<close>

definition socket_new :: "int \<Rightarrow> socket_obj" where
  "socket_new fd = \<lparr>ctx = fd, sk_state = STATE_NEW\<rparr>"

section \<open>Helpers\<close>

definition socket_check_closed :: "socket_obj \<Rightarrow> mp_exc + unit" where
  "socket_check_closed socket = (if ctx socket = -1 then Inl (OSError EBADF) else Inr ())"

definition raise_errno :: "int \<Rightarrow> mp_exc + unit" where
  "raise_errno x = (if x < 0 then Inl (OSError (- x)) else Inr ())"

definition raise_sock_errno :: "'w net_api \<Rightarrow> int \<Rightarrow> 'w \<Rightarrow> mp_exc + unit" where
  "raise_sock_errno api x w = (if x = -1 then Inl (OSError (net_errno api w)) else Inr ())"

definition parse_inet_addr :: "'w net_api \<Rightarrow> socket_obj \<Rightarrow> mp_obj \<Rightarrow> 'w \<Rightarrow> mp_exc + sockaddr" where
  "parse_inet_addr api socket addr_in w =
     sbind (mp_obj_get_pair addr_in) (\<lambda>(host, port).
     let family = net_family api (ctx socket) w in
     sbind (mp_obj_get_bytes host) (\<lambda>host.
     let (rc, addr) = net_pton api family (c_str host) in
     sbind (raise_errno rc) (\<lambda>_.
     sbind (mp_obj_get_int port) (\<lambda>port.
     Inr \<lparr>sa_family = family, sa_addr = addr, sa_port = htons (word_of_int port), sa_scope = 0\<rparr>))))"

definition format_inet_addr :: "'w net_api \<Rightarrow> sockaddr \<Rightarrow> mp_obj \<Rightarrow> mp_obj" where
  "format_inet_addr api addr port =
     Mp_Tuple ([Mp_Str (net_ntop api (sa_family addr) (sa_addr addr)), port] @
       (if sa_family addr = AF_INET6 then [Mp_Int 0, Mp_Int (int (sa_scope addr))]
        else if sa_family addr = AF_INET then [] else [Mp_Null, Mp_Null]))"

section \<open>Methods\<close>

text \<open>The optional family, type and protocol; protocol -1 is chosen by the type.\<close>

definition opt_int :: "mp_obj list \<Rightarrow> nat \<Rightarrow> int \<Rightarrow> mp_exc + int" where
  "opt_int args i d = (if length args > i then mp_obj_get_int (args ! i) else Inr d)"

definition socket_make_new :: "'w net_api \<Rightarrow> mp_obj list \<Rightarrow> 'w \<Rightarrow> (mp_exc + socket_obj) \<times> 'w" where
  "socket_make_new api args w =
     (if length args > 4 then (Inl (TypeError ''function expected at most 4 arguments''), w)
      else case sbind (opt_int args 0 AF_INET) (\<lambda>family.
             sbind (opt_int args 1 SOCK_STREAM) (\<lambda>socktype.
             sbind (opt_int args 2 (- 1)) (\<lambda>proto. Inr (family, socktype, proto)))) of
        Inl e \<Rightarrow> (Inl e, w)
      | Inr (family, socktype, proto) \<Rightarrow>
          (let proto = (if proto = -1 then if socktype \<noteq> SOCK_STREAM then IPPROTO_UDP else IPPROTO_TCP else proto);
               (fd, w) = net_socket api family socktype proto w
           in (sbind (raise_sock_errno api fd w) (\<lambda>_. Inr (socket_new fd)), w)))"

definition socket_bind :: "'w net_api \<Rightarrow> socket_obj \<Rightarrow> mp_obj \<Rightarrow> 'w \<Rightarrow> (mp_exc + mp_obj) \<times> 'w" where
  "socket_bind api socket addr_in w =
     (case sbind (socket_check_closed socket) (\<lambda>_. parse_inet_addr api socket addr_in w) of
        Inl e \<Rightarrow> (Inl e, w)
      | Inr sa \<Rightarrow> (let (res, w) = net_bind api (ctx socket) sa w
                   in (sbind (raise_sock_errno api res w) (\<lambda>_. Inr Mp_None), w)))"

definition socket_connect :: "'w net_api \<Rightarrow> socket_obj \<Rightarrow> mp_obj \<Rightarrow> 'w \<Rightarrow> (mp_exc + mp_obj) \<times> 'w" where
  "socket_connect api socket addr_in w =
     (case sbind (socket_check_closed socket) (\<lambda>_. parse_inet_addr api socket addr_in w) of
        Inl e \<Rightarrow> (Inl e, w)
      | Inr sa \<Rightarrow> (let (res, w) = net_connect api (ctx socket) sa w
                   in (sbind (raise_sock_errno api res w) (\<lambda>_. Inr Mp_None), w)))"

definition socket_listen :: "'w net_api \<Rightarrow> socket_obj \<Rightarrow> mp_obj list \<Rightarrow> 'w \<Rightarrow> (mp_exc + mp_obj) \<times> 'w" where
  "socket_listen api socket args w =
     (case sbind (socket_check_closed socket) (\<lambda>_. opt_int args 0 (net_backlog api)) of
        Inl e \<Rightarrow> (Inl e, w)
      | Inr backlog \<Rightarrow>
          (let backlog = (if length args > 0 \<and> backlog < 0 then 0 else backlog);
               (res, w) = net_listen api (ctx socket) backlog w
           in (sbind (raise_sock_errno api res w) (\<lambda>_. Inr Mp_None), w)))"

text \<open>The descriptor of the accepted connection is not checked.\<close>

definition socket_accept :: "'w net_api \<Rightarrow> socket_obj \<Rightarrow> 'w \<Rightarrow> (mp_exc + socket_obj \<times> mp_obj) \<times> 'w" where
  "socket_accept api socket w =
     (case socket_check_closed socket of
        Inl e \<Rightarrow> (Inl e, w)
      | Inr _ \<Rightarrow> (let (fd, w) = net_accept api (ctx socket) w in (Inr (socket_new fd, Mp_None), w)))"

text \<open>Stream calls return the length or the error code.\<close>

definition sock_write :: "'w net_api \<Rightarrow> socket_obj \<Rightarrow> bytes \<Rightarrow> 'w \<Rightarrow> (int + int) \<times> 'w" where
  "sock_write api socket buf w =
     (if ctx socket = -1 then (Inl EBADF, w)
      else (let (len, w) = net_send api (ctx socket) buf w
            in (if len = -1 then Inl (net_errno api w) else Inr len, w)))"

definition socket_send :: "'w net_api \<Rightarrow> socket_obj \<Rightarrow> mp_obj \<Rightarrow> 'w \<Rightarrow> (mp_exc + mp_obj) \<times> 'w" where
  "socket_send api socket buf_in w =
     (case mp_obj_get_bytes buf_in of
        Inl e \<Rightarrow> (Inl e, w)
      | Inr buf \<Rightarrow> (let (r, w) = sock_write api socket buf w
                    in (case r of Inl err \<Rightarrow> Inl (OSError err) | Inr len \<Rightarrow> Inr (Mp_Int len), w)))"

text \<open>\<open>cap\<close> bytes of memory are at the buffer; more must not arrive.\<close>

definition sock_read :: "'w net_api \<Rightarrow> socket_obj \<Rightarrow> nat \<Rightarrow> nat \<Rightarrow> 'w \<Rightarrow> ((int + bytes) \<times> 'w) option" where
  "sock_read api socket cap max_len w =
     (if ctx socket = -1 then Some (Inl EBADF, w)
      else (let ((len, buf), w) = net_recv api (ctx socket) max_len w
            in if len = -1 then Some (Inl (net_errno api w), w)
               else if nat len > cap then None else Some (Inr (take (nat len) buf), w)))"

text \<open>
  The buffer has one byte more than asked for, and the length is passed on as an unsigned number;
  a buffer of \<open>2 ^ 31\<close> bytes or more does not exist.
\<close>

definition u_size :: "int \<Rightarrow> nat" where "u_size n = unat (word_of_int n :: u32)"

definition socket_recv :: "'w net_api \<Rightarrow> socket_obj \<Rightarrow> mp_obj \<Rightarrow> 'w \<Rightarrow> ((mp_exc + mp_obj) \<times> 'w) option" where
  "socket_recv api socket len_in w =
     (case mp_obj_get_int len_in of
        Inl e \<Rightarrow> Some (Inl e, w)
      | Inr max_len \<Rightarrow>
          (let cap = u_size (max_len + 1)
           in if cap \<ge> 2 ^ 31 then Some (Inl (RuntimeError ''memory allocation failed''), w)
              else do {
                (r, w) \<leftarrow> sock_read api socket cap (u_size max_len) w;
                Some (case r of Inl err \<Rightarrow> Inl (OSError err) | Inr data \<Rightarrow> Inr (Mp_Bytes data), w)
              }))"

text \<open>The port of the peer is given as a null object.\<close>

definition socket_recvfrom :: "'w net_api \<Rightarrow> socket_obj \<Rightarrow> mp_obj \<Rightarrow> 'w \<Rightarrow> ((mp_exc + mp_obj) \<times> 'w) option" where
  "socket_recvfrom api socket len_in w =
     (case sbind (socket_check_closed socket) (\<lambda>_. mp_obj_get_int len_in) of
        Inl e \<Rightarrow> Some (Inl e, w)
      | Inr max_len \<Rightarrow>
          (let cap = u_size (max_len + 1)
           in if cap \<ge> 2 ^ 31 then Some (Inl (RuntimeError ''memory allocation failed''), w)
              else (let ((len, buf, saddr), w) = net_recvfrom api (ctx socket) (u_size max_len) w
                    in if len = -1 then Some (Inl (OSError (net_errno api w)), w)
                       else if nat len > cap then None
                       else Some (Inr (Mp_Tuple [Mp_Bytes (take (nat len) buf),
                              format_inet_addr api saddr Mp_Null]), w))))"

text \<open>Closing: a failed close raises and keeps the descriptor.\<close>

definition sock_close :: "'w net_api \<Rightarrow> socket_obj \<Rightarrow> 'w \<Rightarrow> (mp_exc + socket_obj) \<times> 'w" where
  "sock_close api socket w =
     (if ctx socket \<noteq> -1 then
        (let (res, w) = net_close api (ctx socket) w
         in (sbind (raise_sock_errno api res w) (\<lambda>_. Inr (socket\<lparr>ctx := -1\<rparr>)), w))
      else (Inr socket, w))"

text \<open>The stream interface knows no other request; setting options does nothing but warn, and a file
  made of a socket is the socket.\<close>

datatype stream_request = MP_STREAM_CLOSE | Other_request

definition sock_ioctl :: "'w net_api \<Rightarrow> socket_obj \<Rightarrow> stream_request \<Rightarrow> 'w \<Rightarrow> (mp_exc + int + socket_obj) \<times> 'w" where
  "sock_ioctl api socket request w =
     (case request of
        MP_STREAM_CLOSE \<Rightarrow> (let (r, w) = sock_close api socket w in (sbind r (\<lambda>socket. Inr (Inr socket)), w))
      | Other_request \<Rightarrow> (Inr (Inl MP_EINVAL), w))"

definition socket_setsockopt :: "mp_obj list \<Rightarrow> mp_obj" where
  "socket_setsockopt args = Mp_None"

definition socket_makefile :: "'a \<Rightarrow> mp_obj list \<Rightarrow> 'a" where
  "socket_makefile socket args = socket"

section \<open>Name resolution\<close>

record getaddrinfo_state =
  ga_result :: "mp_obj list"
  ga_sem :: nat
  ga_port :: mp_obj
  ga_status :: int

definition dns_resolve_cb :: "'w net_api \<Rightarrow> dns_event \<Rightarrow> getaddrinfo_state \<Rightarrow> getaddrinfo_state" where
  "dns_resolve_cb api ev state =
     (case ev of
        Dns_status status \<Rightarrow>
          (let status = (if status = net_all_done api then 0 else status)
           in state\<lparr>ga_status := status, ga_sem := ga_sem state + 1\<rparr>)
      | Dns_info family addr \<Rightarrow>
          (let tuple = Mp_Tuple [Mp_Int family, Mp_Int SOCK_STREAM, Mp_Int IPPROTO_TCP, Mp_Str [],
                         format_inet_addr api addr (ga_port state)]
           in state\<lparr>ga_result := ga_result state @ [tuple]\<rparr>))"

text \<open>One query per family: for family 0 the two of them, otherwise one.\<close>

fun resolve_loop ::
  "nat \<Rightarrow> 'w net_api \<Rightarrow> bytes \<Rightarrow> int \<Rightarrow> getaddrinfo_state \<Rightarrow> 'w \<Rightarrow> ((mp_exc + getaddrinfo_state) \<times> 'w) option" where
  "resolve_loop 0 api host family state w = Some (Inr state, w)"
| "resolve_loop (Suc i) api host family state w =
     (let type = (if family \<noteq> AF_INET6 then DNS_QUERY_TYPE_A else DNS_QUERY_TYPE_AAAA);
          ((rc, evs), w) = net_resolve api host type w
      in case raise_errno rc of
           Inl e \<Rightarrow> Some (Inl e, w)
         | Inr _ \<Rightarrow>
             (let state = fold (dns_resolve_cb api) evs state
              in if ga_sem state = 0 then None
                 else (let state = state\<lparr>ga_sem := ga_sem state - 1\<rparr>
                       in if family \<noteq> 0 then Some (Inr state, w)
                          else resolve_loop i api host AF_INET6 state w)))"

text \<open>\<open>junk\<close> is the uninitialised status field of the local structure.\<close>

definition mod_getaddrinfo :: "'w net_api \<Rightarrow> int \<Rightarrow> mp_obj list \<Rightarrow> 'w \<Rightarrow> ((mp_exc + mp_obj) \<times> 'w) option" where
  "mod_getaddrinfo api junk args w =
     (case sbind (if net_dhcpv4 api then mp_obj_get_bytes (args ! 0) else Inr []) (\<lambda>host.
           sbind (if net_dhcpv4 api then opt_int args 2 0 else Inr 0) (\<lambda>family.
           sbind (mp_obj_get_int (args ! 1)) (\<lambda>_. Inr (c_str host, family)))) of
        Inl e \<Rightarrow> Some (Inl e, w)
      | Inr (host, family) \<Rightarrow>
          (let state = \<lparr>ga_result = [], ga_sem = 0, ga_port = args ! 1, ga_status = junk\<rparr>
           in do {
             (r, w) \<leftarrow> (if net_dhcpv4 api then resolve_loop 2 api host family state w else Some (Inr state, w));
             Some (sbind r (\<lambda>state.
               if ga_status state \<noteq> 0 \<and> ga_result state = [] then Inl (OSError (ga_status state))
               else Inr (Mp_List (ga_result state))), w)
           }))"

definition pkt_get_info :: "'w net_api \<Rightarrow> 'w \<Rightarrow> mp_obj" where
  "pkt_get_info api w =
     (case net_free api w of (rx, tx, rx_data, tx_data) \<Rightarrow>
        Mp_Tuple [Mp_Int (int rx), Mp_Int (int tx), Mp_Int (int rx_data), Mp_Int (int tx_data)])"

section \<open>Closed sockets\<close>

text \<open>
  The methods \<open>read\<close>, \<open>readinto\<close>, \<open>readline\<close> and \<open>write\<close> of the table are the interpreter's own, for any stream.  Such a
  method is a program over the socket's protocol: it asks \<open>sock_read\<close> or \<open>sock_write\<close>, goes on with what
  they answer, and ends with an exception or without.
\<close>

datatype stream_method =
    Stream_done "mp_exc option"
  | Stream_read nat nat "int + bytes \<Rightarrow> stream_method"
  | Stream_write bytes "int + int \<Rightarrow> stream_method"

primrec stream_do :: "'w net_api \<Rightarrow> socket_obj \<Rightarrow> stream_method \<Rightarrow> 'w \<Rightarrow> (mp_exc option \<times> 'w) option" where
  "stream_do api s (Stream_done r) w = Some (r, w)"
| "stream_do api s (Stream_read cap n k) w =
     (case sock_read api s cap n w of None \<Rightarrow> None | Some rw \<Rightarrow> stream_do api s (k (fst rw)) (snd rw))"
| "stream_do api s (Stream_write bs k) w =
     (let rw = sock_write api s bs w in stream_do api s (k (fst rw)) (snd rw))"

text \<open>A Python program's calls on one socket, in order; each gives an exception or not.\<close>

datatype sock_call = Do_bind mp_obj | Do_connect mp_obj | Do_listen "mp_obj list" | Do_accept
  | Do_send mp_obj | Do_recv mp_obj | Do_recvfrom mp_obj | Do_setsockopt "mp_obj list" | Do_makefile "mp_obj list"
  | Do_stream stream_method | Do_close

definition raised :: "mp_exc + 'a \<Rightarrow> mp_exc option" where
  "raised r = (case r of Inl e \<Rightarrow> Some e | Inr _ \<Rightarrow> None)"

fun sock_do :: "'w net_api \<Rightarrow> sock_call \<Rightarrow> socket_obj \<Rightarrow> 'w \<Rightarrow> (mp_exc option \<times> socket_obj \<times> 'w) option" where
  "sock_do api (Do_bind a) s w = (let (r, w) = socket_bind api s a w in Some (raised r, s, w))"
| "sock_do api (Do_connect a) s w = (let (r, w) = socket_connect api s a w in Some (raised r, s, w))"
| "sock_do api (Do_listen as) s w = (let (r, w) = socket_listen api s as w in Some (raised r, s, w))"
| "sock_do api Do_accept s w = (let (r, w) = socket_accept api s w in Some (raised r, s, w))"
| "sock_do api (Do_send b) s w = (let (r, w) = socket_send api s b w in Some (raised r, s, w))"
| "sock_do api (Do_recv n) s w = map_option (\<lambda>(r, w). (raised r, s, w)) (socket_recv api s n w)"
| "sock_do api (Do_recvfrom n) s w = map_option (\<lambda>(r, w). (raised r, s, w)) (socket_recvfrom api s n w)"
| "sock_do api (Do_setsockopt as) s w = (let r = socket_setsockopt as in Some (None, s, w))"
| "sock_do api (Do_makefile as) s w = (let s = socket_makefile s as in Some (None, s, w))"
| "sock_do api (Do_stream m) s w = map_option (\<lambda>(r, w). (r, s, w)) (stream_do api s m w)"
| "sock_do api Do_close s w =
     (let (r, w) = sock_ioctl api s MP_STREAM_CLOSE w
      in Some (raised r, case r of Inr (Inr s') \<Rightarrow> s' | _ \<Rightarrow> s, w))"

fun sock_run :: "'w net_api \<Rightarrow> sock_call list \<Rightarrow> socket_obj \<Rightarrow> 'w \<Rightarrow> (mp_exc option list \<times> socket_obj \<times> 'w) option" where
  "sock_run api [] s w = Some ([], s, w)"
| "sock_run api (c # cs) s w = do {
     (r, s, w) \<leftarrow> sock_do api c s w;
     (rs, s, w) \<leftarrow> sock_run api cs s w;
     Some (r # rs, s, w)
   }"

text \<open>
  What a call gives on a closed socket.  Closing, setting an option and making a file succeed; a stream method
  gets \<open>EBADF\<close> from every call of the protocol it makes, and may end well when it makes none.
\<close>

primrec stream_refused :: "stream_method \<Rightarrow> mp_exc option" where
  "stream_refused (Stream_done r) = r"
| "stream_refused (Stream_read cap n k) = stream_refused (k (Inl EBADF))"
| "stream_refused (Stream_write bs k) = stream_refused (k (Inl EBADF))"

fun on_closed :: "sock_call \<Rightarrow> mp_exc option \<Rightarrow> bool" where
  "on_closed Do_close r = (r = None)"
| "on_closed (Do_setsockopt _) r = (r = None)"
| "on_closed (Do_makefile _) r = (r = None)"
| "on_closed (Do_stream m) r = (r = stream_refused m)"
| "on_closed (Do_send b) r = (r = raised (sbind (mp_obj_get_bytes b) (\<lambda>_. Inl (OSError EBADF) :: mp_exc + unit)))"
| "on_closed (Do_recv n) r = (r \<noteq> None)"
| "on_closed _ r = (r = Some (OSError EBADF))"

lemma stream_closed: "ctx s = -1 \<Longrightarrow> stream_do api s m w = Some (stream_refused m, w)"
  by (induction m arbitrary: w) (simp_all add: sock_read_def sock_write_def)

lemma closed_call:
  assumes "ctx s = -1"
  shows "\<exists>r. sock_do api c s w = Some (r, s, w) \<and> on_closed c r"
proof (cases c)
  case (Do_send b)
  then show ?thesis
    using assms by (cases "mp_obj_get_bytes b") (simp_all add: socket_send_def sock_write_def raised_def sbind_def)
next
  case (Do_recv n)
  then show ?thesis
    using assms by (cases "mp_obj_get_int n") (simp_all add: socket_recv_def sock_read_def raised_def Let_def)
qed (use assms in \<open>simp_all add: socket_bind_def socket_connect_def socket_listen_def socket_accept_def
      socket_recvfrom_def sock_ioctl_def sock_close_def socket_setsockopt_def stream_closed
      socket_makefile_def socket_check_closed_def raised_def\<close>)

lemma closed_run:
  "ctx s = -1 \<Longrightarrow> \<exists>rs. sock_run api cs s w = Some (rs, s, w) \<and> list_all2 on_closed cs rs"
proof (induction cs)
  case (Cons c cs)
  obtain r where "sock_do api c s w = Some (r, s, w)" "on_closed c r"
    using closed_call [OF Cons.prems] by metis
  moreover obtain rs where "sock_run api cs s w = Some (rs, s, w)" "list_all2 on_closed cs rs"
    using Cons by blast
  ultimately show ?case by simp
qed simp

text \<open>
  Claim C24.  Once a socket has been closed, none of its methods reaches the network any more, and it
  stays closed.  \<open>bind\<close>, \<open>connect\<close>, \<open>listen\<close>, \<open>accept\<close> and \<open>recvfrom\<close> raise \<open>EBADF\<close>; \<open>send\<close> does, unless its argument
  is not bytes, which it refuses first; \<open>recv\<close> raises something.  Closing again, setting an option and making a file
  do nothing.  \<open>read\<close>, \<open>readinto\<close>, \<open>readline\<close> and \<open>write\<close> are answered \<open>EBADF\<close> by each call of the stream protocol
  they make, and raise or not as they do then - reading or writing nothing makes no such call.
\<close>

theorem socket_closed_for_good:
  assumes "sock_ioctl api s MP_STREAM_CLOSE w = (Inr (Inr s'), w')"
  shows "\<exists>rs. sock_run api calls s' w' = Some (rs, s', w') \<and> list_all2 on_closed calls rs"
proof -
  have "ctx s' = -1"
    using assms by (auto simp: sock_ioctl_def sock_close_def sbind_Inr case_prod_unfold Let_def split: if_splits)
  then show ?thesis by (rule closed_run)
qed

section \<open>Receiving\<close>

lemma u_size_nonneg: "0 \<le> n \<Longrightarrow> n < 2 ^ 32 \<Longrightarrow> u_size n = nat n"
  by (simp add: u_size_def unat_eq_nat_uint unsigned_of_int take_bit_int_eq_self)

lemma u_size_neg: "u_size (- 1) = 2 ^ 32 - 1"
  by (simp add: u_size_def unat_u32_max)

text \<open>
  Receiving a number of bytes that is not negative stays inside the buffer whatever
  the peer sends, since the network returns no more bytes than asked for; a length of -1 asks the
  network for \<open>2 ^ 32 - 1\<close> bytes into a buffer of none, so that any data overruns it.
\<close>

lemma socket_recv_bounds:
  assumes net: "\<forall>fd n w. fst (fst (net_recv api fd n w)) \<le> int n" and "ctx s \<noteq> -1"
  shows "(0 \<le> n \<and> n < 2 ^ 31 - 1 \<longrightarrow>
      (\<exists>r w'. socket_recv api s (Mp_Int n) w = Some (r, w') \<and>
        (\<forall>d. r = Inr (Mp_Bytes d) \<longrightarrow> int (length d) \<le> n))) \<and>
    (0 < fst (fst (net_recv api (ctx s) (2 ^ 32 - 1) w)) \<longrightarrow> socket_recv api s (Mp_Int (- 1)) w = None)"
proof (intro conjI impI)
  assume n: "0 \<le> n \<and> n < 2 ^ 31 - 1"
  have c: "u_size (n + 1) = nat n + 1" "u_size n = nat n"
    using n by (simp_all add: u_size_nonneg nat_add_distrib)
  obtain len buf w1 where r: "net_recv api (ctx s) (nat n) w = ((len, buf), w1)"
    by (metis prod.exhaust_sel)
  have "len \<le> int (nat n)"
    using net [rule_format, of "ctx s" "nat n" w] r by simp
  then show "\<exists>r w'. socket_recv api s (Mp_Int n) w = Some (r, w') \<and>
      (\<forall>d. r = Inr (Mp_Bytes d) \<longrightarrow> int (length d) \<le> n)"
    using n assms(2) by (auto simp: socket_recv_def mp_obj_get_int_def c sock_read_def r Let_def)
next
  assume "0 < fst (fst (net_recv api (ctx s) (2 ^ 32 - 1) w))"
  then show "socket_recv api s (Mp_Int (- 1)) w = None"
    using assms(2) by (auto simp: socket_recv_def mp_obj_get_int_def sock_read_def u_size_neg case_prod_unfold Let_def)
      (simp_all add: u_size_def)
qed

section \<open>Name resolution\<close>

definition infos :: "(int \<times> sockaddr) list \<Rightarrow> int \<Rightarrow> dns_event list" where
  "infos xs st = map (\<lambda>(f, a). Dns_info f a) xs @ [Dns_status st]"

definition info_obj :: "'w net_api \<Rightarrow> mp_obj \<Rightarrow> int \<times> sockaddr \<Rightarrow> mp_obj" where
  "info_obj api port x =
     Mp_Tuple [Mp_Int (fst x), Mp_Int SOCK_STREAM, Mp_Int IPPROTO_TCP, Mp_Str [], format_inet_addr api (snd x) port]"

lemma fold_infos:
  "fold (dns_resolve_cb api) (infos xs st) s =
    s\<lparr>ga_result := ga_result s @ map (info_obj api (ga_port s)) xs,
      ga_status := (if st = net_all_done api then 0 else st), ga_sem := ga_sem s + 1\<rparr>"
proof (induction xs arbitrary: s)
  case Nil
  then show ?case by (simp add: infos_def dns_resolve_cb_def)
next
  case (Cons x xs)
  then show ?case
    by (cases x) (simp add: infos_def dns_resolve_cb_def info_obj_def)
qed

text \<open>
  Claim C25.  Without a family both address families are asked, first the IPv4 addresses, and the
  answers are listed in that order; an error status of the last query is raised only when there
  is no address at all.  If the second query cannot be started its error is raised, although the
  first may have found addresses.
\<close>

theorem getaddrinfo_both_families:
  assumes "net_dhcpv4 api" and "port = Mp_Int p"
    and "net_resolve api (c_str host) DNS_QUERY_TYPE_A w = ((rc1, infos xs st1), w1)" and "0 \<le> rc1"
    and "net_resolve api (c_str host) DNS_QUERY_TYPE_AAAA w1 = ((rc2, if rc2 < 0 then [] else infos ys st2), w2)"
  shows "mod_getaddrinfo api junk [Mp_Str host, port] w =
    Some (if rc2 < 0 then Inl (OSError (- rc2))
          else if xs = [] \<and> ys = [] \<and> st2 \<noteq> 0 \<and> st2 \<noteq> net_all_done api then Inl (OSError st2)
          else Inr (Mp_List (map (info_obj api port) (xs @ ys))), w2)"
  using assms
  by (simp add: mod_getaddrinfo_def opt_int_def mp_obj_get_bytes_def mp_obj_get_int_def numeral_2_eq_2
      raise_errno_def fold_infos AF_INET6_def Let_def)

section \<open>A network\<close>

text \<open>A network that counts the calls made to it, answers every read with one byte, and resolves
  every name to one IPv4 address but cannot start IPv6 queries.\<close>

definition ex_addr :: sockaddr where
  "ex_addr = \<lparr>sa_family = 1, sa_addr = [10, 0, 0, 1], sa_port = 0, sa_scope = 0\<rparr>"

definition ex_net :: "nat net_api" where
  "ex_net =
     \<lparr>net_socket = (\<lambda>f t p n. (3, n + 1)), net_bind = (\<lambda>s a n. (0, n + 1)), net_connect = (\<lambda>s a n. (0, n + 1)),
      net_listen = (\<lambda>s b n. (0, n + 1)), net_accept = (\<lambda>s n. (4, n + 1)), net_send = (\<lambda>s b n. (int (length b), n + 1)),
      net_recv = (\<lambda>s m n. ((if m = 0 then 0 else 1, [65]), n + 1)),
      net_recvfrom = (\<lambda>s m n. ((1, [65], ex_addr), n + 1)),
      net_close = (\<lambda>s n. (0, n + 1)), net_errno = (\<lambda>n. 5), net_family = (\<lambda>s n. 1),
      net_pton = (\<lambda>f h. (0, h)), net_ntop = (\<lambda>f a. a),
      net_resolve = (\<lambda>h q n. (case q of DNS_QUERY_TYPE_A \<Rightarrow> ((0, infos [(1, ex_addr)] (- 16)), n + 1)
         | DNS_QUERY_TYPE_AAAA \<Rightarrow> ((- 12, []), n + 1))),
      net_free = (\<lambda>n. (1, 1, 1, 1)), net_all_done = - 16, net_backlog = 2, net_dhcpv4 = True\<rparr>"

lemma socket_closed_for_good_witness:
  "\<exists>rs. sock_run ex_net [Do_accept, Do_close, Do_recv (Mp_Int 4), Do_stream (Stream_done None),
       Do_stream (Stream_read 4 4 (\<lambda>r. case r of Inl e \<Rightarrow> Stream_done (Some (OSError e)) | Inr _ \<Rightarrow> Stream_done None))]
      (socket_new (- 1)) 8 = Some (rs, socket_new (- 1), 8) \<and>
    length rs = 5 \<and> rs ! 0 = Some (OSError EBADF) \<and> rs ! 2 \<noteq> None \<and> rs ! 3 = None \<and> rs ! 4 = Some (OSError EBADF)"
proof -
  have "sock_ioctl ex_net (socket_new 3) MP_STREAM_CLOSE 7 = (Inr (Inr (socket_new (- 1))), 8)"
    by (simp add: sock_ioctl_def sock_close_def ex_net_def raise_sock_errno_def socket_new_def)
  from socket_closed_for_good [OF this, of "[Do_accept, Do_close, Do_recv (Mp_Int 4), Do_stream (Stream_done None),
       Do_stream (Stream_read 4 4 (\<lambda>r. case r of Inl e \<Rightarrow> Stream_done (Some (OSError e)) | Inr _ \<Rightarrow> Stream_done None))]"]
  show ?thesis by (auto simp: list_all2_Cons1)
qed

lemma socket_recv_bounds_witness:
  "socket_recv ex_net (socket_new 3) (Mp_Int (- 1)) 0 = None"
proof -
  have "\<forall>fd n w. fst (fst (net_recv ex_net fd n w)) \<le> int n"
    by (auto simp: ex_net_def)
  from socket_recv_bounds [OF this, of "socket_new 3"] show ?thesis
    by (simp add: socket_new_def) (simp add: ex_net_def)
qed

text \<open>The IPv4 address found is lost.\<close>

lemma getaddrinfo_both_families_witness:
  "mod_getaddrinfo ex_net 0 [Mp_Str [104], Mp_Int 80] 0 = Some (Inl (OSError 12), 2)"
  using getaddrinfo_both_families [of ex_net "Mp_Int 80" 80 "[104]" 0 0 "[(1, ex_addr)]" "- 16" 1 "- 12" "[]" 0 2 0]
  by (simp add: ex_net_def)

end
