(* ===== verification/Zephyr_Storage.thy ===== *)
theory Zephyr_Storage
  imports Mp_Base
begin

text \<open>
  The Python block devices on Zephyr's disks and flash partitions, after
  \<open>app/micropython/zephyr_storage.c\<close>.  The drivers are parameters: records of the
  calls over a state \<open>'w\<close>.  A buffer to read into is given by its length and returned
  with what the driver filled in.  \<open>None\<close> is a division by zero.
\<close>

section \<open>Disks\<close>

datatype disk_cmd = DISK_IOCTL_GET_SECTOR_SIZE | DISK_IOCTL_GET_SECTOR_COUNT | DISK_IOCTL_CTRL_SYNC

record 'w disk_api =
  disk_init :: "bytes \<Rightarrow> 'w \<Rightarrow> int \<times> 'w"
  disk_ioctl :: "bytes \<Rightarrow> disk_cmd \<Rightarrow> 'w \<Rightarrow> (int \<times> int) \<times> 'w"
  disk_read :: "bytes \<Rightarrow> u32 \<Rightarrow> u32 \<Rightarrow> 'w \<Rightarrow> (int \<times> bytes) \<times> 'w"
  disk_write :: "bytes \<Rightarrow> bytes \<Rightarrow> u32 \<Rightarrow> u32 \<Rightarrow> 'w \<Rightarrow> int \<times> 'w"

record disk_obj =
  dk_pdrv :: bytes
  dk_block_size :: int
  dk_block_count :: int

definition zephyr_disk_access_make_new :: "'w disk_api \<Rightarrow> mp_obj \<Rightarrow> 'w \<Rightarrow> (mp_exc + disk_obj) \<times> 'w" where
  "zephyr_disk_access_make_new api arg w =
     (case mp_obj_get_bytes arg of
        Inl e \<Rightarrow> (Inl e, w)
      | Inr s \<Rightarrow>
          (let pdrv = c_str s;
               (rc, w) = disk_init api pdrv w
           in if rc \<noteq> 0 then (Inl (ValueError ''disk not found''), w)
              else (let ((rc, block_size), w) = disk_ioctl api pdrv DISK_IOCTL_GET_SECTOR_SIZE w
                    in if rc \<noteq> 0 then (Inl (ValueError ''unable to get sector size''), w)
                       else (let ((rc, block_count), w) = disk_ioctl api pdrv DISK_IOCTL_GET_SECTOR_COUNT w
                             in if rc \<noteq> 0 then (Inl (ValueError ''unable to get block count''), w)
                                else (Inr \<lparr>dk_pdrv = pdrv, dk_block_size = block_size, dk_block_count = block_count\<rparr>, w)))))"

text \<open>Whole sectors of the buffer; the rest of it is left out.\<close>

definition sectors :: "nat \<Rightarrow> int \<Rightarrow> u32 option" where
  "sectors len block_size = (if block_size = 0 then None else Some (of_nat len div word_of_int block_size))"

definition zephyr_disk_access_readblocks ::
  "'w disk_api \<Rightarrow> disk_obj \<Rightarrow> mp_obj \<Rightarrow> nat \<Rightarrow> 'w \<Rightarrow> ((mp_exc + mp_obj \<times> bytes) \<times> 'w) option" where
  "zephyr_disk_access_readblocks api self block_num len w =
     (case mp_obj_get_int block_num of
        Inl e \<Rightarrow> Some (Inl e, w)
      | Inr n \<Rightarrow> do {
          count \<leftarrow> sectors len (dk_block_size self);
          let ((ret, data), w) = disk_read api (dk_pdrv self) (word_of_int n) count w;
          Some (Inr (Mp_Int ret, data), w)
        })"

definition zephyr_disk_access_writeblocks ::
  "'w disk_api \<Rightarrow> disk_obj \<Rightarrow> mp_obj \<Rightarrow> bytes \<Rightarrow> 'w \<Rightarrow> ((mp_exc + mp_obj) \<times> 'w) option" where
  "zephyr_disk_access_writeblocks api self block_num buf w =
     (case mp_obj_get_int block_num of
        Inl e \<Rightarrow> Some (Inl e, w)
      | Inr n \<Rightarrow> do {
          count \<leftarrow> sectors (length buf) (dk_block_size self);
          let (ret, w) = disk_write api (dk_pdrv self) buf (word_of_int n) count w;
          Some (Inr (Mp_Int ret), w)
        })"

definition BLOCKDEV_INIT :: int where "BLOCKDEV_INIT = 1"
definition BLOCKDEV_DEINIT :: int where "BLOCKDEV_DEINIT = 2"
definition BLOCKDEV_SYNC :: int where "BLOCKDEV_SYNC = 3"
definition BLOCKDEV_BLOCK_COUNT :: int where "BLOCKDEV_BLOCK_COUNT = 4"
definition BLOCKDEV_BLOCK_SIZE :: int where "BLOCKDEV_BLOCK_SIZE = 5"
definition BLOCKDEV_BLOCK_ERASE :: int where "BLOCKDEV_BLOCK_ERASE = 6"

lemmas blockdev_defs = BLOCKDEV_INIT_def BLOCKDEV_DEINIT_def BLOCKDEV_SYNC_def BLOCKDEV_BLOCK_COUNT_def
  BLOCKDEV_BLOCK_SIZE_def BLOCKDEV_BLOCK_ERASE_def

definition zephyr_disk_access_ioctl :: "'w disk_api \<Rightarrow> disk_obj \<Rightarrow> mp_obj \<Rightarrow> 'w \<Rightarrow> (mp_exc + mp_obj) \<times> 'w" where
  "zephyr_disk_access_ioctl api self cmd_in w =
     (case mp_obj_get_int cmd_in of
        Inl e \<Rightarrow> (Inl e, w)
      | Inr cmd \<Rightarrow>
          if cmd = BLOCKDEV_INIT \<or> cmd = BLOCKDEV_DEINIT then (Inr (Mp_Int 0), w)
          else if cmd = BLOCKDEV_SYNC then
            (let ((ret, buf), w) = disk_ioctl api (dk_pdrv self) DISK_IOCTL_CTRL_SYNC w in (Inr (Mp_Int ret), w))
          else if cmd = BLOCKDEV_BLOCK_COUNT then (Inr (Mp_Int (dk_block_count self)), w)
          else if cmd = BLOCKDEV_BLOCK_SIZE then (Inr (Mp_Int (dk_block_size self)), w)
          else (Inr (Mp_Int (- 1)), w))"

section \<open>Flash partitions\<close>

text \<open>A partition is known to the driver by its one-byte id.\<close>

record 'w area_api =
  area_open :: "u8 \<Rightarrow> 'w \<Rightarrow> (int \<times> nat) \<times> 'w"
  area_read :: "u8 \<Rightarrow> int \<Rightarrow> nat \<Rightarrow> 'w \<Rightarrow> int \<times> bytes"
  area_write :: "u8 \<Rightarrow> int \<Rightarrow> bytes \<Rightarrow> 'w \<Rightarrow> int \<times> 'w"
  area_erase :: "u8 \<Rightarrow> int \<Rightarrow> int \<Rightarrow> 'w \<Rightarrow> int \<times> 'w"

record area_obj =
  ar_id :: u8
  ar_block_size :: int
  ar_block_count :: int

definition zephyr_flash_area_make_new :: "'w area_api \<Rightarrow> mp_obj \<Rightarrow> mp_obj \<Rightarrow> 'w \<Rightarrow> (mp_exc + area_obj) \<times> 'w" where
  "zephyr_flash_area_make_new api id_in size_in w =
     (case sbind (mp_obj_get_int id_in) (\<lambda>i. sbind (mp_obj_get_int size_in) (\<lambda>n. Inr (word_of_int i, n))) of
        Inl e \<Rightarrow> (Inl e, w)
      | Inr (i, block_size) \<Rightarrow>
          if block_size \<le> 0 then (Inl (ValueError ''invalid block size''), w)
          else (let ((rc, fa_size), w) = area_open api i w
                in if rc \<noteq> 0 then (Inl (ValueError ''unable to open flash area''), w)
                   else (Inr \<lparr>ar_id = i, ar_block_size = block_size, ar_block_count = int fa_size div block_size\<rparr>, w)))"

text \<open>The product is taken in 32 bits; the optional offset is added to it.\<close>

definition block_offset :: "area_obj \<Rightarrow> int \<Rightarrow> int" where
  "block_offset self block_num = uint (word_of_int block_num * word_of_int (ar_block_size self) :: u32)"

definition zephyr_flash_area_readblocks ::
  "'w area_api \<Rightarrow> area_obj \<Rightarrow> mp_obj \<Rightarrow> nat \<Rightarrow> mp_obj option \<Rightarrow> 'w \<Rightarrow> mp_exc + mp_obj \<times> bytes" where
  "zephyr_flash_area_readblocks api self block_num len off w =
     sbind (mp_obj_get_int block_num) (\<lambda>n.
     sbind (case off of None \<Rightarrow> Inr 0 | Some x \<Rightarrow> mp_obj_get_int x) (\<lambda>x.
     let (ret, data) = area_read api (ar_id self) (block_offset self n + x) len w in Inr (Mp_Int ret, data)))"

text \<open>Without an offset one block is erased first, however long the buffer is.\<close>

definition zephyr_flash_area_writeblocks ::
  "'w area_api \<Rightarrow> area_obj \<Rightarrow> mp_obj \<Rightarrow> bytes \<Rightarrow> mp_obj option \<Rightarrow> 'w \<Rightarrow> (mp_exc + mp_obj) \<times> 'w" where
  "zephyr_flash_area_writeblocks api self block_num buf off w =
     (case mp_obj_get_int block_num of
        Inl e \<Rightarrow> (Inl e, w)
      | Inr n \<Rightarrow>
          (let offset = block_offset self n
           in case off of
                None \<Rightarrow>
                  (let (ret, w) = area_erase api (ar_id self) offset (ar_block_size self) w
                   in if ret \<noteq> 0 then (Inr (Mp_Int ret), w)
                      else (let (ret, w) = area_write api (ar_id self) offset buf w in (Inr (Mp_Int ret), w)))
              | Some x \<Rightarrow>
                  (case mp_obj_get_int x of
                     Inl e \<Rightarrow> (Inl e, w)
                   | Inr x \<Rightarrow> (let (ret, w) = area_write api (ar_id self) (offset + x) buf w in (Inr (Mp_Int ret), w)))))"

definition zephyr_flash_area_ioctl :: "'w area_api \<Rightarrow> area_obj \<Rightarrow> mp_obj \<Rightarrow> mp_obj \<Rightarrow> 'w \<Rightarrow> (mp_exc + mp_obj) \<times> 'w" where
  "zephyr_flash_area_ioctl api self cmd_in arg_in w =
     (case sbind (mp_obj_get_int cmd_in) (\<lambda>cmd. sbind (mp_obj_get_int arg_in) (\<lambda>n. Inr (cmd, n))) of
        Inl e \<Rightarrow> (Inl e, w)
      | Inr (cmd, block_num) \<Rightarrow>
          if cmd = BLOCKDEV_INIT \<or> cmd = BLOCKDEV_DEINIT \<or> cmd = BLOCKDEV_SYNC then (Inr (Mp_Int 0), w)
          else if cmd = BLOCKDEV_BLOCK_COUNT then (Inr (Mp_Int (ar_block_count self)), w)
          else if cmd = BLOCKDEV_BLOCK_SIZE then (Inr (Mp_Int (ar_block_size self)), w)
          else if cmd = BLOCKDEV_BLOCK_ERASE then
            (let (ret, w) = area_erase api (ar_id self)
               (sint (word_of_int block_num * word_of_int (ar_block_size self) :: u32)) (ar_block_size self) w
             in (Inr (Mp_Int ret), w))
          else (Inr (Mp_Int (- 1)), w))"

section \<open>Blocks on flash\<close>

text \<open>
  What the driver of a NOR flash promises, with \<open>cells\<close> the bytes of a partition: inside the
  partition, reading returns the bytes, erasing whole blocks sets their bits, and writing can only
  clear bits; outside nothing happens.
\<close>

definition nor_flash :: "'w area_api \<Rightarrow> ('w \<Rightarrow> u8 \<Rightarrow> bytes) \<Rightarrow> nat \<Rightarrow> bool" where
  "nor_flash api cells erase_size \<longleftrightarrow>
     (\<forall>a off n w. 0 \<le> off \<and> nat off + n \<le> length (cells w a) \<longrightarrow>
        area_read api a off n w = (0, take n (drop (nat off) (cells w a)))) \<and>
     (\<forall>a off buf w. 0 \<le> off \<and> nat off + length buf \<le> length (cells w a) \<longrightarrow>
        (\<exists>w'. area_write api a off buf w = (0, w') \<and>
          cells w' a = take (nat off) (cells w a) @ map2 (AND) buf (drop (nat off) (cells w a)) @
            drop (nat off + length buf) (cells w a))) \<and>
     (\<forall>a off n w. 0 \<le> off \<and> 0 \<le> n \<and> nat off + nat n \<le> length (cells w a) \<and>
        erase_size dvd nat off \<and> erase_size dvd nat n \<longrightarrow>
        (\<exists>w'. area_erase api a off n w = (0, w') \<and>
          cells w' a = take (nat off) (cells w a) @ replicate (nat n) (- 1) @ drop (nat off + nat n) (cells w a)))"

lemma block_offset_eq:
  assumes "0 \<le> n" "0 < ar_block_size self" "n * ar_block_size self < 2 ^ 32"
  shows "block_offset self n = n * ar_block_size self"
proof -
  have "0 \<le> n * ar_block_size self" using assms by simp
  then have "uint (word_of_int (n * ar_block_size self) :: u32) = n * ar_block_size self"
    using assms(3) by (subst unsigned_of_int) (simp add: take_bit_int_eq_self)
  then show ?thesis by (simp only: block_offset_def wi_hom_mult)
qed

lemma map2_and_erased:
  "map2 (AND) buf (replicate n (- 1 :: u8) @ r) = take n buf @ map2 (AND) (drop n buf) r"
proof (induction buf arbitrary: n)
  case (Cons b buf)
  then show ?case by (cases n) simp_all
qed simp

text \<open>Erasing a block of a partition and writing a buffer at its start.\<close>

lemma erase_write:
  fixes C :: bytes
  assumes "at + max bs (length buf) \<le> length C"
  defines "C1 \<equiv> take at C @ replicate bs (- 1) @ drop (at + bs) C"
  defines "C2 \<equiv> take at C1 @ map2 (AND) buf (drop at C1) @ drop (at + length buf) C1"
  shows "length C1 = length C" "length C2 = length C"
    "take (length buf) (drop at C2) = take bs buf @ map2 (AND) (drop bs buf) (drop (at + bs) C)"
    "take at C2 = take at C" "drop (at + max bs (length buf)) C2 = drop (at + max bs (length buf)) C"
proof -
  show l1: "length C1 = length C" using assms(1) by (simp add: C1_def)
  have at: "at \<le> length C" "length (take at C) = at" using assms(1) by simp_all
  have d: "drop at C1 = replicate bs (- 1) @ drop (at + bs) C" "take at C1 = take at C"
    using at by (simp_all add: C1_def)
  have m: "map2 (AND) buf (drop at C1) = take bs buf @ map2 (AND) (drop bs buf) (drop (at + bs) C)"
    by (simp add: d map2_and_erased)
  have lm: "length (map2 (AND) buf (drop at C1)) = length buf"
    using assms(1) l1 by simp
  show "length C2 = length C"
    using assms(1) l1 lm at by (simp add: C2_def d(2))
  have C2: "C2 = take at C @ map2 (AND) buf (drop at C1) @ drop (at + length buf) C1"
    by (simp add: C2_def d(2))
  show "take (length buf) (drop at C2) = take bs buf @ map2 (AND) (drop bs buf) (drop (at + bs) C)"
    unfolding C2 m [symmetric] using at lm by simp
  show "take at C2 = take at C"
    unfolding C2 using at by simp
  have "drop (at + max bs (length buf)) C2 = drop (max bs (length buf) - length buf) (drop (at + length buf) C1)"
    unfolding C2 using at lm by simp
  also have "\<dots> = drop (at + max bs (length buf)) C1"
    by (simp add: add.commute add.left_commute)
  also have "\<dots> = drop (at + max bs (length buf)) C"
    unfolding C1_def using at by (simp add: add.commute)
  finally show "drop (at + max bs (length buf)) C2 = drop (at + max bs (length buf)) C" .
qed

text \<open>
  Claim C26.  Writing a block, or less, erases that block only and reading it gives the bytes
  back; what is written past the first block of a longer buffer is combined with the old
  contents, of which it can only clear bits.
\<close>

theorem flash_block_roundtrip:
  assumes fl: "nor_flash api cells es" and s: "0 < ar_block_size self" "int es dvd ar_block_size self"
    and n: "0 \<le> n" "n * ar_block_size self < 2 ^ 32"
    and inside: "n * ar_block_size self + int (max (nat (ar_block_size self)) (length buf)) \<le> int (length (cells w (ar_id self)))"
  shows "\<exists>w'. zephyr_flash_area_writeblocks api self (Mp_Int n) buf None w = (Inr (Mp_Int 0), w') \<and>
    (let bs = nat (ar_block_size self); at = nat (n * ar_block_size self); old = drop (at + bs) (cells w (ar_id self))
     in zephyr_flash_area_readblocks api self (Mp_Int n) (length buf) None w' =
          Inr (Mp_Int 0, take bs buf @ map2 (AND) (drop bs buf) old) \<and>
        take at (cells w' (ar_id self)) = take at (cells w (ar_id self)) \<and>
        drop (at + max bs (length buf)) (cells w' (ar_id self)) =
          drop (at + max bs (length buf)) (cells w (ar_id self)))"
proof -
  let ?a = "ar_id self" and ?bs = "nat (ar_block_size self)" and ?at = "nat (n * ar_block_size self)"
  have off: "block_offset self n = n * ar_block_size self"
    using n s(1) by (intro block_offset_eq)
  have pos: "0 \<le> n * ar_block_size self"
    using n(1) s(1) by simp
  have fit: "?at + max ?bs (length buf) \<le> length (cells w ?a)"
    using inside pos by linarith
  have fit1: "?at + ?bs \<le> length (cells w ?a)"
    by (rule order_trans [OF _ fit]) simp
  have dvd: "es dvd ?at" "es dvd ?bs"
    using s pos by (auto simp flip: int_dvd_int_iff)
  let ?C1 = "take ?at (cells w ?a) @ replicate ?bs (- 1) @ drop (?at + ?bs) (cells w ?a)"
  note ew = erase_write [OF fit]
  from fl have
    area_rd: "\<And>a off n w. 0 \<le> off \<Longrightarrow> nat off + n \<le> length (cells w a) \<Longrightarrow>
      area_read api a off n w = (0, take n (drop (nat off) (cells w a)))" and
    area_er: "\<And>off n w a. 0 \<le> off \<Longrightarrow> 0 \<le> n \<Longrightarrow> nat off + nat n \<le> length (cells w a) \<Longrightarrow>
      es dvd nat off \<Longrightarrow> es dvd nat n \<Longrightarrow> \<exists>w'. area_erase api a off n w = (0, w') \<and>
      cells w' a = take (nat off) (cells w a) @ replicate (nat n) (- 1) @ drop (nat off + nat n) (cells w a)" and
    area_wr: "\<And>off buf w a. 0 \<le> off \<Longrightarrow> nat off + length buf \<le> length (cells w a) \<Longrightarrow>
      \<exists>w'. area_write api a off buf w = (0, w') \<and>
      cells w' a = take (nat off) (cells w a) @ map2 (AND) buf (drop (nat off) (cells w a)) @
        drop (nat off + length buf) (cells w a)"
    unfolding nor_flash_def by blast+
  obtain w1 where e: "area_erase api ?a (n * ar_block_size self) (ar_block_size self) w = (0, w1)" "cells w1 ?a = ?C1"
    using area_er [of "n * ar_block_size self" "ar_block_size self" w ?a] fit1 pos s(1) dvd by auto
  have l1: "?at + length buf \<le> length (cells w1 ?a)"
    using fit ew(1) by (simp add: e(2))
  then obtain w2 where wr: "area_write api ?a (n * ar_block_size self) buf w1 = (0, w2)"
      "cells w2 ?a = take ?at ?C1 @ map2 (AND) buf (drop ?at ?C1) @ drop (?at + length buf) ?C1"
    using area_wr [OF pos, of buf w1 ?a] unfolding e(2) by blast
  have fit2: "?at + length buf \<le> length (cells w ?a)"
    by (rule order_trans [OF _ fit]) simp
  have "length (cells w2 ?a) = length (cells w ?a)"
    unfolding wr(2) by (rule ew(2))
  with fit2 have "?at + length buf \<le> length (cells w2 ?a)" by simp
  then have rd: "area_read api ?a (n * ar_block_size self) (length buf) w2 = (0, take (length buf) (drop ?at (cells w2 ?a)))"
    using area_rd [OF pos] by blast
  have got: "take (length buf) (drop ?at (cells w2 ?a)) = take ?bs buf @ map2 (AND) (drop ?bs buf) (drop (?at + ?bs) (cells w ?a))"
    unfolding wr(2) by (rule ew(3))
  have "zephyr_flash_area_readblocks api self (Mp_Int n) (length buf) None w2 =
      Inr (Mp_Int 0, take ?bs buf @ map2 (AND) (drop ?bs buf) (drop (?at + ?bs) (cells w ?a)))"
    unfolding got [symmetric] by (simp add: zephyr_flash_area_readblocks_def mp_obj_get_int_def off rd)
  moreover have "zephyr_flash_area_writeblocks api self (Mp_Int n) buf None w = (Inr (Mp_Int 0), w2)"
    by (simp add: zephyr_flash_area_writeblocks_def mp_obj_get_int_def off e wr Let_def)
  moreover have "take ?at (cells w2 ?a) = take ?at (cells w ?a)"
      "drop (?at + max ?bs (length buf)) (cells w2 ?a) = drop (?at + max ?bs (length buf)) (cells w ?a)"
    unfolding wr(2) by (rule ew(4), rule ew(5))
  ultimately show ?thesis
    unfolding Let_def by (intro exI [of _ w2] conjI)
qed

text \<open>A partition of sixteen cleared bytes.\<close>

definition ex_area :: "(u8 \<Rightarrow> bytes) area_api" where
  "ex_area =
     \<lparr>area_open = (\<lambda>a w. ((0, length (w a)), w)),
      area_read = (\<lambda>a off n w. (0, take n (drop (nat off) (w a)))),
      area_write = (\<lambda>a off buf w. (0, w(a := take (nat off) (w a) @ map2 (AND) buf (drop (nat off) (w a)) @
         drop (nat off + length buf) (w a)))),
      area_erase = (\<lambda>a off n w. (0, w(a := take (nat off) (w a) @ replicate (nat n) (- 1) @
         drop (nat off + nat n) (w a))))\<rparr>"

lemma ex_area_ok: "nor_flash ex_area (\<lambda>w. w) 4"
  by (simp add: nor_flash_def ex_area_def)

definition ex_area_obj :: area_obj where
  "ex_area_obj = \<lparr>ar_id = 0, ar_block_size = 4, ar_block_count = 4\<rparr>"

text \<open>Of six bytes written at block 1 the first four arrive; the others meet cleared bits.\<close>

lemma flash_block_roundtrip_witness:
  "\<exists>w'. zephyr_flash_area_writeblocks ex_area ex_area_obj (Mp_Int 1) [1, 2, 3, 4, 5, 6] None (\<lambda>a. replicate 16 0) = (Inr (Mp_Int 0), w') \<and>
    zephyr_flash_area_readblocks ex_area ex_area_obj (Mp_Int 1) 6 None w' = Inr (Mp_Int 0, [1, 2, 3, 4, 0, 0])"
  using flash_block_roundtrip [OF ex_area_ok, of ex_area_obj 1 "[1, 2, 3, 4, 5, 6]" "\<lambda>a. replicate 16 0"]
  by (auto simp: ex_area_obj_def Let_def numeral_eq_Suc)

end
