(* ===== verification/App_Uart.thy ===== *)
theory App_Uart
  imports Sdkz_Prelude
begin

text \<open>
  The three ways to run the command interface over a serial line, after \<open>lib/app/uart.c\<close>:
  interrupt driven, asynchronous and polling.  Both buffered ways move bytes through ring buffers
  that a thread fills and an interrupt drains, or the other way round.

  The ring buffer and the driver are parameters: records of their calls over states \<open>'r\<close>
  and \<open>'d\<close>.  \<open>ring_ok\<close> and \<open>uart_ok\<close> name what their documentation
  promises.  \<open>None\<close> is a call that blocks, or an interrupt handler that does not return.
\<close>

section \<open>Interfaces\<close>

text \<open>
  A ring buffer has its contents, oldest byte first, and the number of them claimed for reading.
  A claim gives the bytes behind the claimed ones, or the room, that lie in one piece; finishing
  releases or publishes as many of them as were used and ends the claim.
\<close>

record 'r ring_ops =
  rb_bytes :: "'r \<Rightarrow> bytes"
  rb_claimed :: "'r \<Rightarrow> nat"
  rb_put :: "bytes \<Rightarrow> 'r \<Rightarrow> nat \<times> 'r"
  rb_get :: "nat \<Rightarrow> 'r \<Rightarrow> bytes \<times> 'r"
  rb_get_claim :: "nat \<Rightarrow> 'r \<Rightarrow> bytes \<times> 'r"
  rb_get_finish :: "nat \<Rightarrow> 'r \<Rightarrow> 'r"
  rb_put_claim :: "nat \<Rightarrow> 'r \<Rightarrow> nat \<times> 'r"
  rb_put_finish :: "bytes \<Rightarrow> 'r \<Rightarrow> int \<times> 'r"
  rb_init :: "nat \<Rightarrow> 'r"

record 'd uart_ops =
  irq_update :: "'d \<Rightarrow> 'd"
  irq_is_pending :: "'d \<Rightarrow> int"
  irq_rx_ready :: "'d \<Rightarrow> bool"
  irq_tx_ready :: "'d \<Rightarrow> bool"
  irq_tx_enable :: "'d \<Rightarrow> 'd"
  irq_tx_disable :: "'d \<Rightarrow> 'd"
  irq_rx_enable :: "'d \<Rightarrow> 'd"
  fifo_read :: "nat \<Rightarrow> 'd \<Rightarrow> (int \<times> bytes) \<times> 'd"
  fifo_fill :: "bytes \<Rightarrow> 'd \<Rightarrow> int \<times> 'd"
  poll_out :: "u8 \<Rightarrow> 'd \<Rightarrow> 'd"
  poll_in :: "'d \<Rightarrow> (int \<times> u8) \<times> 'd"
  uart_tx :: "bytes \<Rightarrow> 'd \<Rightarrow> int \<times> 'd"
  rx_enable :: "nat \<Rightarrow> nat \<Rightarrow> 'd \<Rightarrow> 'd"
  rx_buf_rsp :: "nat \<Rightarrow> nat \<Rightarrow> 'd \<Rightarrow> 'd"
  wire :: "'d \<Rightarrow> bytes"

section \<open>State\<close>

definition RX_BUF_SIZE :: nat where "RX_BUF_SIZE = 512"
definition TX_BUF_SIZE :: nat where "TX_BUF_SIZE = 512"
definition UART_FIFO_SIZE :: nat where "UART_FIFO_SIZE = 64"

text \<open>The two FIFO buffers are known by their index.\<close>

record 'r handle =
  tx_done :: nat
  rx_done :: nat
  tx_ring :: 'r
  rx_ring :: 'r
  fifo_next :: nat
  bytes_send :: int

definition sem_give :: "nat \<Rightarrow> nat" where "sem_give n = min 1 (n + 1)"

section \<open>Set up\<close>

definition init_handle :: "'r ring_ops \<Rightarrow> bool \<Rightarrow> bool \<Rightarrow> 'r handle option" where
  "init_handle R ready memory =
     (if \<not> ready then None else if \<not> memory then None
      else Some \<lparr>tx_done = 1, rx_done = 0, tx_ring = rb_init R TX_BUF_SIZE, rx_ring = rb_init R RX_BUF_SIZE,
             fifo_next = 0, bytes_send = 0\<rparr>)"

definition init_async :: "'r ring_ops \<Rightarrow> 'd uart_ops \<Rightarrow> bool \<Rightarrow> bool \<Rightarrow> 'd \<Rightarrow> ('r handle \<times> 'd) option" where
  "init_async R D ready memory d = do {
     h \<leftarrow> init_handle R ready memory;
     Some (h\<lparr>fifo_next := 1\<rparr>, rx_enable D 0 UART_FIFO_SIZE d)
   }"

definition init_int :: "'r ring_ops \<Rightarrow> 'd uart_ops \<Rightarrow> bool \<Rightarrow> bool \<Rightarrow> 'd \<Rightarrow> ('r handle \<times> 'd) option" where
  "init_int R D ready memory d = do {
     h \<leftarrow> init_handle R ready memory;
     Some (h\<lparr>tx_done := 0\<rparr>, irq_rx_enable D d)
   }"

definition init_poll :: "'r ring_ops \<Rightarrow> bool \<Rightarrow> bool \<Rightarrow> 'r handle option" where
  "init_poll R ready memory = do {
     h \<leftarrow> init_handle R ready memory;
     Some (h\<lparr>rx_done := sem_give (rx_done h)\<rparr>)
   }"

section \<open>Asynchronous transfer\<close>

definition tx_from_queue :: "'r ring_ops \<Rightarrow> 'd uart_ops \<Rightarrow> 'r handle \<Rightarrow> 'd \<Rightarrow> int \<times> 'r handle \<times> 'd" where
  "tx_from_queue R D h d =
     (let (data, tx) = rb_get_claim R TX_BUF_SIZE (tx_ring h);
          (n, d) = (if length data > 0 then uart_tx D data d else (0, d))
      in (n, h\<lparr>tx_ring := tx, bytes_send := n\<rparr>, d))"

datatype uart_event = UART_TX_DONE | UART_RX_RDY bytes | UART_RX_BUF_REQUEST
  | UART_RX_BUF_RELEASED nat | UART_RX_DISABLED

definition async_cb :: "'r ring_ops \<Rightarrow> 'd uart_ops \<Rightarrow> uart_event \<Rightarrow> 'r handle \<Rightarrow> 'd \<Rightarrow> 'r handle \<times> 'd" where
  "async_cb R D evt h d =
     (case evt of
        UART_TX_DONE \<Rightarrow>
          (let h = h\<lparr>tx_ring := rb_get_finish R (unat (word_of_int (bytes_send h) :: u32)) (tx_ring h)\<rparr>;
               (n, h, d) = tx_from_queue R D h d
           in (if n = 0 then h\<lparr>tx_done := sem_give (tx_done h)\<rparr> else h, d))
      | UART_RX_RDY data \<Rightarrow>
          (let (n, rx) = rb_put R data (rx_ring h);
               h = h\<lparr>rx_ring := rx\<rparr>
           in (if length data > 0 then h\<lparr>rx_done := sem_give (rx_done h)\<rparr> else h, d))
      | UART_RX_BUF_REQUEST \<Rightarrow> (h, rx_buf_rsp D (fifo_next h) UART_FIFO_SIZE d)
      | UART_RX_BUF_RELEASED buf \<Rightarrow> (h\<lparr>fifo_next := buf\<rparr>, d)
      | UART_RX_DISABLED \<Rightarrow> (h, d))"

text \<open>One round of sending: what is left of the data, to be tried again after a pause.\<close>

definition send_async_round ::
  "'r ring_ops \<Rightarrow> 'd uart_ops \<Rightarrow> bytes \<Rightarrow> 'r handle \<Rightarrow> 'd \<Rightarrow> bytes \<times> 'r handle \<times> 'd" where
  "send_async_round R D data h d =
     (let (written, tx) = rb_put R data (tx_ring h);
          h = h\<lparr>tx_ring := tx\<rparr>;
          (h, d) = (if tx_done h > 0 then
                      (let (_, h, d) = tx_from_queue R D (h\<lparr>tx_done := tx_done h - 1\<rparr>) d in (h, d))
                    else (h, d))
      in (drop written data, h, d))"

section \<open>Interrupt driven transfer\<close>

text \<open>The receiving half of a round of the handler.\<close>

definition irq_rx :: "'r ring_ops \<Rightarrow> 'd uart_ops \<Rightarrow> 'r handle \<Rightarrow> 'd \<Rightarrow> 'r handle \<times> 'd" where
  "irq_rx R D h d =
     (if irq_rx_ready D d then
        (let (claimed, rx) = rb_put_claim R RX_BUF_SIZE (rx_ring h);
             h = h\<lparr>rx_ring := rx\<rparr>;
             ((rx_size, data), d) = fifo_read D claimed d
         in if rx_size < 0 then (h, d)
            else if rx_size > 0 then
              (let (err, rx) = rb_put_finish R (take (nat rx_size) data) (rx_ring h);
                   h = h\<lparr>rx_ring := rx\<rparr>
               in (if err \<noteq> 0 then h else h\<lparr>rx_done := sem_give (rx_done h)\<rparr>, d))
            else (h, d))
      else (h, d))"

definition irq_tx :: "'r ring_ops \<Rightarrow> 'd uart_ops \<Rightarrow> 'r handle \<Rightarrow> 'd \<Rightarrow> 'r handle \<times> 'd" where
  "irq_tx R D h d =
     (if irq_tx_ready D d then
        (let (data, tx) = rb_get_claim R TX_BUF_SIZE (tx_ring h);
             h = h\<lparr>tx_ring := tx\<rparr>
         in if length data > 0 then
              (let (sent, d) = fifo_fill D data d
               in if sent > 0
                  then (h\<lparr>tx_ring := rb_get_finish R (nat sent) (tx_ring h), tx_done := sem_give (tx_done h)\<rparr>, d)
                  else (h, d))
            else if rb_bytes R (tx_ring h) = [] then (h, irq_tx_disable D d) else (h, d))
      else (h, d))"

text \<open>The handler: rounds as long as an interrupt is pending.\<close>

partial_function (option) irq_cb ::
  "'r ring_ops \<Rightarrow> 'd uart_ops \<Rightarrow> 'r handle \<Rightarrow> 'd \<Rightarrow> ('r handle \<times> 'd) option" where
  "irq_cb R D h d =
     (let d = irq_update D d
      in if irq_is_pending D d \<le> 0 then Some (h, d)
         else (case irq_rx R D h d of (h, d) \<Rightarrow> case irq_tx R D h d of (h, d) \<Rightarrow> irq_cb R D h d))"

text \<open>One round of sending, up to the wait for \<open>tx_done\<close> when data is left.\<close>

definition send_int_round ::
  "'r ring_ops \<Rightarrow> 'd uart_ops \<Rightarrow> bytes \<Rightarrow> 'r handle \<Rightarrow> 'd \<Rightarrow> bytes \<times> 'r handle \<times> 'd" where
  "send_int_round R D data h d =
     (let (written, tx) = rb_put R data (tx_ring h)
      in (drop written data, h\<lparr>tx_ring := tx\<rparr>, irq_tx_enable D d))"

text \<open>Receiving waits for \<open>rx_done\<close> until there is something.\<close>

function recv_async_int :: "'r ring_ops \<Rightarrow> nat \<Rightarrow> 'r handle \<Rightarrow> (bytes \<times> 'r handle) option" where
  "recv_async_int R len h =
     (case rb_get R len (rx_ring h) of (data, rx) \<Rightarrow>
        (let h = h\<lparr>rx_ring := rx\<rparr>
         in if data \<noteq> [] then Some (data, h)
            else if rx_done h > 0 then recv_async_int R len (h\<lparr>rx_done := rx_done h - 1\<rparr>) else None))"
  by pat_completeness auto
termination by (relation "measure (\<lambda>(R, len, h). rx_done h)") auto

section \<open>Polling\<close>

definition send_poll :: "'d uart_ops \<Rightarrow> bytes \<Rightarrow> 'r handle \<Rightarrow> 'd \<Rightarrow> (nat \<times> 'r handle \<times> 'd) option" where
  "send_poll D data h d =
     (if tx_done h = 0 then None
      else (let h = h\<lparr>tx_done := tx_done h - 1\<rparr>; d = fold (poll_out D) data d
            in Some (length data, h\<lparr>tx_done := sem_give (tx_done h)\<rparr>, d)))"

fun poll_bytes :: "'d uart_ops \<Rightarrow> nat \<Rightarrow> 'd \<Rightarrow> bytes \<times> 'd" where
  "poll_bytes D 0 d = ([], d)"
| "poll_bytes D (Suc n) d =
     (case poll_in D d of ((rc, b), d) \<Rightarrow>
        if rc < 0 then ([], d) else (case poll_bytes D n d of (bs, d) \<Rightarrow> (b # bs, d)))"

definition recv_poll :: "'d uart_ops \<Rightarrow> nat \<Rightarrow> 'r handle \<Rightarrow> 'd \<Rightarrow> (bytes \<times> 'r handle \<times> 'd) option" where
  "recv_poll D len h d =
     (if rx_done h = 0 then None
      else (let h = h\<lparr>rx_done := rx_done h - 1\<rparr>; (bs, d) = poll_bytes D len d
            in Some (bs, h\<lparr>rx_done := sem_give (rx_done h)\<rparr>, d)))"

section \<open>What the ring buffer and the driver promise\<close>

definition ring_ok :: "'r ring_ops \<Rightarrow> bool" where
  "ring_ok R \<longleftrightarrow>
     (\<forall>n. rb_bytes R (rb_init R n) = [] \<and> rb_claimed R (rb_init R n) = 0) \<and>
     (\<forall>bs r. fst (rb_put R bs r) \<le> length bs \<and> rb_claimed R (snd (rb_put R bs r)) = rb_claimed R r \<and>
        rb_bytes R (snd (rb_put R bs r)) = rb_bytes R r @ take (fst (rb_put R bs r)) bs) \<and>
     (\<forall>n r. n > 0 \<longrightarrow>
        (let rest = drop (rb_claimed R r) (rb_bytes R r); data = fst (rb_get_claim R n r); r' = snd (rb_get_claim R n r)
         in data = take (length data) rest \<and> (rest \<noteq> [] \<longrightarrow> data \<noteq> []) \<and>
            rb_bytes R r' = rb_bytes R r \<and> rb_claimed R r' = rb_claimed R r + length data)) \<and>
     (\<forall>n r. n \<le> rb_claimed R r \<longrightarrow>
        rb_bytes R (rb_get_finish R n r) = drop n (rb_bytes R r) \<and> rb_claimed R (rb_get_finish R n r) = 0)"

lemma ring_put:
  assumes "ring_ok R" and "rb_put R bs r = (n, r')"
  shows "n \<le> length bs" "rb_claimed R r' = rb_claimed R r" "rb_bytes R r' = rb_bytes R r @ take n bs"
  using assms unfolding ring_ok_def by (metis fst_conv snd_conv)+

lemma ring_claim:
  assumes "ring_ok R" and "rb_get_claim R n r = (data, r')" and "n > 0" and "rb_claimed R r = 0"
  shows "data = take (length data) (rb_bytes R r)" "rb_bytes R r \<noteq> [] \<Longrightarrow> data \<noteq> []"
    "rb_bytes R r' = rb_bytes R r" "rb_claimed R r' = length data"
  using assms(1,3,4) unfolding ring_ok_def Let_def
  by (metis assms(2) drop0 fst_conv snd_conv add_0)+

lemma ring_finish:
  assumes "ring_ok R" and "n \<le> rb_claimed R r"
  shows "rb_bytes R (rb_get_finish R n r) = drop n (rb_bytes R r)" "rb_claimed R (rb_get_finish R n r) = 0"
  using assms unfolding ring_ok_def by blast+

text \<open>The driver: only filling its FIFO sends, and it takes at least a byte when it is ready.\<close>

definition uart_ok :: "'d uart_ops \<Rightarrow> bool" where
  "uart_ok D \<longleftrightarrow>
     (\<forall>d. wire D (irq_update D d) = wire D d \<and> wire D (irq_tx_enable D d) = wire D d \<and>
        wire D (irq_tx_disable D d) = wire D d) \<and>
     (\<forall>n d. wire D (snd (fifo_read D n d)) = wire D d) \<and>
     (\<forall>data d. irq_tx_ready D d \<and> data \<noteq> [] \<longrightarrow>
        0 < fst (fifo_fill D data d) \<and> fst (fifo_fill D data d) \<le> int (length data) \<and>
        wire D (snd (fifo_fill D data d)) = wire D d @ take (nat (fst (fifo_fill D data d))) data)"

section \<open>Interrupt driven sending keeps the order\<close>

text \<open>
  The sending thread is idle, about to put bytes, or waiting with bytes left.  Its steps, rounds of
  the handler and changes of the device that send nothing interleave; the last component collects
  what the program has sent.
\<close>

datatype sender = Idle | Put bytes | Wait bytes

fun unsent :: "sender \<Rightarrow> bytes" where
  "unsent Idle = []"
| "unsent (Put data) = data"
| "unsent (Wait data) = data"

type_synonym ('r, 'd) uconf = "sender \<times> 'r handle \<times> 'd \<times> bytes"

inductive int_step :: "'r ring_ops \<Rightarrow> 'd uart_ops \<Rightarrow> ('r, 'd) uconf \<Rightarrow> ('r, 'd) uconf \<Rightarrow> bool" for R D where
  int_send: "int_step R D (Idle, h, d, acc) (Put data, h, d, acc @ data)"
| int_put: "send_int_round R D data h d = (rest, h', d') \<Longrightarrow>
    int_step R D (Put data, h, d, acc) (if rest = [] then Idle else Wait rest, h', d', acc)"
| int_wake: "tx_done h > 0 \<Longrightarrow>
    int_step R D (Wait rest, h, d, acc) (Put rest, h\<lparr>tx_done := tx_done h - 1\<rparr>, d, acc)"
| int_irq_tx: "irq_tx R D h d = (h', d') \<Longrightarrow> int_step R D (p, h, d, acc) (p, h', d', acc)"
| int_irq_rx: "irq_rx R D h d = (h', d') \<Longrightarrow> int_step R D (p, h, d, acc) (p, h', d', acc)"
| int_device: "wire D d' = wire D d \<Longrightarrow> int_step R D (p, h, d, acc) (p, h, d', acc)"

inductive int_reach :: "'r ring_ops \<Rightarrow> 'd uart_ops \<Rightarrow> ('r, 'd) uconf \<Rightarrow> bool" for R D where
  int_init: "init_int R D True True d = Some (h, d') \<Longrightarrow> wire D d' = [] \<Longrightarrow> int_reach R D (Idle, h, d', [])"
| int_next: "int_reach R D c \<Longrightarrow> int_step R D c c' \<Longrightarrow> int_reach R D c'"

inductive_cases int_stepE: "int_step R D (p, h, d, acc) c'"

definition int_inv :: "'r ring_ops \<Rightarrow> 'd uart_ops \<Rightarrow> ('r, 'd) uconf \<Rightarrow> bool" where
  "int_inv R D c = (case c of (p, h, d, acc) \<Rightarrow>
     rb_claimed R (tx_ring h) = 0 \<and> wire D d @ rb_bytes R (tx_ring h) @ unsent p = acc)"

lemma irq_tx_moves:
  assumes R: "ring_ok R" and D: "uart_ok D" and i: "rb_claimed R (tx_ring h) = 0"
    and e: "irq_tx R D h d = (h', d')"
  shows "rb_claimed R (tx_ring h') = 0 \<and>
    wire D d' @ rb_bytes R (tx_ring h') = wire D d @ rb_bytes R (tx_ring h)"
proof (cases "irq_tx_ready D d")
  case False
  then show ?thesis using e i by (simp add: irq_tx_def)
next
  case ready: True
  obtain data tx where c: "rb_get_claim R TX_BUF_SIZE (tx_ring h) = (data, tx)"
    by (cases "rb_get_claim R TX_BUF_SIZE (tx_ring h)")
  note cl = ring_claim [OF R c _ i, unfolded TX_BUF_SIZE_def, simplified]
  obtain sent d1 where f: "fifo_fill D data d = (sent, d1)" by (cases "fifo_fill D data d")
  show ?thesis
  proof (cases "data = []")
    case True
    then have "wire D d' = wire D d" "tx_ring h' = tx"
      using e ready c D by (auto simp: irq_tx_def Let_def uart_ok_def split: if_splits)
    then show ?thesis using cl True by simp
  next
    case False
    with D ready f have s: "0 < sent" "sent \<le> int (length data)" "wire D d1 = wire D d @ take (nat sent) data"
      by (auto simp: uart_ok_def dest!: spec [of _ data] spec [of _ d])
    then have h': "tx_ring h' = rb_get_finish R (nat sent) tx" "d' = d1"
      using e ready c f False by (auto simp: irq_tx_def)
    have le: "nat sent \<le> rb_claimed R tx" using s cl(4) by simp
    have "take (nat sent) data = take (nat sent) (rb_bytes R (tx_ring h))"
      using cl(1) s(2) by (metis min.absorb1 nat_le_iff take_take)
    then show ?thesis
      using ring_finish [OF R le] by (simp add: h' s(3) cl(3))
  qed
qed

lemma irq_rx_keeps:
  assumes "uart_ok D" and "irq_rx R D h d = (h', d')"
  shows "tx_ring h' = tx_ring h \<and> wire D d' = wire D d"
proof -
  have w: "wire D (snd (fifo_read D n d)) = wire D d" for n
    using assms(1) by (simp add: uart_ok_def)
  show ?thesis
    using assms(2) by (auto simp: irq_rx_def Let_def case_prod_unfold w split: if_splits)
qed

lemma int_step_inv:
  assumes R: "ring_ok R" and D: "uart_ok D" and i: "int_inv R D c" and st: "int_step R D c c'"
  shows "int_inv R D c'"
proof -
  obtain p h d acc where c: "c = (p, h, d, acc)" by (cases c)
  from i have cl: "rb_claimed R (tx_ring h) = 0" and w: "wire D d @ rb_bytes R (tx_ring h) @ unsent p = acc"
    by (simp_all add: c int_inv_def)
  from st [unfolded c] show ?thesis
  proof (cases rule: int_stepE [consumes 1])
    case (2 data rest h' d')
    obtain n tx where pt: "rb_put R data (tx_ring h) = (n, tx)" by (cases "rb_put R data (tx_ring h)")
    from 2 pt have e: "rest = drop n data" "h' = h\<lparr>tx_ring := tx\<rparr>" "d' = irq_tx_enable D d"
      by (auto simp: send_int_round_def)
    have "wire D d' = wire D d" using D by (simp add: e uart_ok_def)
    moreover have "unsent (if rest = [] then Idle else Wait rest) = rest" by simp
    ultimately show ?thesis
      using ring_put [OF R pt] cl w 2 by (simp add: int_inv_def e)
  next
    case (4 h' d')
    then show ?thesis
      using irq_tx_moves [OF R D cl 4(2)] w by (simp add: int_inv_def) (metis append.assoc)
  next
    case (5 h' d')
    then show ?thesis
      using irq_rx_keeps [OF D 5(2)] cl w by (simp add: int_inv_def)
  qed (use cl w in \<open>auto simp: int_inv_def\<close>)
qed

lemma int_reach_inv:
  assumes "int_reach R D c" and R: "ring_ok R" and D: "uart_ok D"
  shows "int_inv R D c"
  using assms(1)
proof induction
  case (int_init d h d')
  then show ?case
    using R by (auto simp: init_int_def init_handle_def int_inv_def ring_ok_def)
next
  case (int_next c c')
  then show ?case using int_step_inv [OF R D] by blast
qed

text \<open>
  Claim C27.  However the sending thread and the interrupt handler interleave, the line has
  carried exactly the bytes the program sent, in order and each once, except for those still in
  the ring buffer and those the thread still holds.
\<close>

theorem uart_int_in_order:
  assumes "ring_ok R" and "uart_ok D" and "int_reach R D (p, h, d, acc)"
  shows "wire D d @ rb_bytes R (tx_ring h) @ unsent p = acc"
  using int_reach_inv [OF assms(3,1,2)] by (simp add: int_inv_def)

text \<open>
  When the receive buffer is full and a byte is waiting, the handler reads nothing and
  goes round for ever, since the interrupt stays pending.
\<close>

lemma uart_rx_full_spins:
  assumes "irq_update D d = d" and "irq_is_pending D d > 0" and "irq_rx_ready D d" and "\<not> irq_tx_ready D d"
    and "rb_put_claim R RX_BUF_SIZE (rx_ring h) = (0, rx_ring h)" and "fifo_read D 0 d = ((0, []), d)"
  shows "irq_cb R D h d = None"
proof -
  have rx: "irq_rx R D h d = (h, d)" and tx: "irq_tx R D h d = (h, d)"
    using assms by (simp_all add: irq_rx_def irq_tx_def)
  have stuck: "R' = R \<longrightarrow> D' = D \<longrightarrow> h' = h \<longrightarrow> d' = d \<longrightarrow> False" if "irq_cb R' D' h' d' = Some y" for R' D' h' d' y
    using that
  proof (rule irq_cb.raw_induct [where P = "\<lambda>R' D' h' d' y. R' = R \<longrightarrow> D' = D \<longrightarrow> h' = h \<longrightarrow> d' = d \<longrightarrow> False",
        rotated], goal_cases)
    case (1 cb R' D' h' d' y)
    show ?case
    proof (intro impI)
      assume e: "R' = R" "D' = D" "h' = h" "d' = d"
      from 1(2) assms(1,2) have "cb R D h d = Some y"
        unfolding e by (simp add: rx tx Let_def)
      from 1(1) [OF this] show False by simp
    qed
  qed
  show ?thesis
  proof (cases "irq_cb R D h d")
    case (Some y)
    with stuck [OF this] show ?thesis by simp
  qed
qed

section \<open>Asynchronous sending repeats itself\<close>

fun tx_dones :: "'r ring_ops \<Rightarrow> 'd uart_ops \<Rightarrow> nat \<Rightarrow> 'r handle \<Rightarrow> 'd \<Rightarrow> 'r handle \<times> 'd" where
  "tx_dones R D 0 h d = (h, d)"
| "tx_dones R D (Suc n) h d = (case tx_dones R D n h d of (h, d) \<Rightarrow> async_cb R D UART_TX_DONE h d)"

lemma tx_from_queue_sends:
  assumes R: "ring_ok R" and D: "\<And>data d. fst (uart_tx D data d) = 0 \<and> wire D (snd (uart_tx D data d)) = wire D d @ data"
    and "rb_claimed R (tx_ring h) = 0" "rb_bytes R (tx_ring h) \<noteq> []" and e: "tx_from_queue R D h d = (n, h', d')"
  shows "n = 0 \<and> bytes_send h' = 0 \<and> rb_bytes R (tx_ring h') = rb_bytes R (tx_ring h) \<and>
    (\<exists>c. c \<noteq> [] \<and> c = take (length c) (rb_bytes R (tx_ring h)) \<and> wire D d' = wire D d @ c)"
proof -
  obtain data tx where c: "rb_get_claim R TX_BUF_SIZE (tx_ring h) = (data, tx)"
    by (cases "rb_get_claim R TX_BUF_SIZE (tx_ring h)")
  note cl = ring_claim [OF R c _ assms(3), unfolded TX_BUF_SIZE_def, simplified]
  have ne: "data \<noteq> []" using cl(2) assms(4) by simp
  then show ?thesis
    using e cl(1,3) D [of data d] by (auto simp: tx_from_queue_def c case_prod_unfold Let_def)
qed

text \<open>
  Claim C28.  The asynchronous way never gets past its first bytes: the driver's start of a
  transfer returns 0 on success, which the code takes for the number of bytes sent, so that each
  completion releases nothing and sends the head of the buffer again.
\<close>

theorem uart_async_resends:
  assumes R: "ring_ok R" and D: "\<And>data d. fst (uart_tx D data d) = 0 \<and> wire D (snd (uart_tx D data d)) = wire D d @ data"
    and "rb_claimed R (tx_ring h) = 0" "rb_bytes R (tx_ring h) \<noteq> []" and "tx_from_queue R D h d = (n, h', d')"
    and "tx_dones R D k h' d' = (h'', d'')"
  shows "rb_bytes R (tx_ring h'') = rb_bytes R (tx_ring h) \<and>
    (\<exists>cs. length cs = k + 1 \<and> wire D d'' = wire D d @ concat cs \<and>
       (\<forall>c\<in>set cs. c \<noteq> [] \<and> c = take (length c) (rb_bytes R (tx_ring h))))"
proof -
  let ?P = "\<lambda>k h'' d''. bytes_send h'' = 0 \<and> rb_bytes R (tx_ring h'') = rb_bytes R (tx_ring h) \<and>
    (\<exists>cs. length cs = k + 1 \<and> wire D d'' = wire D d @ concat cs \<and>
       (\<forall>c\<in>set cs. c \<noteq> [] \<and> c = take (length c) (rb_bytes R (tx_ring h))))"
  have "?P k h'' d''" if "tx_dones R D k h' d' = (h'', d'')" for k h'' d''
    using that
  proof (induction k arbitrary: h'' d'')
    case 0
    from tx_from_queue_sends [OF R D assms(3-5)] obtain c where
      "bytes_send h' = 0" "rb_bytes R (tx_ring h') = rb_bytes R (tx_ring h)"
      "c \<noteq> []" "c = take (length c) (rb_bytes R (tx_ring h))" "wire D d' = wire D d @ c"
      by blast
    with 0 show ?case by (auto intro!: exI [of _ "[c]"])
  next
    case (Suc k)
    obtain h1 d1 where k: "tx_dones R D k h' d' = (h1, d1)" by (cases "tx_dones R D k h' d'")
    from Suc.IH [OF k] obtain cs where b: "bytes_send h1 = 0" "rb_bytes R (tx_ring h1) = rb_bytes R (tx_ring h)"
      and cs: "length cs = k + 1" "wire D d1 = wire D d @ concat cs"
        "\<forall>c\<in>set cs. c \<noteq> [] \<and> c = take (length c) (rb_bytes R (tx_ring h))"
      by blast
    let ?h = "h1\<lparr>tx_ring := rb_get_finish R 0 (tx_ring h1)\<rparr>"
    obtain m h2 d2 where q: "tx_from_queue R D ?h d1 = (m, h2, d2)" by (cases "tx_from_queue R D ?h d1")
    have f: "rb_bytes R (tx_ring ?h) = rb_bytes R (tx_ring h)" "rb_claimed R (tx_ring ?h) = 0"
      using ring_finish [OF R, of 0 "tx_ring h1"] b by simp_all
    then have "rb_bytes R (tx_ring ?h) \<noteq> []" using assms(4) by simp
    from tx_from_queue_sends [OF R D f(2) this q] obtain c where
      c: "m = 0" "bytes_send h2 = 0" "rb_bytes R (tx_ring h2) = rb_bytes R (tx_ring h)"
        "c \<noteq> []" "c = take (length c) (rb_bytes R (tx_ring h))" "wire D d2 = wire D d1 @ c"
      unfolding f(1) by blast
    have "h'' = h2\<lparr>tx_done := sem_give (tx_done h2)\<rparr> \<and> d'' = d2"
      using Suc.prems k q c(1) b(1) by (auto simp: async_cb_def Let_def)
    then show ?case
      using c cs by (auto intro!: exI [of _ "cs @ [c]"])
  qed
  from this [OF assms(6)] show ?thesis by blast
qed

section \<open>A ring buffer and a device\<close>

text \<open>A ring buffer as its contents, the claimed number and the capacity.\<close>

definition ex_ring :: "(bytes \<times> nat \<times> nat) ring_ops" where
  "ex_ring =
     \<lparr>rb_bytes = fst, rb_claimed = (\<lambda>(b, c, n). c),
      rb_put = (\<lambda>bs (b, c, n). (min (length bs) (n - length b), (b @ take (n - length b) bs, c, n))),
      rb_get = (\<lambda>m (b, c, n). (take m b, (drop m b, 0, n))),
      rb_get_claim = (\<lambda>m (b, c, n). (take m (drop c b), (b, c + min m (length b - c), n))),
      rb_get_finish = (\<lambda>m (b, c, n). if m \<le> c then (drop m b, 0, n) else (b, c, n)),
      rb_put_claim = (\<lambda>m (b, c, n). (min m (n - length b), (b, c, n))),
      rb_put_finish = (\<lambda>bs (b, c, n). (0, (b @ bs, c, n))),
      rb_init = (\<lambda>n. ([], 0, n))\<rparr>"

lemma ex_ring_ok: "ring_ok ex_ring"
  by (auto simp: ring_ok_def ex_ring_def Let_def min_def)

text \<open>A device as the bytes it has sent and whether a byte has arrived; its sending FIFO takes one
  byte at a time.\<close>

definition ex_uart :: "(bytes \<times> bool) uart_ops" where
  "ex_uart =
     \<lparr>irq_update = (\<lambda>d. d), irq_is_pending = (\<lambda>(w, r). if r then 1 else 0), irq_rx_ready = snd,
      irq_tx_ready = (\<lambda>(w, r). \<not> r), irq_tx_enable = (\<lambda>d. d), irq_tx_disable = (\<lambda>d. d), irq_rx_enable = (\<lambda>d. d),
      fifo_read = (\<lambda>n (w, r). if n = 0 then ((0, []), (w, r)) else ((1, [65]), (w, False))),
      fifo_fill = (\<lambda>bs (w, r). (min 1 (int (length bs)), (w @ take 1 bs, r))),
      poll_out = (\<lambda>b (w, r). (w @ [b], r)), poll_in = (\<lambda>d. ((-1, 0), d)),
      uart_tx = (\<lambda>bs (w, r). (0, (w @ bs, r))), rx_enable = (\<lambda>i n d. d), rx_buf_rsp = (\<lambda>i n d. d), wire = fst\<rparr>"

lemma ex_uart_ok: "uart_ok ex_uart"
  by (auto simp: uart_ok_def ex_uart_def min_def Suc_le_eq)

definition ex_handle :: "bytes \<Rightarrow> bytes \<Rightarrow> (bytes \<times> nat \<times> nat) handle" where
  "ex_handle tx rx = \<lparr>tx_done = 0, rx_done = 0, tx_ring = (tx, 0, TX_BUF_SIZE), rx_ring = (rx, 0, RX_BUF_SIZE),
     fifo_next = 0, bytes_send = 0\<rparr>"

text \<open>Two bytes are sent; the handler has moved one of them to the line.\<close>

lemma ex_int_reach:
  "int_reach ex_ring ex_uart (Idle, (ex_handle [8] [])\<lparr>tx_done := 1\<rparr>, ([7], False), [7, 8])"
proof -
  have "int_reach ex_ring ex_uart (Idle, ex_handle [] [], ([], False), [])"
    by (rule int_init [where d = "([], False)"])
      (simp_all add: init_int_def init_handle_def ex_handle_def ex_ring_def ex_uart_def)
  moreover have "int_step ex_ring ex_uart (Idle, ex_handle [] [], ([], False), []) (Put [7, 8], ex_handle [] [], ([], False), [7, 8])"
    using int_send [of ex_ring ex_uart "ex_handle [] []" "([], False)" "[]" "[7, 8]"] by simp
  moreover have "int_step ex_ring ex_uart (Put [7, 8], ex_handle [] [], ([], False), [7, 8]) (Idle, ex_handle [7, 8] [], ([], False), [7, 8])"
    using int_put [of ex_ring ex_uart "[7, 8]" "ex_handle [] []" "([], False)" "[]" "ex_handle [7, 8] []" "([], False)" "[7, 8]"]
    by (simp add: send_int_round_def ex_handle_def ex_ring_def ex_uart_def TX_BUF_SIZE_def)
  moreover have "int_step ex_ring ex_uart (Idle, ex_handle [7, 8] [], ([], False), [7, 8])
      (Idle, (ex_handle [8] [])\<lparr>tx_done := 1\<rparr>, ([7], False), [7, 8])"
    by (rule int_irq_tx)
      (simp add: irq_tx_def ex_handle_def ex_ring_def ex_uart_def TX_BUF_SIZE_def sem_give_def Let_def)
  ultimately show ?thesis by (blast intro: int_next)
qed

lemma uart_int_in_order_witness:
  "wire ex_uart ([7], False) @ rb_bytes ex_ring (tx_ring (ex_handle [8] [])) = [7, 8]"
  using uart_int_in_order [OF ex_ring_ok ex_uart_ok ex_int_reach] by (simp add: ex_handle_def)

lemma uart_rx_full_spins_witness:
  "irq_cb ex_ring ex_uart (ex_handle [] (replicate 512 0)) ([], True) = None"
  by (rule uart_rx_full_spins) (simp_all add: ex_uart_def ex_ring_def ex_handle_def RX_BUF_SIZE_def)

text \<open>After two completions the head of the message has been sent at least three times.\<close>

definition ex_sending :: "(bytes \<times> nat \<times> nat) handle" where
  "ex_sending = (ex_handle [7, 8] [])\<lparr>tx_ring := ([7, 8], 2, TX_BUF_SIZE)\<rparr>"

lemma uart_async_resends_witness:
  "\<exists>h d. tx_dones ex_ring ex_uart 2 ex_sending ([7, 8], False) = (h, d) \<and>
    rb_bytes ex_ring (tx_ring h) = [7, 8] \<and> (\<exists>cs. length cs = 3 \<and> wire ex_uart d = concat cs \<and> [] \<notin> set cs)"
proof -
  obtain h d where e: "tx_dones ex_ring ex_uart 2 ex_sending ([7, 8], False) = (h, d)"
    by (cases "tx_dones ex_ring ex_uart 2 ex_sending ([7, 8], False)")
  have D: "fst (uart_tx ex_uart data d) = 0 \<and> wire ex_uart (snd (uart_tx ex_uart data d)) = wire ex_uart d @ data"
    for data d by (cases d) (simp add: ex_uart_def)
  have "tx_from_queue ex_ring ex_uart (ex_handle [7, 8] []) ([], False) = (0, ex_sending, ([7, 8], False))"
    by (simp add: tx_from_queue_def ex_sending_def ex_handle_def ex_ring_def ex_uart_def TX_BUF_SIZE_def)
  from uart_async_resends [OF ex_ring_ok D _ _ this e] show ?thesis
    using e by (auto simp: ex_handle_def ex_ring_def ex_uart_def)
qed

end
