(* ===== verification/App_Server.thy ===== *)
theory App_Server
  imports Hupacket Palloc
begin

text \<open>
  The application around the packet protocol: the server that feeds a driver's bytes to the
  receiver (\<open>app/src/hup_server.c\<close>), its UDP driver (\<open>lib/app/udp.c\<close>), the USB start
  (\<open>lib/app/usb.c\<close>), the boot counter (\<open>lib/app/bbram.c\<close>), and from
  \<open>app/src/main.c\<close> the link events, the lamp and the commands, and the calibration and
  sweep of \<open>app/src/pwmleds.c\<close>.

  A server's memory comes from \<open>Palloc\<close> and its receiver is \<open>Hupacket\<close>.  Sockets,
  USB, retained memory, lamps and the clock are parameters over a state \<open>'w\<close>.
  \<open>None\<close> is undefined behaviour, or a loop that does not end.
\<close>

section \<open>The packet server\<close>

text \<open>
  The driver interface: \<open>init\<close> and \<open>deinit\<close> may be missing, receiving works on the
  driver's own state \<open>'d\<close> and may change what sending sees of it, in \<open>'w\<close> (the peer of a
  datagram).
\<close>

record ('d, 'w) app_api =
  api_init :: "('d \<Rightarrow> bool \<times> 'd) option"
  api_deinit :: "('d \<Rightarrow> 'd) option"
  api_recv :: "nat \<Rightarrow> 'd \<Rightarrow> 'w \<Rightarrow> (int \<times> bytes) \<times> 'd \<times> 'w"

record hup_server =
  hs_addr :: addr
  hs_drv :: bool
  hs_hup :: addr
  hs_tid :: bool

text \<open>The thread: it ends when receiving fails.\<close>

partial_function (option) hup_server_loop ::
  "'w hup_env \<Rightarrow> 'w hup_cmd list \<Rightarrow> 'w hup_cmd list \<Rightarrow> ('d, 'w) app_api \<Rightarrow> hup_handle \<Rightarrow> 'w \<Rightarrow> 'd \<Rightarrow>
   (hup_handle \<times> 'w \<times> 'd) option" where
  "hup_server_loop env cmds resps api h w d =
     (case api_recv api RECV_BUFFER_SIZE d w of ((n, data), d, w) \<Rightarrow>
        if n < 0 then Some (h, w, d)
        else if n \<noteq> 0 then
          Option.bind (process_hupacket env cmds resps (take (nat n) data) h w)
            (\<lambda>(h, w). hup_server_loop env cmds resps api h w d)
        else hup_server_loop env cmds resps api h w d)"

definition deinit_hupacket :: "u32 \<Rightarrow> pool \<Rightarrow> pool option" where
  "deinit_hupacket h s = (if h \<noteq> 0 then pfree h s else Some s)"

text \<open>
  Ending a server: the driver first (a missing \<open>deinit\<close> is called all the same), then the thread,
  the receiver and the server itself.  Without an interface the driver is left alone.
\<close>

definition deinit_hup_server ::
  "hup_server option \<Rightarrow> ('d, 'w) app_api option \<Rightarrow> pool \<Rightarrow> 'd \<Rightarrow> (pool \<times> 'd) option" where
  "deinit_hup_server handle api s d =
     (case handle of
        None \<Rightarrow> Some (s, d)
      | Some h \<Rightarrow> do {
          d \<leftarrow> (case api of
                  Some a \<Rightarrow> if hs_drv h then map_option (\<lambda>f. f d) (api_deinit a) else Some d
                | None \<Rightarrow> Some d);
          s \<leftarrow> deinit_hupacket (hs_hup h) s;
          s \<leftarrow> pfree (hs_addr h) s;
          Some (s, d)
        })"

text \<open>The sizes of the two structures are parameters; a missing stack is an error found last.\<close>

definition init_hup_server ::
  "u32 \<Rightarrow> u32 \<Rightarrow> ('d, 'w) app_api \<Rightarrow> bool \<Rightarrow> pool \<Rightarrow> 'd \<Rightarrow> (hup_server option \<times> pool \<times> 'd) option" where
  "init_hup_server sz_handle sz_hup api stack s d =
     (case api_init api of
        None \<Rightarrow> Some (None, s, d)
      | Some start \<Rightarrow> do {
        (p, s) \<leftarrow> palloc sz_handle s;
        if p = 0 then Some (None, s, d)
        else
          (let h = \<lparr>hs_addr = p, hs_drv = False, hs_hup = 0, hs_tid = False\<rparr>;
               stop = case_option (\<lambda>d. d) (\<lambda>f. f) (api_deinit api);
               (drv, d) = start d
           in if \<not> drv then do { s \<leftarrow> pfree p s; Some (None, s, d) }
              else do {
                let h = h\<lparr>hs_drv := True\<rparr>;
                (q, s) \<leftarrow> palloc sz_hup s;
                if q = 0 then do { s \<leftarrow> pfree p s; Some (None, s, stop d) }
                else
                  (let h = h\<lparr>hs_hup := q\<rparr>
                   in if stack then Some (Some (h\<lparr>hs_tid := True\<rparr>), s, d)
                      else do {
                        (s, d) \<leftarrow> deinit_hup_server (Some h) (Some api) s d;
                        s \<leftarrow> pfree p s;
                        Some (None, s, stop d)
                      })
              })
      })"

section \<open>The UDP driver\<close>

record 'w udp_net =
  un_socket :: "'w \<Rightarrow> int \<times> 'w"
  un_bind :: "int \<Rightarrow> u16 \<Rightarrow> 'w \<Rightarrow> int \<times> 'w"
  un_sendto :: "int \<Rightarrow> bytes \<Rightarrow> bytes \<Rightarrow> 'w \<Rightarrow> int \<times> 'w"
  un_recvfrom :: "int \<Rightarrow> nat \<Rightarrow> 'w \<Rightarrow> (int \<times> bytes \<times> bytes) \<times> 'w"
  un_shutdown :: "int \<Rightarrow> 'w \<Rightarrow> 'w"
  un_close :: "int \<Rightarrow> 'w \<Rightarrow> 'w"
  un_errno :: "'w \<Rightarrow> int"

record udp_handle =
  uh_sock :: int
  uh_client :: bytes

definition send_udp :: "'w udp_net \<Rightarrow> udp_handle \<Rightarrow> bytes \<Rightarrow> 'w \<Rightarrow> int \<times> 'w" where
  "send_udp N h buf w =
     (let (ret, w) = un_sendto N (uh_sock h) buf (uh_client h) w
      in (if ret < 0 then - un_errno N w else ret, w))"

text \<open>The peer of the last datagram is where answers go.\<close>

definition recv_udp :: "'w udp_net \<Rightarrow> udp_handle \<Rightarrow> nat \<Rightarrow> 'w \<Rightarrow> (int \<times> bytes) \<times> udp_handle \<times> 'w" where
  "recv_udp N h len w =
     (let ((n, data, client), w) = un_recvfrom N (uh_sock h) len w
      in ((if n < 0 then - un_errno N w else n, data), h\<lparr>uh_client := client\<rparr>, w))"

definition bind_udp :: "'w udp_net \<Rightarrow> u16 \<Rightarrow> 'w \<Rightarrow> (int \<times> udp_handle) \<times> 'w" where
  "bind_udp N port w =
     (let (sock, w) = un_socket N w; h = \<lparr>uh_sock = sock, uh_client = []\<rparr>
      in if sock < 0 then ((- un_errno N w, h), w)
         else (let (ret, w) = un_bind N sock port w
               in if ret < 0 then (let w = un_close N sock w in ((- un_errno N w, h), w))
                  else ((0, h), w)))"

text \<open>\<open>htons\<close> swaps the two bytes of the port.\<close>

definition init_udp :: "'w udp_net \<Rightarrow> bool \<Rightarrow> u16 \<Rightarrow> 'w \<Rightarrow> udp_handle option \<times> 'w" where
  "init_udp N memory port w =
     (if \<not> memory then (None, w)
      else (let ((ret, h), w) = bind_udp N (word_rotr 8 port) w
            in (if ret \<noteq> 0 then None else Some h, w)))"

definition deinit_udp :: "'w udp_net \<Rightarrow> udp_handle \<Rightarrow> 'w \<Rightarrow> 'w" where
  "deinit_udp N h w = (if uh_sock h \<ge> 0 then un_close N (uh_sock h) (un_shutdown N (uh_sock h) w) else w)"

section \<open>USB, boot counter, link events\<close>

datatype usbd_msg = USBD_MSG_VBUS_READY | USBD_MSG_VBUS_REMOVED
  | USBD_MSG_CDC_ACM_CONTROL_LINE_STATE | USBD_MSG_CDC_ACM_LINE_CODING | USBD_MSG_OTHER

record 'w usb_api =
  usb_present :: bool
  usb_vbus :: bool
  usb_enable :: "'w \<Rightarrow> int \<times> 'w"
  usb_disable :: "'w \<Rightarrow> int \<times> 'w"
  usb_dtr :: "'w \<Rightarrow> bool"
  usb_line :: "string \<Rightarrow> 'w \<Rightarrow> int \<times> 'w"
  usb_ready :: bool
  usb_wait_dtr :: bool

text \<open>\<open>dtr_sem\<close> is a binary semaphore.\<close>

definition sample_msg_cb :: "'w usb_api \<Rightarrow> usbd_msg \<Rightarrow> nat \<Rightarrow> 'w \<Rightarrow> nat \<times> 'w" where
  "sample_msg_cb U msg dtr_sem w =
     (let w = (if usb_vbus U then
                 (let w = (if msg = USBD_MSG_VBUS_READY then snd (usb_enable U w) else w)
                  in if msg = USBD_MSG_VBUS_REMOVED then snd (usb_disable U w) else w)
               else w);
          dtr_sem = (if msg = USBD_MSG_CDC_ACM_CONTROL_LINE_STATE \<and> usb_dtr U w then min 1 (dtr_sem + 1) else dtr_sem)
      in (dtr_sem, w))"

definition enable_usb_device_next :: "'w usb_api \<Rightarrow> 'w \<Rightarrow> int \<times> 'w" where
  "enable_usb_device_next U w =
     (if \<not> usb_present U then (- ENODEV, w)
      else if \<not> usb_vbus U then
        (let (err, w) = usb_enable U w in if err \<noteq> 0 then (err, w) else (0, w))
      else (0, w))"

text \<open>Starting USB never fails; waiting for the terminal may not end.\<close>

definition init_app_usb :: "'w usb_api \<Rightarrow> nat \<Rightarrow> 'w \<Rightarrow> (int \<times> 'w) option" where
  "init_app_usb U dtr_sem w =
     (if \<not> usb_ready U then Some (0, w)
      else (let (ret, w) = enable_usb_device_next U w
            in if ret \<noteq> 0 then Some (0, w)
               else if usb_wait_dtr U then
                 (if dtr_sem = 0 then None
                  else (let (_, w) = usb_line U ''DCD'' w; (_, w) = usb_line U ''DSR'' w in Some (0, w)))
               else Some (0, w)))"

record 'w bbram_api =
  bb_ready :: bool
  bb_read :: "'w \<Rightarrow> int \<times> u8"
  bb_write :: "u8 \<Rightarrow> 'w \<Rightarrow> int \<times> 'w"

text \<open>One byte is read into the low byte of a 32-bit counter and written back from it; the second
  component is the number reported.\<close>

definition init_bbram :: "'w bbram_api \<Rightarrow> 'w \<Rightarrow> int \<times> u32 option \<times> 'w" where
  "init_bbram B w =
     (if \<not> bb_ready B then (- ENODEV, None, w)
      else (let (ret, b) = bb_read B w
            in if ret \<noteq> 0 then (ret, None, w)
               else (let boot_counter = (ucast b :: u32) + 1;
                         (ret, w) = bb_write B (ucast boot_counter) w
                     in if ret \<noteq> 0 then (ret, Some boot_counter, w) else (0, Some boot_counter, w))))"

text \<open>The two event bits are Zephyr's; other events are ignored.\<close>

definition event_handler :: "64 word \<Rightarrow> 64 word \<Rightarrow> 64 word \<Rightarrow> bool \<Rightarrow> bool" where
  "event_handler L4_CONNECTED L4_DISCONNECTED mgmt_event connected =
     (if mgmt_event AND (L4_CONNECTED OR L4_DISCONNECTED) \<noteq> mgmt_event then connected
      else if mgmt_event = L4_CONNECTED then True
      else if mgmt_event = L4_DISCONNECTED then False else connected)"

section \<open>Commands and lamps of the application\<close>

definition hup_ver :: "'w hup_env \<Rightarrow> bytes \<Rightarrow> bytes \<Rightarrow> bytes \<Rightarrow> 'w hup_fn" where
  "hup_ver env app_version kernel_version date h w = do {
     h \<leftarrow> hupacket_ack_response env h;
     h \<leftarrow> hupacket_record_str app_version h;
     h \<leftarrow> hupacket_record_str kernel_version h;
     h \<leftarrow> hupacket_record_str date h;
     (_, h, w) \<leftarrow> hupacket_send_buffer env h w;
     Some (h, w)
   }"

text \<open>Rebooting: at once without memory for the timer, otherwise after 1.5 s.\<close>

datatype reboot = Reboot_now | Reboot_timer addr nat

definition hup_reboot :: "'w hup_env \<Rightarrow> u32 \<Rightarrow> hup_handle \<Rightarrow> 'w \<Rightarrow> pool \<Rightarrow> (reboot \<times> hup_handle \<times> 'w \<times> pool) option" where
  "hup_reboot env sz_timer h w s = do {
     h \<leftarrow> hupacket_ack_response env h;
     (_, h, w) \<leftarrow> hupacket_send_buffer env h w;
     (timer, s) \<leftarrow> palloc sz_timer s;
     Some (if timer = 0 then Reboot_now else Reboot_timer timer 1500, h, w, s)
   }"

text \<open>One round of the lamp: the new state (-1 when it failed) and how long to sleep; \<open>None\<close> is forever.\<close>

definition led_round :: "('w \<Rightarrow> int \<times> 'w) \<Rightarrow> int \<Rightarrow> 'w \<Rightarrow> int \<times> nat option \<times> 'w" where
  "led_round toggle led_state w =
     (if led_state \<noteq> -1 then
        (let (rc, w) = toggle w
         in if rc < 0 then (-1, Some 0, w)
            else (let led_state = (if led_state = 0 then 1 else 0)
                  in (led_state, Some (if led_state \<noteq> 0 then 1000 div 10 else 1000 - 100), w)))
      else (-1, None, w))"

definition MIN_SCALE :: u32 where "MIN_SCALE = 50"

text \<open>Calibration: the period is halved until the device takes it.\<close>

partial_function (option) pwm_calibrate ::
  "(u32 \<Rightarrow> u32 \<Rightarrow> 'w \<Rightarrow> int \<times> 'w) \<Rightarrow> u32 \<Rightarrow> u32 \<Rightarrow> 'w \<Rightarrow> (u32 option \<times> 'w) option" where
  "pwm_calibrate pwm_set p max_period w =
     (case pwm_set max_period (max_period div 2) w of (rc, w) \<Rightarrow>
        if rc = 0 then Some (Some max_period, w)
        else if max_period div 2 < 4 * (p div MIN_SCALE) then Some (None, w)
        else pwm_calibrate pwm_set p (max_period div 2) w)"

text \<open>The next period and direction of the sweep.\<close>

definition pwm_next :: "u32 \<Rightarrow> u32 \<Rightarrow> u32 \<times> bool \<Rightarrow> u32 \<times> bool" where
  "pwm_next p max_period pd =
     (case pd of (period, dir) \<Rightarrow>
        (let period = (if dir then period * 2 else period div 2)
         in if period > max_period then (max_period div 2, False)
            else if period < p div MIN_SCALE then ((p div MIN_SCALE) * 2, True)
            else (period, dir)))"

text \<open>The sweep ends when the device refuses a period.\<close>

partial_function (option) pwm_sweep ::
  "(u32 \<Rightarrow> u32 \<Rightarrow> 'w \<Rightarrow> int \<times> 'w) \<Rightarrow> u32 \<Rightarrow> u32 \<Rightarrow> u32 \<times> bool \<Rightarrow> 'w \<Rightarrow> 'w option" where
  "pwm_sweep pwm_set p max_period pd w =
     (case pwm_set (fst pd) (fst pd div 2) w of (ret, w) \<Rightarrow>
        if ret \<noteq> 0 then Some w else pwm_sweep pwm_set p max_period (pwm_next p max_period pd) w)"

definition start_pwmleds :: "bool \<Rightarrow> (u32 \<Rightarrow> u32 \<Rightarrow> 'w \<Rightarrow> int \<times> 'w) \<Rightarrow> u32 \<Rightarrow> 'w \<Rightarrow> 'w option" where
  "start_pwmleds ready pwm_set p w =
     (if \<not> ready then Some w
      else do {
        (max_period, w) \<leftarrow> pwm_calibrate pwm_set p p w;
        (case max_period of None \<Rightarrow> Some w | Some m \<Rightarrow> pwm_sweep pwm_set p m (m, False) w)
      })"

section \<open>Properties\<close>

text \<open>
  A driver in state \<open>d\<close> hands over the chunks \<open>cs\<close>, whatever the rest of the state, leaves it
  alone, and then fails in state \<open>d'\<close>.
\<close>

inductive recvs :: "('d, 'w) app_api \<Rightarrow> 'd \<Rightarrow> bytes list \<Rightarrow> 'd \<Rightarrow> bool" for api where
  recvs_stop: "\<forall>w. api_recv api RECV_BUFFER_SIZE d w = ((n, data), d', w) \<Longrightarrow> n < 0 \<Longrightarrow> recvs api d [] d'"
| recvs_idle: "\<forall>w. api_recv api RECV_BUFFER_SIZE d w = ((0, data), d1, w) \<Longrightarrow> recvs api d1 cs d' \<Longrightarrow> recvs api d cs d'"
| recvs_data: "\<forall>w. api_recv api RECV_BUFFER_SIZE d w = ((n, data), d1, w) \<Longrightarrow> n > 0 \<Longrightarrow>
    recvs api d1 cs d' \<Longrightarrow> recvs api d (take (nat n) data # cs) d'"

lemma hup_server_loop_recv:
  assumes "api_recv api RECV_BUFFER_SIZE d w = ((n, data), d1, w)"
  shows "hup_server_loop env cmds resps api h w d =
    (if n < 0 then Some (h, w, d1)
     else if n \<noteq> 0 then Option.bind (process_hupacket env cmds resps (take (nat n) data) h w)
       (\<lambda>(h, w). hup_server_loop env cmds resps api h w d1)
     else hup_server_loop env cmds resps api h w d1)"
  by (subst hup_server_loop.simps) (simp add: assms)

text \<open>
  The server's result does not depend on how the bytes are cut into receptions: when a driver hands over the
  chunks \<open>cs\<close> before it fails, the thread ends as the packet receiver does on their concatenation, and not at
  all when the receiver has undefined behaviour.
\<close>

lemma server_stream:
  assumes "recvs api d cs d'"
  shows "hup_server_loop env cmds resps api h w d =
    map_option (\<lambda>(h, w). (h, w, d')) (process_hupacket env cmds resps (concat cs) h w)"
  using assms
proof (induction arbitrary: h w)
  case (recvs_stop d n data d')
  then show ?case by (simp add: hup_server_loop_recv)
next
  case (recvs_idle d data d1 cs d')
  then show ?case by (simp add: hup_server_loop_recv)
next
  case (recvs_data d n data d1 cs d')
  then show ?case
    by (cases "process_hupacket env cmds resps (take (nat n) data) h w")
      (auto simp: hup_server_loop_recv process_hupacket_append)
qed

text \<open>What the pool's interface gives for two allocations and their release in reverse.\<close>

lemma pool_two_out:
  assumes "pool_ok s (insert c (insert b al))" and "b \<notin> al" and "c \<notin> insert b al"
  shows "\<exists>s1 s2. pfree (fst c + sizeof_link_t) s = Some s1 \<and> pfree (fst b + sizeof_link_t) s1 = Some s2 \<and> pool_ok s2 al"
proof -
  obtain s1 where s1: "pfree (fst c + sizeof_link_t) s = Some s1" "pool_ok s1 (insert b al)"
    using pl.release_law [OF assms(1), of c] assms(3) by auto
  moreover obtain s2 where "pfree (fst b + sizeof_link_t) s1 = Some s2" "pool_ok s2 al"
    using pl.release_law [OF s1(2), of b] assms(2) by auto
  ultimately show ?thesis by blast
qed

lemma pool_one_out:
  assumes "pool_ok s (insert b al)" and "b \<notin> al"
  shows "\<exists>s1. pfree (fst b + sizeof_link_t) s = Some s1 \<and> pool_ok s1 al"
  using pl.release_law [OF assms(1), of b] assms(2) by auto

text \<open>
  Starting a server leaks nothing: with a thread stack and requests the pool can round,
  either it fails with the pool's live blocks as they were, or its structure and its receiver are two
  disjoint live blocks of the pool, and ending the server gives back exactly these, from any later
  state of the pool that still has them.
\<close>

lemma hup_server_no_leak:
  assumes "pool_ok s al" and "palloc_request sz_handle" and "palloc_request sz_hup" and "api_deinit api = Some f"
  shows "\<exists>res s' d'. init_hup_server sz_handle sz_hup api True s d = Some (res, s', d') \<and>
    (case res of
       None \<Rightarrow> pool_ok s' al
     | Some h \<Rightarrow> \<exists>b c. hs_addr h = fst b + sizeof_link_t \<and> hs_hup h = fst c + sizeof_link_t \<and>
         usable b \<inter> usable c = {} \<and> b \<noteq> c \<and> b \<notin> al \<and> c \<notin> al \<and> pool_ok s' (insert c (insert b al)) \<and>
         (\<forall>t e. pool_ok t (insert c (insert b al)) \<longrightarrow>
            (\<exists>t'. deinit_hup_server (Some h) (Some api) t e = Some (t', f e) \<and> pool_ok t' al)))"
proof (cases "api_init api")
  case None
  with assms show ?thesis by (simp add: init_hup_server_def)
next
  case (Some start)
  obtain drv d1 where st: "start d = (drv, d1)" by (cases "start d")
  from pl.alloc_law [OF assms(1,2)] show ?thesis
  proof (elim disjE exE conjE)
    assume "palloc sz_handle s = Some (0, s)"
    with Some assms show ?thesis by (simp add: init_hup_server_def)
  next
    fix b s1
    assume b: "palloc sz_handle s = Some (fst b + sizeof_link_t, s1)" "fst b + sizeof_link_t \<noteq> 0" "b \<notin> al"
      "pool_ok s1 (insert b al)"
    obtain s0 where s0: "pfree (fst b + sizeof_link_t) s1 = Some s0" "pool_ok s0 al"
      using pool_one_out [OF b(4,3)] by blast
    show ?thesis
    proof (cases drv)
      case False
      with Some b s0 st show ?thesis by (simp add: init_hup_server_def)
    next
      case drv: True
      from pl.alloc_law [OF b(4) assms(3)] show ?thesis
      proof (elim disjE exE conjE)
        assume "palloc sz_hup s1 = Some (0, s1)"
        with Some b s0 st drv show ?thesis by (simp add: init_hup_server_def)
      next
        fix c s2
        assume c: "palloc sz_hup s1 = Some (fst c + sizeof_link_t, s2)" "fst c + sizeof_link_t \<noteq> 0"
          "c \<notin> insert b al" "pool_ok s2 (insert c (insert b al))"
        let ?h = "\<lparr>hs_addr = fst b + sizeof_link_t, hs_drv = True, hs_hup = fst c + sizeof_link_t, hs_tid = True\<rparr>"
        have "init_hup_server sz_handle sz_hup api True s d = Some (Some ?h, s2, d1)"
          using Some b c st drv by (simp add: init_hup_server_def)
        moreover have "\<exists>t'. deinit_hup_server (Some ?h) (Some api) t e = Some (t', f e) \<and> pool_ok t' al"
          if "pool_ok t (insert c (insert b al))" for t e
          using pool_two_out [OF that b(3) c(3)] c(2) assms(4) by (auto simp: deinit_hup_server_def deinit_hupacket_def)
        moreover have "b \<noteq> c" using c(3) by auto
        moreover from this have "usable b \<inter> usable c = {}" using pl.disjoint_law [OF c(4), of b c] by auto
        ultimately show ?thesis
          using c(3,4) b(3) by (intro exI [of _ "Some ?h"] exI [of _ s2] exI [of _ d1])
            (simp only: option.case, intro conjI exI [of _ b] exI [of _ c], simp_all)
      qed
    qed
  qed
qed

definition counting_driver :: "(nat, unit) app_api" where
  "counting_driver = \<lparr>api_init = Some (\<lambda>d. (True, d)), api_deinit = Some Suc, api_recv = \<lambda>n d w. ((-1, []), d, w)\<rparr>"

lemma hup_server_no_leak_witness:
  "\<exists>h s t. init_hup_server 20 20 counting_driver True pool_ex 7 = Some (Some h, s, 7) \<and>
     deinit_hup_server (Some h) (Some counting_driver) s 7 = Some (t, 8) \<and> pool_ok t {}"
proof -
  obtain s where s: "palloc 20 pool_ex = Some (0x108, s)" "pool_inv s [(0x11C, 0xDC), (0x1F8, 0)] {(0x100, 28)}"
    by (rule pool_ex_alloc)
  have "ff_alloc 28 [(0x11C, 0xDC), (0x1F8, 0)] = Some ((0x11C, 28), [(0x138, 0xC0), (0x1F8, 0)])"
    by (simp add: sizeof_link_t_def)
  moreover have "ALIGNED_VALUE (20 + sizeof_link_t) = 28"
    by (simp add: ALIGNED_VALUE_def ALIGNED_MASK_def sizeof_link_t_def)
  ultimately obtain s' where "palloc 20 s = Some (0x124, s')"
    using palloc_refines [OF s(2), of 20] by (auto simp: sizeof_link_t_def)
  with s(1) have i: "init_hup_server 20 20 counting_driver True pool_ex 7 =
      Some (Some \<lparr>hs_addr = 0x108, hs_drv = True, hs_hup = 0x124, hs_tid = True\<rparr>, s', 7)"
    by (simp add: init_hup_server_def counting_driver_def)
  have ok: "pool_ok pool_ex {}" using pool_ex_inv by (auto simp: pool_ok_def)
  have "api_deinit counting_driver = Some Suc" by (simp add: counting_driver_def)
  from hup_server_no_leak [OF ok _ _ this, of 20 20 7] i obtain b c where
    "pool_ok s' (insert c (insert b {}))" and
    "\<forall>t e. pool_ok t (insert c (insert b {})) \<longrightarrow>
       (\<exists>t'. deinit_hup_server (Some \<lparr>hs_addr = 0x108, hs_drv = True, hs_hup = 0x124, hs_tid = True\<rparr>)
          (Some counting_driver) t e = Some (t', Suc e) \<and> pool_ok t' {})"
    by (force simp: palloc_request_def)
  then have "\<exists>t. deinit_hup_server (Some \<lparr>hs_addr = 0x108, hs_drv = True, hs_hup = 0x124, hs_tid = True\<rparr>)
      (Some counting_driver) s' 7 = Some (t, Suc 7) \<and> pool_ok t {}" by blast
  with i show ?thesis by auto
qed

end
