(* ===== verification/Modbluetooth.thy ===== *)
theory Modbluetooth
  imports Mp_Base "HOL-Library.Signed_Division"
begin

text \<open>
  The Bluetooth binding, \<open>app/micropython/modbluetooth_zephyr.c\<close>: the life cycle of the
  stack, the list of connections, advertising and scanning, and the GATT server with its
  attribute tables.

  The Zephyr stack and MicroPython's attribute database are parameters (\<open>bt_api\<close>,
  \<open>gatts_ext\<close>) over a state \<open>'w\<close>, which is a field of the binding's own state; what
  the binding reports to Python is the list \<open>bt_events\<close>.  A computation returns an exception
  or a value with the new state; \<open>None\<close> is undefined behaviour (a NULL pointer, an access
  outside an object) or a loop that does not end.
\<close>

type_synonym i32 = "32 word"

section \<open>State\<close>

datatype ble_state = BLE_STATE_OFF | BLE_STATE_ACTIVE | BLE_STATE_SUSPENDED

datatype gap_scan_state = GAP_SCAN_STATE_INACTIVE | GAP_SCAN_STATE_DEACTIVATING | GAP_SCAN_STATE_ACTIVE

text \<open>A UUID of 2, 4 or 16 bytes, in both libraries.\<close>

datatype mp_uuid = MP_UUID_16 bytes | MP_UUID_32 bytes | MP_UUID_128 bytes

datatype bt_uuid = BT_UUID bytes

text \<open>
  An attribute's user data: none, a service's UUID, a characteristic's properties and UUID, the
  configuration of subscriptions, extended properties, or the buffer of a database entry.
\<close>

datatype attr_user = U_Null | U_Service bt_uuid | U_Chrc u8 bt_uuid | U_Ccc | U_Cep u16 | U_Entry u16

datatype attr_access = A_None | A_Read_Service | A_Read_Chrc | A_Ccc | A_Read_Cep | A_Gatts

record gatt_attr =
  at_uuid :: "bt_uuid option"
  at_perm :: u16
  at_access :: attr_access
  at_user :: attr_user
  at_handle :: u16

text \<open>An entry of the attribute database.\<close>

record gatts_entry =
  ge_data :: bytes
  ge_len :: nat
  ge_append :: bool

type_synonym gatts_db = "u16 \<Rightarrow> gatts_entry option"

text \<open>The list of connections is linked through nodes; address 0 is NULL.\<close>

record conn_node =
  cn_conn :: "nat option"
  cn_next :: nat

record bt_root =
  rp_db :: gatts_db
  rp_services :: "gatt_attr list list"
  rp_connections :: nat

text \<open>An advertising element: its type, its length, and the memory from its data pointer on.\<close>

record bt_data =
  bd_type :: u8
  bd_len :: u8
  bd_data :: bytes

datatype bt_event =
    Central_connect u8 u8 bytes
  | Central_disconnect u8 u8 bytes
  | Scan_result u8 bytes u8 int bytes
  | Scan_complete
  | Gatts_write u8 u16
  | Indicate_complete u8 u16 u8

record 'w bt_state =
  bt_ble :: ble_state
  bt_scan :: gap_scan_state
  bt_root :: "bt_root option"
  bt_nodes :: "nat \<Rightarrow> conn_node"
  bt_fresh :: nat
  bt_next_conn :: nat
  bt_ad :: "bt_data list"
  bt_sd :: "bt_data list"
  bt_events :: "bt_event list"
  bt_world :: 'w

section \<open>The libraries\<close>

record conn_info =
  ci_id :: u8
  ci_type :: u8
  ci_addr :: bytes

record adv_param =
  ap_connectable :: bool
  ap_interval_min :: u32
  ap_interval_max :: u32

record scan_param =
  sp_active :: bool
  sp_interval :: u16
  sp_window :: u16

record 'w bt_api =
  bt_enable :: "'w \<Rightarrow> int \<times> 'w"
  bt_conn_cb_register :: "'w \<Rightarrow> 'w"
  bt_conn_get_info :: "'w \<Rightarrow> nat \<Rightarrow> conn_info"
  bt_conn_ref :: "nat \<Rightarrow> 'w \<Rightarrow> 'w"
  bt_conn_unref :: "nat \<Rightarrow> 'w \<Rightarrow> 'w"
  bt_conn_disconnect :: "nat \<Rightarrow> 'w \<Rightarrow> int \<times> 'w"
  bt_id_get :: "'w \<Rightarrow> (bytes \<times> u8) option"
  bt_get_name :: "'w \<Rightarrow> bytes"
  bt_set_name :: "bytes \<Rightarrow> 'w \<Rightarrow> int \<times> 'w"
  bt_le_adv_start :: "adv_param \<Rightarrow> bt_data list \<Rightarrow> bt_data list \<Rightarrow> 'w \<Rightarrow> int \<times> 'w"
  bt_le_adv_stop :: "'w \<Rightarrow> int \<times> 'w"
  bt_le_scan_cb_register :: "'w \<Rightarrow> 'w"
  bt_le_scan_cb_unregister :: "'w \<Rightarrow> 'w"
  bt_le_scan_start :: "scan_param \<Rightarrow> 'w \<Rightarrow> int \<times> 'w"
  bt_le_scan_stop :: "'w \<Rightarrow> int \<times> 'w"
  scan_timer_init :: "'w \<Rightarrow> 'w"
  scan_timer_start :: "int \<Rightarrow> 'w \<Rightarrow> 'w"
  scan_timer_stop :: "'w \<Rightarrow> 'w"
  mp_sched_stop :: "'w \<Rightarrow> bool \<times> 'w"
  bt_gatt_service_register :: "gatt_attr list \<Rightarrow> 'w \<Rightarrow> (int \<times> u16 list) \<times> 'w"
  bt_gatt_service_unregister :: "gatt_attr list \<Rightarrow> 'w \<Rightarrow> 'w"
  bt_gatt_notify :: "nat option \<Rightarrow> gatt_attr option \<Rightarrow> bytes \<Rightarrow> 'w \<Rightarrow> int \<times> 'w"
  bt_gatt_indicate :: "nat option \<Rightarrow> gatt_attr option \<Rightarrow> bytes \<Rightarrow> 'w \<Rightarrow> int \<times> 'w"
  bt_gatt_attr_read :: "nat \<Rightarrow> u16 \<Rightarrow> u16 \<Rightarrow> bytes \<Rightarrow> 'w \<Rightarrow> (int \<times> bytes) \<times> 'w"
  bt_uuid_cmp :: "bt_uuid \<Rightarrow> bt_uuid \<Rightarrow> int"

text \<open>MicroPython's database operations (\<open>extmod/modbluetooth.c\<close>); looking up is the map.\<close>

record gatts_ext =
  gatts_default_len :: nat
  gatts_db_create :: gatts_db
  gatts_db_create_entry :: "u16 \<Rightarrow> nat \<Rightarrow> gatts_db \<Rightarrow> gatts_db"
  gatts_db_reset :: "gatts_db \<Rightarrow> gatts_db"
  gatts_db_read :: "gatts_db \<Rightarrow> u16 \<Rightarrow> int \<times> bytes \<times> gatts_db"
  gatts_db_write :: "gatts_db \<Rightarrow> u16 \<Rightarrow> bytes \<Rightarrow> int \<times> gatts_db"
  gatts_db_resize :: "gatts_db \<Rightarrow> u16 \<Rightarrow> nat \<Rightarrow> bool \<Rightarrow> int \<times> gatts_db"

section \<open>Computations\<close>

type_synonym ('w, 'a) btm = "'w bt_state \<Rightarrow> ((mp_exc + 'a) \<times> 'w bt_state) option"

definition bret :: "'a \<Rightarrow> ('w, 'a) btm" where "bret x = (\<lambda>s. Some (Inr x, s))"

definition braise :: "mp_exc \<Rightarrow> ('w, 'a) btm" where "braise e = (\<lambda>s. Some (Inl e, s))"

definition bundef :: "('w, 'a) btm" where "bundef = (\<lambda>s. None)"

definition bbind :: "('w, 'a) btm \<Rightarrow> ('a \<Rightarrow> ('w, 'b) btm) \<Rightarrow> ('w, 'b) btm" where
  "bbind m f = (\<lambda>s. case m s of None \<Rightarrow> None
     | Some (r, t) \<Rightarrow> (case r of Inl e \<Rightarrow> Some (Inl e, t) | Inr x \<Rightarrow> f x t))"

definition bget :: "('w bt_state \<Rightarrow> 'a) \<Rightarrow> ('w, 'a) btm" where "bget f = (\<lambda>s. Some (Inr (f s), s))"

definition bmod :: "('w bt_state \<Rightarrow> 'w bt_state) \<Rightarrow> ('w, unit) btm" where "bmod f = (\<lambda>s. Some (Inr (), f s))"

definition bcall :: "('w \<Rightarrow> 'a \<times> 'w) \<Rightarrow> ('w, 'a) btm" where
  "bcall f = (\<lambda>s. case f (bt_world s) of (x, w) \<Rightarrow> Some (Inr x, s\<lparr>bt_world := w\<rparr>))"

definition bdo :: "('w \<Rightarrow> 'w) \<Rightarrow> ('w, unit) btm" where "bdo f = bcall (\<lambda>w. ((), f w))"

definition bevent :: "bt_event \<Rightarrow> ('w, unit) btm" where
  "bevent e = bmod (\<lambda>s. s\<lparr>bt_events := bt_events s @ [e]\<rparr>)"

definition boption :: "'a option \<Rightarrow> ('w, 'a) btm" where
  "boption x = (case x of None \<Rightarrow> bundef | Some v \<Rightarrow> bret v)"

text \<open>The root pointers: dereferencing them while they are NULL is undefined.\<close>

definition broot :: "(bt_root \<Rightarrow> 'a) \<Rightarrow> ('w, 'a) btm" where
  "broot f = (\<lambda>s. case bt_root s of None \<Rightarrow> None | Some r \<Rightarrow> Some (Inr (f r), s))"

definition broot_mod :: "(bt_root \<Rightarrow> bt_root) \<Rightarrow> ('w, unit) btm" where
  "broot_mod f = (\<lambda>s. case bt_root s of None \<Rightarrow> None | Some r \<Rightarrow> Some (Inr (), s\<lparr>bt_root := Some (f r)\<rparr>))"

section \<open>Connections\<close>

partial_function (option) find_connection_from ::
  "(nat \<Rightarrow> conn_info) \<Rightarrow> (nat \<Rightarrow> conn_node) \<Rightarrow> u8 \<Rightarrow> nat \<Rightarrow> nat option" where
  "find_connection_from info nodes conn_handle connection =
     (if connection = 0 then Some 0
      else (case cn_conn (nodes connection) of
              Some c \<Rightarrow> if ci_id (info c) = conn_handle then Some connection
                        else find_connection_from info nodes conn_handle (cn_next (nodes connection))
            | None \<Rightarrow> find_connection_from info nodes conn_handle (cn_next (nodes connection))))"

definition mp_bt_zephyr_find_connection :: "'w bt_api \<Rightarrow> u8 \<Rightarrow> ('w, nat) btm" where
  "mp_bt_zephyr_find_connection api conn_handle =
     bbind (broot rp_connections) (\<lambda>connections s.
       case find_connection_from (bt_conn_get_info api (bt_world s)) (bt_nodes s) conn_handle connections of
         None \<Rightarrow> None
       | Some p \<Rightarrow> Some (Inr p, s))"

definition mp_bt_zephyr_insert_connection :: "nat \<Rightarrow> ('w, unit) btm" where
  "mp_bt_zephyr_insert_connection connection =
     bbind (broot rp_connections) (\<lambda>connections.
     bbind (bmod (\<lambda>s. s\<lparr>bt_nodes := (bt_nodes s)(connection := (bt_nodes s connection)\<lparr>cn_next := connections\<rparr>)\<rparr>)) (\<lambda>_.
     broot_mod (\<lambda>r. r\<lparr>rp_connections := connection\<rparr>)))"

text \<open>The node to unlink and the one before it (0 at the front); nodes without a connection are
  never taken for the one before.\<close>

partial_function (option) remove_connection_from ::
  "(nat \<Rightarrow> conn_info) \<Rightarrow> (nat \<Rightarrow> conn_node) \<Rightarrow> u8 \<Rightarrow> nat \<Rightarrow> nat \<Rightarrow> (nat \<times> nat) option" where
  "remove_connection_from info nodes conn_handle prev connection =
     (if connection = 0 then Some (prev, 0)
      else (case cn_conn (nodes connection) of
              Some c \<Rightarrow> if ci_id (info c) = conn_handle then Some (prev, connection)
                        else remove_connection_from info nodes conn_handle connection (cn_next (nodes connection))
            | None \<Rightarrow> remove_connection_from info nodes conn_handle prev (cn_next (nodes connection))))"

definition mp_bt_zephyr_remove_connection :: "'w bt_api \<Rightarrow> u8 \<Rightarrow> ('w, unit) btm" where
  "mp_bt_zephyr_remove_connection api conn_handle =
     bbind (broot rp_connections) (\<lambda>connections s.
       case remove_connection_from (bt_conn_get_info api (bt_world s)) (bt_nodes s) conn_handle 0 connections of
         None \<Rightarrow> None
       | Some (prev, connection) \<Rightarrow>
           (if connection = 0 then Some (Inr (), s)
            else (let after = cn_next (bt_nodes s connection)
                  in if prev \<noteq> 0
                     then Some (Inr (), s\<lparr>bt_nodes := (bt_nodes s)(prev := (bt_nodes s prev)\<lparr>cn_next := after\<rparr>)\<rparr>)
                     else broot_mod (\<lambda>r. r\<lparr>rp_connections := after\<rparr>) s)))"

definition mp_bt_zephyr_connected :: "'w bt_api \<Rightarrow> nat \<Rightarrow> u8 \<Rightarrow> ('w, unit) btm" where
  "mp_bt_zephyr_connected api conn err =
     bbind (bget (\<lambda>s. bt_conn_get_info api (bt_world s) conn)) (\<lambda>info.
       if err \<noteq> 0 then bevent (Central_disconnect (ci_id info) 0xFF (replicate 6 0))
       else
         bbind (bget bt_next_conn) (\<lambda>p.
         if p = 0 then bundef
         else
           bbind (bdo (bt_conn_ref api conn)) (\<lambda>_.
           bbind (bmod (\<lambda>s. s\<lparr>bt_nodes := (bt_nodes s)(p := (bt_nodes s p)\<lparr>cn_conn := Some conn\<rparr>)\<rparr>)) (\<lambda>_.
           bbind (bevent (Central_connect (ci_id info) (ci_type info) (ci_addr info))) (\<lambda>_.
           mp_bt_zephyr_insert_connection p)))))"

definition mp_bt_zephyr_disconnected :: "'w bt_api \<Rightarrow> nat \<Rightarrow> u8 \<Rightarrow> ('w, unit) btm" where
  "mp_bt_zephyr_disconnected api conn reason =
     bbind (bget (\<lambda>s. bt_conn_get_info api (bt_world s) conn)) (\<lambda>info.
     bbind (bdo (bt_conn_unref api conn)) (\<lambda>_.
     bbind (mp_bt_zephyr_remove_connection api (ci_id info)) (\<lambda>_.
     bevent (Central_disconnect (ci_id info) (ci_type info) (ci_addr info)))))"

definition bt_err_to_errno :: "int \<Rightarrow> int" where "bt_err_to_errno err = - err"

text \<open>Six bytes in the other order.\<close>

definition reverse_addr_byte_order :: "bytes \<Rightarrow> bytes option" where
  "reverse_addr_byte_order val = (if length val < 6 then None else Some (map (\<lambda>i. val ! (5 - i)) [0..<6]))"

section \<open>Advertising and scanning\<close>

definition MP_ENOENT :: int where "MP_ENOENT = 2"
definition MP_E2BIG :: int where "MP_E2BIG = 7"
definition MP_EOPNOTSUPP :: int where "MP_EOPNOTSUPP = 95"
definition ERRNO_BLUETOOTH_NOT_ACTIVE :: int where "ERRNO_BLUETOOTH_NOT_ACTIVE = ENODEV"
definition BLE_HCI_SCAN_ITVL_MIN :: int where "BLE_HCI_SCAN_ITVL_MIN = 0x10"
definition BLE_HCI_SCAN_ITVL_MAX :: int where "BLE_HCI_SCAN_ITVL_MAX = 0xFFFF"
definition BLE_HCI_SCAN_WINDOW_MIN :: int where "BLE_HCI_SCAN_WINDOW_MIN = 0x10"
definition BLE_HCI_SCAN_WINDOW_MAX :: int where "BLE_HCI_SCAN_WINDOW_MAX = 0xFFFF"
definition MP_BLUETOOTH_ZEPHYR_MAX_SERVICES :: nat where "MP_BLUETOOTH_ZEPHYR_MAX_SERVICES = 8"

definition mp_bluetooth_is_active :: "'w bt_state \<Rightarrow> bool" where
  "mp_bluetooth_is_active s \<longleftrightarrow> bt_ble s = BLE_STATE_ACTIVE"

text \<open>Most entry points answer \<open>ENODEV\<close> unless the stack is active.\<close>

definition if_active :: "('w, int) btm \<Rightarrow> ('w, int) btm" where
  "if_active m = bbind (bget mp_bluetooth_is_active) (\<lambda>a. if a then m else bret ERRNO_BLUETOOTH_NOT_ACTIVE)"

definition mp_bluetooth_gap_advertise_stop :: "'w bt_api \<Rightarrow> ('w, unit) btm" where
  "mp_bluetooth_gap_advertise_stop api =
     bbind (bcall (bt_le_adv_stop api)) (\<lambda>ret.
     if ret \<noteq> 0 then braise (OSError (bt_err_to_errno ret)) else bret ())"

text \<open>Raw advertising data as elements, at most as many as the array holds.\<close>

fun mp_bluetooth_prepare_bt_data :: "bytes \<Rightarrow> nat \<Rightarrow> bt_data list option" where
  "mp_bluetooth_prepare_bt_data data 0 = Some []"
| "mp_bluetooth_prepare_bt_data [] (Suc i) = Some []"
| "mp_bluetooth_prepare_bt_data [d0] (Suc i) = None"
| "mp_bluetooth_prepare_bt_data (d0 # d1 # d) (Suc i) =
     map_option ((#) \<lparr>bd_type = d1, bd_len = d0 - 1, bd_data = d\<rparr>)
       (mp_bluetooth_prepare_bt_data (drop (unat d0) (d1 # d)) i)"

definition mp_bluetooth_gap_advertise_start ::
  "'w bt_api \<Rightarrow> bool \<Rightarrow> i32 \<Rightarrow> bytes option \<Rightarrow> bytes option \<Rightarrow> ('w, int) btm" where
  "mp_bluetooth_gap_advertise_start api connectable interval_us adv_data sr_data =
     if_active (
     bbind (mp_bluetooth_gap_advertise_stop api) (\<lambda>_.
     bbind (case adv_data of None \<Rightarrow> bret ()
            | Some d \<Rightarrow> bbind (boption (mp_bluetooth_prepare_bt_data d 8)) (\<lambda>l. bmod (\<lambda>s. s\<lparr>bt_ad := l\<rparr>))) (\<lambda>_.
     bbind (case sr_data of None \<Rightarrow> bret ()
            | Some d \<Rightarrow> bbind (boption (mp_bluetooth_prepare_bt_data d 8)) (\<lambda>l. bmod (\<lambda>s. s\<lparr>bt_sd := l\<rparr>))) (\<lambda>_.
     let interval = word_of_int (sint interval_us sdiv 625);
         param = \<lparr>ap_connectable = connectable, ap_interval_min = interval, ap_interval_max = interval + 1\<rparr> in
     bbind (bmod (\<lambda>s. s\<lparr>bt_next_conn := bt_fresh s, bt_fresh := Suc (bt_fresh s),
                        bt_nodes := (bt_nodes s)(bt_fresh s := \<lparr>cn_conn = None, cn_next = 0\<rparr>)\<rparr>)) (\<lambda>_.
     bbind (broot (\<lambda>r. ())) (\<lambda>_.
     bbind (bget (\<lambda>s. (bt_ad s, bt_sd s))) (\<lambda>(ad, sd).
     bbind (bcall (bt_le_adv_start api param ad sd)) (\<lambda>ret.
     bret (bt_err_to_errno ret)))))))))"

definition mp_bluetooth_gap_scan_stop :: "'w bt_api \<Rightarrow> ('w, int) btm" where
  "mp_bluetooth_gap_scan_stop api =
     if_active (
     bbind (bget bt_scan) (\<lambda>scan.
     if scan = GAP_SCAN_STATE_INACTIVE then bret 0
     else
       bbind (bmod (\<lambda>s. s\<lparr>bt_scan := GAP_SCAN_STATE_INACTIVE\<rparr>)) (\<lambda>_.
       bbind (bdo (scan_timer_stop api)) (\<lambda>_.
       bbind (bcall (bt_le_scan_stop api)) (\<lambda>err.
       if err = 0 then bbind (bevent Scan_complete) (\<lambda>_. bret 0)
       else bret (bt_err_to_errno err))))))"

definition mp_bluetooth_gap_scan_start :: "'w bt_api \<Rightarrow> i32 \<Rightarrow> i32 \<Rightarrow> i32 \<Rightarrow> bool \<Rightarrow> ('w, int) btm" where
  "mp_bluetooth_gap_scan_start api duration_ms interval_us window_us active_scan =
     bbind (mp_bluetooth_gap_scan_stop api) (\<lambda>ret.
     if ret \<noteq> 0 then bret ret
     else
       let param = \<lparr>sp_active = active_scan,
             sp_interval = word_of_int (max BLE_HCI_SCAN_ITVL_MIN (min BLE_HCI_SCAN_ITVL_MAX (sint interval_us sdiv 625))),
             sp_window = word_of_int (max BLE_HCI_SCAN_WINDOW_MIN (min BLE_HCI_SCAN_WINDOW_MAX (sint window_us sdiv 625)))\<rparr> in
       bbind (bdo (scan_timer_start api (sint duration_ms))) (\<lambda>_.
       bbind (bmod (\<lambda>s. s\<lparr>bt_scan := GAP_SCAN_STATE_ACTIVE\<rparr>)) (\<lambda>_.
       bbind (bcall (bt_le_scan_start api param)) (\<lambda>err.
       bret (bt_err_to_errno err)))))"

definition gap_scan_cb_recv :: "bytes \<Rightarrow> u8 \<Rightarrow> u8 \<Rightarrow> int \<Rightarrow> bytes \<Rightarrow> ('w, unit) btm" where
  "gap_scan_cb_recv addr_val addr_type adv_type rssi data =
     bbind (bget (\<lambda>s. mp_bluetooth_is_active s \<and> bt_scan s = GAP_SCAN_STATE_ACTIVE)) (\<lambda>on.
     if \<not> on then bret ()
     else
       bbind (boption (reverse_addr_byte_order addr_val)) (\<lambda>addr.
       bevent (Scan_result addr_type addr adv_type rssi data)))"

text \<open>The timer waits until the stop can be scheduled.\<close>

partial_function (option) schedule_stop :: "'w bt_api \<Rightarrow> 'w \<Rightarrow> 'w option" where
  "schedule_stop api w =
     (case mp_sched_stop api w of (ok, w) \<Rightarrow> if ok then Some w else schedule_stop api w)"

definition gap_scan_cb_timeout :: "'w bt_api \<Rightarrow> ('w, unit) btm" where
  "gap_scan_cb_timeout api s =
     (case schedule_stop api (bt_world s) of
        None \<Rightarrow> None
      | Some w \<Rightarrow> Some (Inr (), s\<lparr>bt_world := w, bt_scan := GAP_SCAN_STATE_DEACTIVATING\<rparr>))"

section \<open>Starting and stopping\<close>

primrec unregister_services :: "'w bt_api \<Rightarrow> gatt_attr list list \<Rightarrow> 'w \<Rightarrow> 'w" where
  "unregister_services api [] w = w"
| "unregister_services api (svc # svcs) w = unregister_services api svcs (bt_gatt_service_unregister api svc w)"

definition mp_bluetooth_deinit :: "'w bt_api \<Rightarrow> ('w, int) btm" where
  "mp_bluetooth_deinit api =
     bbind (bget bt_ble) (\<lambda>ble.
     if ble = BLE_STATE_OFF \<or> ble = BLE_STATE_SUSPENDED then bret 0
     else
       bbind (mp_bluetooth_gap_advertise_stop api) (\<lambda>_.
       bbind (broot rp_services) (\<lambda>services.
       bbind (bdo (unregister_services api services)) (\<lambda>_.
       bbind (broot_mod (\<lambda>r. r\<lparr>rp_services := []\<rparr>)) (\<lambda>_.
       bbind (mp_bluetooth_gap_scan_stop api) (\<lambda>_.
       bbind (bdo (bt_le_scan_cb_unregister api)) (\<lambda>_.
       bbind (bmod (\<lambda>s. s\<lparr>bt_ble := BLE_STATE_SUSPENDED, bt_root := None, bt_next_conn := 0\<rparr>)) (\<lambda>_.
       bret 0))))))))"

definition mp_bluetooth_init :: "'w bt_api \<Rightarrow> gatts_ext \<Rightarrow> ('w, int) btm" where
  "mp_bluetooth_init api G =
     bbind (mp_bluetooth_deinit api) (\<lambda>_.
     bbind (bmod (\<lambda>s. s\<lparr>bt_root := Some \<lparr>rp_db = gatts_db_create G, rp_services = [], rp_connections = 0\<rparr>,
                        bt_next_conn := 0, bt_scan := GAP_SCAN_STATE_INACTIVE\<rparr>)) (\<lambda>_.
     bbind (bdo (scan_timer_init api)) (\<lambda>_.
     bbind (bdo (bt_le_scan_cb_register api)) (\<lambda>_.
     bbind (bget bt_ble) (\<lambda>ble.
     bbind (if ble = BLE_STATE_OFF
            then bbind (bdo (bt_conn_cb_register api)) (\<lambda>_. bcall (bt_enable api))
            else bret 0) (\<lambda>ret.
     if ret \<noteq> 0 then bret (bt_err_to_errno ret)
     else bbind (bmod (\<lambda>s. s\<lparr>bt_ble := BLE_STATE_ACTIVE\<rparr>)) (\<lambda>_. bret 0)))))))"

definition mp_bluetooth_get_current_address :: "'w bt_api \<Rightarrow> ('w, u8 \<times> bytes) btm" where
  "mp_bluetooth_get_current_address api =
     bbind (bget mp_bluetooth_is_active) (\<lambda>a.
     if \<not> a then braise (OSError ERRNO_BLUETOOTH_NOT_ACTIVE)
     else
       bbind (bget (\<lambda>s. bt_id_get api (bt_world s))) (\<lambda>r.
       case r of
         None \<Rightarrow> braise (OSError EIO)
       | Some (val, type) \<Rightarrow>
           bbind (boption (reverse_addr_byte_order val)) (\<lambda>addr. bret (type, addr))))"

definition mp_bluetooth_set_address_mode :: "u8 \<Rightarrow> ('w, unit) btm" where
  "mp_bluetooth_set_address_mode addr_mode = braise (OSError MP_EOPNOTSUPP)"

definition mp_bluetooth_gap_get_device_name :: "'w bt_api \<Rightarrow> ('w, nat \<times> bytes) btm" where
  "mp_bluetooth_gap_get_device_name api =
     bbind (bget (\<lambda>s. c_str (bt_get_name api (bt_world s)))) (\<lambda>name. bret (length name, name))"

text \<open>The longest name is configured.\<close>

definition mp_bluetooth_gap_set_device_name :: "'w bt_api \<Rightarrow> nat \<Rightarrow> bytes \<Rightarrow> ('w, int) btm" where
  "mp_bluetooth_gap_set_device_name api name_max buf =
     (if length buf + 1 > name_max + 1 then bret EINVAL
      else bbind (bcall (bt_set_name api (c_str buf))) (\<lambda>ret. bret (bt_err_to_errno ret)))"

definition mp_bluetooth_gap_disconnect :: "'w bt_api \<Rightarrow> u16 \<Rightarrow> ('w, int) btm" where
  "mp_bluetooth_gap_disconnect api conn_handle =
     if_active (
     bbind (mp_bt_zephyr_find_connection api (ucast conn_handle)) (\<lambda>connection.
     if connection \<noteq> 0 then
       bbind (bget (\<lambda>s. cn_conn (bt_nodes s connection))) (\<lambda>c.
       bbind (boption c) (\<lambda>c. bcall (bt_conn_disconnect api c)))
     else bret MP_ENOENT))"

definition mp_bluetooth_get_preferred_mtu :: "('w, int) btm" where
  "mp_bluetooth_get_preferred_mtu =
     bbind (bget mp_bluetooth_is_active) (\<lambda>a.
     if \<not> a then braise (OSError ERRNO_BLUETOOTH_NOT_ACTIVE) else braise (OSError MP_EOPNOTSUPP))"

definition mp_bluetooth_set_preferred_mtu :: "u16 \<Rightarrow> ('w, int) btm" where
  "mp_bluetooth_set_preferred_mtu mtu = if_active (bret MP_EOPNOTSUPP)"

definition mp_bluetooth_gap_peripheral_connect :: "('w, int) btm" where
  "mp_bluetooth_gap_peripheral_connect = if_active (bret MP_EOPNOTSUPP)"

definition mp_bluetooth_gap_peripheral_connect_cancel :: "('w, int) btm" where
  "mp_bluetooth_gap_peripheral_connect_cancel = if_active (bret MP_EOPNOTSUPP)"

section \<open>Building attribute tables\<close>

text \<open>Permissions and properties, as the Bluetooth specification and Zephyr number them.\<close>

definition BT_GATT_PERM_READ :: u16 where "BT_GATT_PERM_READ = 0x01"
definition BT_GATT_PERM_WRITE :: u16 where "BT_GATT_PERM_WRITE = 0x02"
definition BT_GATT_PERM_PREPARE_WRITE :: u16 where "BT_GATT_PERM_PREPARE_WRITE = 0x40"
definition GATT_PERM_MASK :: u16 where "GATT_PERM_MASK = 0x7F"
definition CHRC_READ :: u8 where "CHRC_READ = 0x02"
definition CHRC_WRITE_WITHOUT_RESP :: u8 where "CHRC_WRITE_WITHOUT_RESP = 0x04"
definition CHRC_WRITE :: u8 where "CHRC_WRITE = 0x08"
definition CHRC_NOTIFY :: u8 where "CHRC_NOTIFY = 0x10"
definition CHRC_INDICATE :: u8 where "CHRC_INDICATE = 0x20"
definition CHRC_EXT_PROP :: u8 where "CHRC_EXT_PROP = 0x80"
definition FLAG_READ :: u16 where "FLAG_READ = 0x02"
definition FLAG_WRITE_NO_RESPONSE :: u16 where "FLAG_WRITE_NO_RESPONSE = 0x04"
definition FLAG_WRITE :: u16 where "FLAG_WRITE = 0x08"
definition FLAG_NOTIFY :: u16 where "FLAG_NOTIFY = 0x10"
definition FLAG_INDICATE :: u16 where "FLAG_INDICATE = 0x20"
definition BT_UUID_GATT_PRIMARY :: bt_uuid where "BT_UUID_GATT_PRIMARY = BT_UUID [0x00, 0x28]"
definition BT_UUID_GATT_CHRC :: bt_uuid where "BT_UUID_GATT_CHRC = BT_UUID [0x03, 0x28]"
definition BT_UUID_GATT_CEP :: bt_uuid where "BT_UUID_GATT_CEP = BT_UUID [0x00, 0x29]"
definition BT_UUID_GATT_CCC :: bt_uuid where "BT_UUID_GATT_CCC = BT_UUID [0x02, 0x29]"

definition create_zephyr_uuid :: "mp_uuid \<Rightarrow> bt_uuid" where
  "create_zephyr_uuid uuid =
     (case uuid of MP_UUID_16 d \<Rightarrow> BT_UUID (take 2 d) | MP_UUID_32 d \<Rightarrow> BT_UUID (take 4 d)
      | MP_UUID_128 d \<Rightarrow> BT_UUID (take 16 d))"

text \<open>
  The table is filled from the front, so that the next index is its length; adding past the
  allocated number of attributes is undefined.  The pattern is copied with its UUID and, when a
  length is given, its user data, so the copy has the pattern's contents.
\<close>

definition gatt_db_add :: "nat \<Rightarrow> gatt_attr \<Rightarrow> gatt_attr list \<Rightarrow> gatt_attr list option" where
  "gatt_db_add cap pattern attrs = (if length attrs < cap then Some (attrs @ [pattern]) else None)"

definition add_service :: "nat \<Rightarrow> bt_uuid \<Rightarrow> gatt_attr list \<Rightarrow> gatt_attr list option" where
  "add_service cap u attrs =
     gatt_db_add cap \<lparr>at_uuid = Some BT_UUID_GATT_PRIMARY, at_perm = BT_GATT_PERM_READ,
       at_access = A_Read_Service, at_user = U_Service u, at_handle = 0\<rparr> attrs"

definition add_characteristic ::
  "nat \<Rightarrow> u8 \<Rightarrow> u16 \<Rightarrow> bt_uuid \<Rightarrow> gatt_attr list \<Rightarrow> gatt_attr list option" where
  "add_characteristic cap properties permissions uuid attrs = do {
     attrs \<leftarrow> gatt_db_add cap \<lparr>at_uuid = Some BT_UUID_GATT_CHRC, at_perm = BT_GATT_PERM_READ,
       at_access = A_Read_Chrc, at_user = U_Chrc properties uuid, at_handle = 0\<rparr> attrs;
     let permissions = permissions OR BT_GATT_PERM_PREPARE_WRITE;
     gatt_db_add cap \<lparr>at_uuid = Some uuid, at_perm = permissions AND GATT_PERM_MASK,
       at_access = A_Gatts, at_user = U_Null, at_handle = 0\<rparr> attrs
   }"

text \<open>The two descriptors the code knows need the matching property of their characteristic.\<close>

definition add_ccc :: "nat \<Rightarrow> u8 \<Rightarrow> gatt_attr list \<Rightarrow> (mp_exc + gatt_attr list) option" where
  "add_ccc cap properties attrs =
     (if properties AND (CHRC_NOTIFY OR CHRC_INDICATE) = 0 then Some (Inl (OSError EINVAL))
      else map_option Inr (gatt_db_add cap \<lparr>at_uuid = Some BT_UUID_GATT_CCC,
        at_perm = BT_GATT_PERM_READ OR BT_GATT_PERM_WRITE, at_access = A_Ccc, at_user = U_Ccc, at_handle = 0\<rparr> attrs))"

definition add_cep :: "nat \<Rightarrow> u8 \<Rightarrow> gatt_attr list \<Rightarrow> (mp_exc + gatt_attr list) option" where
  "add_cep cap properties attrs =
     (if properties AND CHRC_EXT_PROP = 0 then Some (Inl (OSError EINVAL))
      else map_option Inr (gatt_db_add cap \<lparr>at_uuid = Some BT_UUID_GATT_CEP, at_perm = BT_GATT_PERM_READ,
        at_access = A_Read_Cep, at_user = U_Cep 0, at_handle = 0\<rparr> attrs))"

definition add_descriptor ::
  "'w bt_api \<Rightarrow> nat \<Rightarrow> u8 \<Rightarrow> u16 \<Rightarrow> bt_uuid \<Rightarrow> gatt_attr list \<Rightarrow> (mp_exc + gatt_attr list) option" where
  "add_descriptor api cap properties permissions uuid attrs =
     (if bt_uuid_cmp api uuid BT_UUID_GATT_CEP = 0 then add_cep cap properties attrs
      else if bt_uuid_cmp api uuid BT_UUID_GATT_CCC = 0 then add_ccc cap properties attrs
      else (let permissions = permissions OR BT_GATT_PERM_PREPARE_WRITE
            in map_option Inr (gatt_db_add cap \<lparr>at_uuid = Some uuid, at_perm = permissions AND GATT_PERM_MASK,
                 at_access = A_Gatts, at_user = U_Null, at_handle = 0\<rparr> attrs)))"

section \<open>Registering a service\<close>

text \<open>
  The arrays of a service are given as one list: each characteristic with its UUID, flags and
  its descriptors (UUID and flags), which the code takes in turn from flat arrays.
\<close>

record chr_def =
  cd_uuid :: mp_uuid
  cd_flags :: u16
  cd_descs :: "(mp_uuid \<times> u16) list"

text \<open>The bit sets are 64 bits wide, but the bit is made as an \<open>int\<close>.\<close>

definition int_bit :: "nat \<Rightarrow> 64 word option" where
  "int_bit i = (if i < 31 then Some (push_bit i 1) else None)"

definition notifies :: "u16 \<Rightarrow> bool" where
  "notifies flags \<longleftrightarrow> flags AND (FLAG_NOTIFY OR FLAG_INDICATE) \<noteq> 0"

definition writes :: "u16 \<Rightarrow> bool" where
  "writes flags \<longleftrightarrow> flags AND (FLAG_WRITE OR FLAG_WRITE_NO_RESPONSE) \<noteq> 0"

definition chr_permissions :: "u16 \<Rightarrow> u16" where
  "chr_permissions flags =
     (if flags AND FLAG_READ \<noteq> 0 then BT_GATT_PERM_READ else 0) OR (if writes flags then BT_GATT_PERM_WRITE else 0)"

definition chr_properties :: "u16 \<Rightarrow> u8" where
  "chr_properties flags =
     (if flags AND FLAG_READ \<noteq> 0 then CHRC_READ else 0) OR (if flags AND FLAG_NOTIFY \<noteq> 0 then CHRC_NOTIFY else 0) OR
     (if flags AND FLAG_INDICATE \<noteq> 0 then CHRC_INDICATE else 0) OR
     (if writes flags then CHRC_WRITE OR CHRC_WRITE_WITHOUT_RESP else 0)"

definition total_descriptors :: "chr_def list \<Rightarrow> nat" where
  "total_descriptors chrs = sum_list (map (\<lambda>c. length (cd_descs c) + (if notifies (cd_flags c) then 1 else 0)) chrs)"

definition total_attributes :: "chr_def list \<Rightarrow> nat" where
  "total_attributes chrs = 1 + length chrs * 2 + total_descriptors chrs"

text \<open>The table under construction with the three bit sets.\<close>

record svc_build =
  sb_attrs :: "gatt_attr list"
  sb_ignore :: "64 word"
  sb_chrs :: "64 word"
  sb_ccc :: "64 word"

primrec add_descs ::
  "'w bt_api \<Rightarrow> nat \<Rightarrow> u8 \<Rightarrow> (mp_uuid \<times> u16) list \<Rightarrow> gatt_attr list \<Rightarrow> (mp_exc + gatt_attr list) option" where
  "add_descs api cap properties [] attrs = Some (Inr attrs)"
| "add_descs api cap properties (d # ds) attrs =
     (case add_descriptor api cap properties (chr_permissions (snd d)) (create_zephyr_uuid (fst d)) attrs of
        None \<Rightarrow> None
      | Some (Inl e) \<Rightarrow> Some (Inl e)
      | Some (Inr attrs) \<Rightarrow> add_descs api cap properties ds attrs)"

text \<open>The configuration of subscriptions comes last, after the characteristic's own descriptors.\<close>

definition add_auto_ccc :: "'w bt_api \<Rightarrow> nat \<Rightarrow> u8 \<Rightarrow> svc_build \<Rightarrow> (mp_exc + svc_build) option" where
  "add_auto_ccc api cap properties b =
     (case int_bit (length (sb_attrs b)) of
        None \<Rightarrow> None
      | Some ign \<Rightarrow>
          map_option (map_sum id (\<lambda>attrs. b\<lparr>sb_attrs := attrs, sb_ignore := sb_ignore b OR ign\<rparr>))
            (add_descriptor api cap properties (BT_GATT_PERM_READ OR BT_GATT_PERM_WRITE)
               (create_zephyr_uuid (MP_UUID_16 [0x02, 0x29])) (sb_attrs b)))"

definition add_chr :: "'w bt_api \<Rightarrow> nat \<Rightarrow> chr_def \<Rightarrow> svc_build \<Rightarrow> (mp_exc + svc_build) option" where
  "add_chr api cap c b =
     (let flags = cd_flags c; properties = chr_properties flags; i = length (sb_attrs b) in
      case add_characteristic cap properties (chr_permissions flags) (create_zephyr_uuid (cd_uuid c)) (sb_attrs b) of
        None \<Rightarrow> None
      | Some attrs \<Rightarrow>
          (case (int_bit i, int_bit (Suc i)) of
             (Some chrc, Some value) \<Rightarrow>
               (case add_descs api cap properties (cd_descs c) attrs of
                  None \<Rightarrow> None
                | Some (Inl e) \<Rightarrow> Some (Inl e)
                | Some (Inr attrs) \<Rightarrow>
                    (let b = \<lparr>sb_attrs = attrs, sb_ignore = sb_ignore b OR value, sb_chrs = sb_chrs b OR chrc,
                              sb_ccc = (if notifies flags then sb_ccc b OR chrc else sb_ccc b)\<rparr>
                     in if notifies flags then add_auto_ccc api cap properties b else Some (Inr b)))
           | _ \<Rightarrow> None))"

primrec add_chrs :: "'w bt_api \<Rightarrow> nat \<Rightarrow> chr_def list \<Rightarrow> svc_build \<Rightarrow> (mp_exc + svc_build) option" where
  "add_chrs api cap [] b = Some (Inr b)"
| "add_chrs api cap (c # cs) b =
     (case add_chr api cap c b of
        None \<Rightarrow> None
      | Some (Inl e) \<Rightarrow> Some (Inl e)
      | Some (Inr b) \<Rightarrow> add_chrs api cap cs b)"

text \<open>After registration: an entry of the database for each value and descriptor without data.\<close>

definition new_entry :: "gatts_ext \<Rightarrow> u16 \<Rightarrow> gatts_db \<Rightarrow> (attr_user \<times> gatts_db) option" where
  "new_entry G h db =
     (let db = gatts_db_create_entry G h (gatts_default_len G) db
      in case db h of None \<Rightarrow> None | Some _ \<Rightarrow> Some (U_Entry h, db))"

definition assign_handle ::
  "gatts_ext \<Rightarrow> svc_build \<Rightarrow> nat \<Rightarrow> gatt_attr list \<times> gatts_db \<times> u16 list \<Rightarrow> (gatt_attr list \<times> gatts_db \<times> u16 list) option" where
  "assign_handle G b i st =
     (case st of (attrs, db, handles) \<Rightarrow>
        if bit (sb_ignore b) i then Some st
        else do {
          a \<leftarrow> rd attrs i;
          let h = at_handle a;
          (attrs, db) \<leftarrow>
            (if at_user a = U_Null then do {
               (u, db) \<leftarrow> new_entry G h db;
               Some (attrs[i := a\<lparr>at_user := u\<rparr>], db)
             }
             else if bit (sb_chrs b) i then do {
               v \<leftarrow> rd attrs (Suc i);
               (if at_user v = U_Null then do {
                  (u, db) \<leftarrow> new_entry G h db;
                  let db = (if bit (sb_ccc b) i then gatts_db_create_entry G (h + 2) 1 db else db);
                  Some (attrs[Suc i := v\<lparr>at_user := u\<rparr>], db)
                }
                else Some (attrs, db))
             }
             else Some (attrs, db));
          Some (attrs, db, handles @ [h])
        })"

primrec assign_handles ::
  "gatts_ext \<Rightarrow> svc_build \<Rightarrow> nat list \<Rightarrow> gatt_attr list \<times> gatts_db \<times> u16 list \<Rightarrow> (gatt_attr list \<times> gatts_db \<times> u16 list) option" where
  "assign_handles G b [] st = Some st"
| "assign_handles G b (i # is) st = Option.bind (assign_handle G b i st) (assign_handles G b is)"

text \<open>The stack hands out the handles; the attribute after the last one ends the table.\<close>

definition set_handles :: "u16 list \<Rightarrow> gatt_attr list \<Rightarrow> gatt_attr list" where
  "set_handles hs attrs = map2 (\<lambda>h a. a\<lparr>at_handle := h\<rparr>) hs attrs"

definition end_attr :: gatt_attr where
  "end_attr = \<lparr>at_uuid = None, at_perm = 0, at_access = A_None, at_user = U_Null, at_handle = 0\<rparr>"

definition mp_bluetooth_gatts_register_service ::
  "'w bt_api \<Rightarrow> gatts_ext \<Rightarrow> mp_uuid \<Rightarrow> chr_def list \<Rightarrow> ('w, int \<times> u16 list) btm" where
  "mp_bluetooth_gatts_register_service api G service_uuid chrs =
     bbind (broot rp_services) (\<lambda>services.
     if length services \<ge> MP_BLUETOOTH_ZEPHYR_MAX_SERVICES then bret (MP_E2BIG, [])
     else
       let cap = total_attributes chrs + 1 in
       bbind (boption (add_service cap (create_zephyr_uuid service_uuid) [])) (\<lambda>attrs.
       bbind (boption (add_chrs api cap chrs \<lparr>sb_attrs = attrs, sb_ignore = 0, sb_chrs = 0, sb_ccc = 0\<rparr>)) (\<lambda>r.
       case r of
         Inl e \<Rightarrow> braise e
       | Inr b \<Rightarrow>
           if length (sb_attrs b) \<ge> cap then bundef
           else
             bbind (bcall (bt_gatt_service_register api (sb_attrs b))) (\<lambda>(err, hs).
             if err \<noteq> 0 then bret (bt_err_to_errno err, [])
             else
               bbind (broot rp_db) (\<lambda>db.
               bbind (boption (assign_handles G b [1..<total_attributes chrs] (set_handles hs (sb_attrs b), db, []))) (\<lambda>(attrs, db, handles).
               bbind (broot_mod (\<lambda>r. r\<lparr>rp_db := db, rp_services := rp_services r @ [attrs @ [end_attr]]\<rparr>)) (\<lambda>_.
               bret (0, handles))))))))"

definition mp_bluetooth_gatts_register_service_begin :: "'w bt_api \<Rightarrow> gatts_ext \<Rightarrow> bool \<Rightarrow> ('w, int) btm" where
  "mp_bluetooth_gatts_register_service_begin api G append0 =
     if_active (
     if append0 then bret MP_EOPNOTSUPP
     else
       bbind (broot rp_services) (\<lambda>services.
       bbind (bdo (unregister_services api services)) (\<lambda>_.
       bbind (broot_mod (\<lambda>r. \<lparr>rp_db = gatts_db_reset G (rp_db r), rp_services = [], rp_connections = 0\<rparr>)) (\<lambda>_.
       bbind (bmod (\<lambda>s. s\<lparr>bt_next_conn := 0\<rparr>)) (\<lambda>_.
       bret 0)))))"

definition mp_bluetooth_gatts_register_service_end :: "('w, int) btm" where
  "mp_bluetooth_gatts_register_service_end = bret 0"

section \<open>The GATT server\<close>

definition BT_GATT_CCC_NOTIFY :: u8 where "BT_GATT_CCC_NOTIFY = 1"
definition BT_GATT_CCC_INDICATE :: u8 where "BT_GATT_CCC_INDICATE = 2"

text \<open>Each table is searched up to the attribute without UUID.\<close>

primrec find_attr_in :: "u16 \<Rightarrow> gatt_attr list \<Rightarrow> gatt_attr option option" where
  "find_attr_in value_handle [] = None"
| "find_attr_in value_handle (a # as) =
     (if at_uuid a = None then Some None
      else if at_handle a = value_handle then Some (Some a)
      else find_attr_in value_handle as)"

primrec find_attr_by_handle :: "u16 \<Rightarrow> gatt_attr list list \<Rightarrow> gatt_attr option option" where
  "find_attr_by_handle value_handle [] = Some None"
| "find_attr_by_handle value_handle (svc # svcs) =
     (case find_attr_in value_handle svc of
        None \<Rightarrow> None
      | Some (Some a) \<Rightarrow> Some (Some a)
      | Some None \<Rightarrow> find_attr_by_handle value_handle svcs)"

definition mp_bt_zephyr_find_attr_by_handle :: "u16 \<Rightarrow> ('w, gatt_attr option) btm" where
  "mp_bt_zephyr_find_attr_by_handle value_handle =
     bbind (broot rp_services) (\<lambda>services. boption (find_attr_by_handle value_handle services))"

definition mp_bluetooth_gatts_read :: "gatts_ext \<Rightarrow> u16 \<Rightarrow> ('w, int \<times> bytes) btm" where
  "mp_bluetooth_gatts_read G value_handle =
     bbind (bget mp_bluetooth_is_active) (\<lambda>a.
     if \<not> a then bret (ERRNO_BLUETOOTH_NOT_ACTIVE, [])
     else
       bbind (broot rp_db) (\<lambda>db.
       case gatts_db_read G db value_handle of (err, value, db) \<Rightarrow>
         bbind (broot_mod (\<lambda>r. r\<lparr>rp_db := db\<rparr>)) (\<lambda>_. bret (err, value))))"

text \<open>The subscription is looked for two handles after the characteristic.\<close>

definition mp_bluetooth_gatts_write :: "'w bt_api \<Rightarrow> gatts_ext \<Rightarrow> u16 \<Rightarrow> bytes \<Rightarrow> bool \<Rightarrow> ('w, int) btm" where
  "mp_bluetooth_gatts_write api G value_handle value send_update =
     if_active (
     bbind (broot rp_db) (\<lambda>db.
     case gatts_db_write G db value_handle value of (err, db) \<Rightarrow>
       bbind (broot_mod (\<lambda>r. r\<lparr>rp_db := db\<rparr>)) (\<lambda>_.
       if err = 0 \<and> send_update then
         bbind (mp_bt_zephyr_find_attr_by_handle (value_handle + 1)) (\<lambda>attr_val.
         case db (value_handle + 2) of
           None \<Rightarrow> bret err
         | Some ccc_entry \<Rightarrow>
             bbind (boption (rd (ge_data ccc_entry) 0)) (\<lambda>ccc.
             if ccc = BT_GATT_CCC_NOTIFY then bcall (bt_gatt_notify api None attr_val value)
             else if ccc = BT_GATT_CCC_INDICATE then bcall (bt_gatt_indicate api None attr_val value)
             else bret err))
       else bret err)))"

definition mp_bt_zephyr_gatt_indicate_done :: "'w bt_api \<Rightarrow> nat \<Rightarrow> gatt_attr \<Rightarrow> u8 \<Rightarrow> ('w, unit) btm" where
  "mp_bt_zephyr_gatt_indicate_done api conn attr err =
     bbind (bget (\<lambda>s. bt_conn_get_info api (bt_world s) conn)) (\<lambda>info.
     bevent (Indicate_complete (ci_id info) (at_handle attr - 1) err))"

text \<open>The entry of a value, under the handle before it, or of a descriptor.\<close>

definition attr_entry :: "gatts_db \<Rightarrow> u16 \<Rightarrow> (u16 \<times> gatts_entry) option" where
  "attr_entry db handle =
     (case db (handle - 1) of
        Some e \<Rightarrow> Some (handle - 1, e)
      | None \<Rightarrow> map_option (Pair handle) (db handle))"

definition BT_ATT_ERR_INVALID_HANDLE :: int where "BT_ATT_ERR_INVALID_HANDLE = 0x01"
definition BT_ATT_ERR_INVALID_OFFSET :: int where "BT_ATT_ERR_INVALID_OFFSET = 0x07"
definition BT_ATT_ERR_INVALID_ATTRIBUTE_LEN :: int where "BT_ATT_ERR_INVALID_ATTRIBUTE_LEN = 0x0D"
definition BT_GATT_WRITE_FLAG_PREPARE :: u8 where "BT_GATT_WRITE_FLAG_PREPARE = 1"

definition mp_bt_zephyr_gatts_attr_read :: "'w bt_api \<Rightarrow> nat \<Rightarrow> gatt_attr \<Rightarrow> u16 \<Rightarrow> u16 \<Rightarrow> ('w, int \<times> bytes) btm" where
  "mp_bt_zephyr_gatts_attr_read api conn attr len offset =
     bbind (broot rp_db) (\<lambda>db.
     case attr_entry db (at_handle attr) of
       None \<Rightarrow> bret (- BT_ATT_ERR_INVALID_HANDLE, [])
     | Some (h, e) \<Rightarrow> bcall (bt_gatt_attr_read api conn len offset (take (ge_len e) (ge_data e))))"

text \<open>
  Writing from the other side.  An entry's buffer is \<open>ge_data\<close>, of which \<open>ge_len\<close>
  bytes are in use; the new length is 16 bits wide.
\<close>

definition mp_bt_zephyr_gatts_attr_write ::
  "'w bt_api \<Rightarrow> nat \<Rightarrow> gatt_attr \<Rightarrow> bytes \<Rightarrow> u16 \<Rightarrow> u8 \<Rightarrow> ('w, int) btm" where
  "mp_bt_zephyr_gatts_attr_write api conn attr buf offset flags =
     bbind (bget (\<lambda>s. bt_conn_get_info api (bt_world s) conn)) (\<lambda>info.
     bbind (broot rp_db) (\<lambda>db.
     case attr_entry db (at_handle attr) of
       None \<Rightarrow> bret (- BT_ATT_ERR_INVALID_HANDLE)
     | Some (h, entry) \<Rightarrow>
         if flags AND BT_GATT_WRITE_FLAG_PREPARE \<noteq> 0 then bret 0
         else if unat offset > length (ge_data entry) then bret (- BT_ATT_ERR_INVALID_OFFSET)
         else if unat offset + length buf > length (ge_data entry) then bret (- BT_ATT_ERR_INVALID_ATTRIBUTE_LEN)
         else
           let offset = (if ge_append entry then of_nat (ge_len entry) else offset) in
           bbind (boption (wr_run (ge_data entry) (unat offset) buf)) (\<lambda>data.
           bbind (broot_mod (\<lambda>r. r\<lparr>rp_db := (rp_db r)(h \<mapsto> entry\<lparr>ge_data := data, ge_len := unat offset + length buf\<rparr>)\<rparr>)) (\<lambda>_.
           bbind (bevent (Gatts_write (ci_id info) h)) (\<lambda>_.
           bret (int (length buf)))))))"

text \<open>A subscription changed: its entry is looked up by the handle of the descriptor.\<close>

definition ccc_cfg_changed :: "gatt_attr \<Rightarrow> u16 \<Rightarrow> ('w, unit) btm" where
  "ccc_cfg_changed attr v =
     bbind (broot rp_db) (\<lambda>db.
     case db (at_handle attr) of
       None \<Rightarrow> bundef
     | Some entry \<Rightarrow>
         bbind (boption (wr (ge_data entry) 0 (ucast v))) (\<lambda>data.
         broot_mod (\<lambda>r. r\<lparr>rp_db := (rp_db r)(at_handle attr \<mapsto> entry\<lparr>ge_data := data\<rparr>)\<rparr>)))"

datatype gatts_op = MP_BLUETOOTH_GATTS_OP_NOTIFY | MP_BLUETOOTH_GATTS_OP_INDICATE

definition mp_bluetooth_gatts_notify_indicate ::
  "'w bt_api \<Rightarrow> u16 \<Rightarrow> u16 \<Rightarrow> gatts_op \<Rightarrow> bytes \<Rightarrow> ('w, int) btm" where
  "mp_bluetooth_gatts_notify_indicate api conn_handle value_handle gatts_op value =
     if_active (
     bbind (mp_bt_zephyr_find_connection api (ucast conn_handle)) (\<lambda>connection.
     if connection = 0 then bret MP_ENOENT
     else
       bbind (mp_bt_zephyr_find_attr_by_handle (value_handle + 1)) (\<lambda>attr_val.
       if attr_val = None then bret MP_ENOENT
       else
         bbind (bget (\<lambda>s. cn_conn (bt_nodes s connection))) (\<lambda>c.
         case gatts_op of
           MP_BLUETOOTH_GATTS_OP_NOTIFY \<Rightarrow> bcall (bt_gatt_notify api c attr_val value)
         | MP_BLUETOOTH_GATTS_OP_INDICATE \<Rightarrow> bcall (bt_gatt_indicate api c attr_val value)))))"

definition mp_bluetooth_gatts_set_buffer :: "gatts_ext \<Rightarrow> u16 \<Rightarrow> nat \<Rightarrow> bool \<Rightarrow> ('w, int) btm" where
  "mp_bluetooth_gatts_set_buffer G value_handle len append0 =
     if_active (
     bbind (broot rp_db) (\<lambda>db.
     case gatts_db_resize G db value_handle len append0 of (err, db) \<Rightarrow>
       bbind (broot_mod (\<lambda>r. r\<lparr>rp_db := db\<rparr>)) (\<lambda>_. bret err)))"

section \<open>Computations evaluated\<close>

named_theorems btm \<open>rules that run a computation\<close>

lemma bbind_run [btm]:
  "bbind m f s = (case m s of None \<Rightarrow> None
     | Some (r, t) \<Rightarrow> (case r of Inl e \<Rightarrow> Some (Inl e, t) | Inr x \<Rightarrow> f x t))"
  by (simp add: bbind_def)

lemma basic_run [btm]:
  "bret x s = Some (Inr x, s)" "braise e s = Some (Inl e, s)" "bundef s = None" "bget g s = Some (Inr (g s), s)"
  "bmod h s = Some (Inr (), h s)" "bevent ev s = Some (Inr (), s\<lparr>bt_events := bt_events s @ [ev]\<rparr>)"
  "bdo k s = Some (Inr (), s\<lparr>bt_world := k (bt_world s)\<rparr>)"
  by (simp_all add: bret_def braise_def bundef_def bget_def bmod_def bevent_def bdo_def bcall_def)

lemma bcall_run [btm]: "bcall f s = Some (Inr (fst (f (bt_world s))), s\<lparr>bt_world := snd (f (bt_world s))\<rparr>)"
  by (simp add: bcall_def split: prod.splits)

lemma boption_run [btm]: "boption None s = None" "boption (Some x) s = Some (Inr x, s)"
  by (simp_all add: boption_def btm)

lemma broot_run [btm]:
  "bt_root s = Some r \<Longrightarrow> broot f s = Some (Inr (f r), s)"
  "bt_root s = Some r \<Longrightarrow> broot_mod g s = Some (Inr (), s\<lparr>bt_root := Some (g r)\<rparr>)"
  by (simp_all add: broot_def broot_mod_def)

lemma if_active_run [btm]:
  "if_active m s = (if bt_ble s = BLE_STATE_ACTIVE then m s else Some (Inr ERRNO_BLUETOOTH_NOT_ACTIVE, s))"
  by (simp add: if_active_def btm mp_bluetooth_is_active_def)

section \<open>Properties\<close>

text \<open>An advertising element in its raw form: its length, its type, its contents.\<close>

definition ad_element :: "u8 \<times> bytes \<Rightarrow> bytes" where
  "ad_element e = of_nat (length (snd e) + 1) # fst e # snd e"

definition ad_payload :: "bt_data \<Rightarrow> u8 \<times> bytes" where
  "ad_payload b = (bd_type b, take (unat (bd_len b)) (bd_data b))"

lemma prepare_bt_data_elements:
  assumes "\<forall>e\<in>set es. length (snd e) \<le> 254"
  shows "\<exists>l. mp_bluetooth_prepare_bt_data (concat (map ad_element es)) n = Some l \<and> map ad_payload l = take n es"
  using assms
proof (induction es arbitrary: n)
  case Nil
  then show ?case by (cases n) simp_all
next
  case (Cons e es)
  show ?case
  proof (cases n)
    case 0
    then show ?thesis by simp
  next
    case (Suc i)
    obtain t p where e: "e = (t, p)" by (cases e)
    with Cons.prems have p: "length p \<le> 254" by simp
    obtain l where l: "mp_bluetooth_prepare_bt_data (concat (map ad_element es)) i = Some l" "map ad_payload l = take i es"
      using Cons.IH [of i] Cons.prems by auto
    have "unat (of_nat (length p + 1) :: u8) = length p + 1" and u: "unat (of_nat (length p) :: u8) = length p"
      using p by (simp_all only: unat_of_nat) simp_all
    then have "unat (1 + of_nat (length p) :: u8) = Suc (length p)" by (simp add: add.commute)
    moreover have "ad_element e = (1 + of_nat (length p)) # t # p" by (simp add: e ad_element_def)
    moreover have "ad_payload \<lparr>bd_type = t, bd_len = of_nat (length p), bd_data = p @ r\<rparr> = e" for r
      by (simp add: ad_payload_def u e)
    ultimately show ?thesis using Suc l by auto
  qed
qed

text \<open>
  Advertising data made of elements (length, type, contents of at most 254 bytes) is cut
  into exactly these elements, in order and each with its contents, up to the number the array holds.
\<close>

lemma bt_adv_elements:
  assumes "\<forall>e\<in>set es. length (snd e) \<le> 254"
  shows "map_option (map ad_payload) (mp_bluetooth_prepare_bt_data (concat (map ad_element es)) n) = Some (take n es)"
  using prepare_bt_data_elements [OF assms] by auto

lemma bt_adv_elements_witness:
  "map_option (map ad_payload) (mp_bluetooth_prepare_bt_data [2, 1, 6, 4, 9, 115, 100, 107] 8) =
     Some [(1, [6]), (9, [115, 100, 107])]"
  using bt_adv_elements [of "[(1, [6]), (9, [115, 100, 107])]" 8] by (simp add: ad_element_def)

text \<open>
  Claim C29. A remote write to a value or descriptor is undefined exactly when the entry appends and
  what it holds leaves no room for the data, although offset and length are those of a write from the
  offset: only these are compared with the size of the buffer.
\<close>

theorem bt_append_overflow:
  assumes "bt_root s = Some r" and "attr_entry (rp_db r) (at_handle attr) = Some (h, e)" and "ge_len e < 2 ^ 16"
  shows "mp_bt_zephyr_gatts_attr_write api conn attr buf offset flags s = None \<longleftrightarrow>
    ge_append e \<and> flags AND BT_GATT_WRITE_FLAG_PREPARE = 0 \<and>
    unat offset + length buf \<le> length (ge_data e) \<and> length (ge_data e) < ge_len e + length buf"
  using assms by (auto simp: mp_bt_zephyr_gatts_attr_write_def btm wr_run_def unat_of_nat Let_def)

theorem bt_append_overflow_witness:
  "\<forall>api. mp_bt_zephyr_gatts_attr_write api 1 (end_attr\<lparr>at_handle := 8\<rparr>) [1, 2] 0 0
     \<lparr>bt_ble = BLE_STATE_ACTIVE, bt_scan = GAP_SCAN_STATE_INACTIVE,
      bt_root = Some \<lparr>rp_db = [7 \<mapsto> \<lparr>ge_data = [0, 0, 0], ge_len = 2, ge_append = True\<rparr>], rp_services = [], rp_connections = 0\<rparr>,
      bt_nodes = (\<lambda>_. \<lparr>cn_conn = None, cn_next = 0\<rparr>), bt_fresh = 1, bt_next_conn = 0, bt_ad = [], bt_sd = [],
      bt_events = [], bt_world = ()\<rparr> = None"
  by (intro allI) (subst bt_append_overflow [where h = 7 and e = "\<lparr>ge_data = [0, 0, 0], ge_len = 2, ge_append = True\<rparr>"],
    auto simp: attr_entry_def end_attr_def)

section \<open>The layout of a service\<close>

text \<open>What each attribute of a table is: the reference for the loop that fills it.\<close>

datatype attr_role = R_Service | R_Chrc | R_Value | R_Desc | R_Auto

definition chr_roles :: "chr_def \<Rightarrow> attr_role list" where
  "chr_roles c = [R_Chrc, R_Value] @ replicate (length (cd_descs c)) R_Desc @ (if notifies (cd_flags c) then [R_Auto] else [])"

definition roles :: "chr_def list \<Rightarrow> attr_role list" where
  "roles chrs = R_Service # concat (map chr_roles chrs)"

lemma roles_length: "length (roles chrs) = total_attributes chrs"
  by (induction chrs) (simp_all add: roles_def chr_roles_def total_attributes_def total_descriptors_def)

definition attr_fits :: "attr_role \<Rightarrow> gatt_attr \<Rightarrow> bool" where
  "attr_fits ro a \<longleftrightarrow> at_uuid a \<noteq> None \<and> (ro = R_Chrc \<longrightarrow> at_user a \<noteq> U_Null) \<and> (ro = R_Auto \<longrightarrow> at_access a = A_Ccc)"

definition built :: "svc_build \<Rightarrow> attr_role list \<Rightarrow> bool" where
  "built b rs \<longleftrightarrow> list_all2 attr_fits rs (sb_attrs b) \<and>
     (\<forall>i. bit (sb_ignore b) i \<longleftrightarrow> i < length rs \<and> rs ! i \<in> {R_Value, R_Auto}) \<and>
     (\<forall>i. bit (sb_chrs b) i \<longleftrightarrow> i < length rs \<and> rs ! i = R_Chrc)"

lemma int_bit_or: "int_bit n = Some w \<Longrightarrow> bit (x OR w) i \<longleftrightarrow> bit x i \<or> i = n"
  by (auto simp: int_bit_def bit_or_iff bit_exp_iff possible_bit_def split: if_splits)

lemma int_bit_Some: "n < 31 \<Longrightarrow> \<exists>w. int_bit n = Some w"
  by (simp add: int_bit_def)

lemma built_length: "built b rs \<Longrightarrow> length (sb_attrs b) = length rs"
  unfolding built_def by (metis list_all2_lengthD)

text \<open>Adding attributes with their roles.\<close>

lemma built_add:
  assumes "built b rs" and "sb_attrs b' = sb_attrs b @ new" and "list_all2 attr_fits rs' new"
    and "\<And>i. bit (sb_ignore b') i \<longleftrightarrow> bit (sb_ignore b) i \<or> (length rs \<le> i \<and> i < length rs + length rs' \<and> rs' ! (i - length rs) \<in> {R_Value, R_Auto})"
    and "\<And>i. bit (sb_chrs b') i \<longleftrightarrow> bit (sb_chrs b) i \<or> (length rs \<le> i \<and> i < length rs + length rs' \<and> rs' ! (i - length rs) = R_Chrc)"
  shows "built b' (rs @ rs')"
  unfolding built_def
proof (intro conjI allI)
  show "list_all2 attr_fits (rs @ rs') (sb_attrs b')"
    using assms(1-3) by (simp add: built_def list_all2_appendI)
  fix i
  have b: "bit (sb_ignore b) i \<longleftrightarrow> i < length rs \<and> rs ! i \<in> {R_Value, R_Auto}"
    "bit (sb_chrs b) i \<longleftrightarrow> i < length rs \<and> rs ! i = R_Chrc"
    using assms(1) unfolding built_def by blast+
  show "bit (sb_ignore b') i \<longleftrightarrow> i < length (rs @ rs') \<and> (rs @ rs') ! i \<in> {R_Value, R_Auto}"
    unfolding assms(4) b by (auto simp: nth_append)
  show "bit (sb_chrs b') i \<longleftrightarrow> i < length (rs @ rs') \<and> (rs @ rs') ! i = R_Chrc"
    unfolding assms(5) b by (auto simp: nth_append)
qed

text \<open>Which descriptors can be added: no extended properties, subscriptions only with the property.\<close>

definition desc_ok :: "'w bt_api \<Rightarrow> u16 \<Rightarrow> mp_uuid \<Rightarrow> bool" where
  "desc_ok api flags u \<longleftrightarrow> bt_uuid_cmp api (create_zephyr_uuid u) BT_UUID_GATT_CEP \<noteq> 0 \<and>
     (bt_uuid_cmp api (create_zephyr_uuid u) BT_UUID_GATT_CCC = 0 \<longrightarrow> notifies flags)"

definition cmp_ok :: "'w bt_api \<Rightarrow> bool" where
  "cmp_ok api \<longleftrightarrow> bt_uuid_cmp api BT_UUID_GATT_CCC BT_UUID_GATT_CCC = 0 \<and>
     bt_uuid_cmp api BT_UUID_GATT_CCC BT_UUID_GATT_CEP \<noteq> 0"

lemma bit_nonzero: "bit (w :: 'a :: len word) n \<Longrightarrow> w \<noteq> 0"
  by auto

lemma or_nonzero: "flags AND (a OR b) \<noteq> 0 \<longleftrightarrow> flags AND a \<noteq> 0 \<or> flags AND b \<noteq> (0 :: u16)"
  by (simp add: bit.conj_disj_distrib or_eq_0_iff)

lemma notifies_properties:
  assumes "notifies flags"
  shows "chr_properties flags AND (CHRC_NOTIFY OR CHRC_INDICATE) \<noteq> 0"
proof -
  from assms have "flags AND FLAG_NOTIFY \<noteq> 0 \<or> flags AND FLAG_INDICATE \<noteq> 0"
    unfolding notifies_def or_nonzero .
  then show ?thesis
  proof
    assume "flags AND FLAG_NOTIFY \<noteq> 0"
    then have "bit (chr_properties flags AND (CHRC_NOTIFY OR CHRC_INDICATE)) 4"
      by (simp add: chr_properties_def bit_or_iff bit_and_iff CHRC_NOTIFY_def bit_numeral_rec)
    then show ?thesis by (rule bit_nonzero)
  next
    assume "flags AND FLAG_INDICATE \<noteq> 0"
    then have "bit (chr_properties flags AND (CHRC_NOTIFY OR CHRC_INDICATE)) 5"
      by (simp add: chr_properties_def bit_or_iff bit_and_iff CHRC_INDICATE_def bit_numeral_rec)
    then show ?thesis by (rule bit_nonzero)
  qed
qed

lemma add_descriptor_ok:
  assumes "desc_ok api flags u" and "length attrs < cap"
  shows "\<exists>a. add_descriptor api cap (chr_properties flags) perm (create_zephyr_uuid u) attrs = Some (Inr (attrs @ [a])) \<and>
    at_uuid a \<noteq> None"
  using assms notifies_properties [of flags]
  by (auto simp: desc_ok_def add_descriptor_def add_ccc_def gatt_db_add_def Let_def)

lemma add_descs_ok:
  assumes "\<forall>d\<in>set ds. desc_ok api flags (fst d)" and "length attrs + length ds \<le> cap"
  shows "\<exists>new. add_descs api cap (chr_properties flags) ds attrs = Some (Inr (attrs @ new)) \<and>
    length new = length ds \<and> (\<forall>a\<in>set new. at_uuid a \<noteq> None)"
  using assms
proof (induction ds arbitrary: attrs)
  case (Cons d ds)
  then obtain a where a: "add_descriptor api cap (chr_properties flags) (chr_permissions (snd d))
      (create_zephyr_uuid (fst d)) attrs = Some (Inr (attrs @ [a]))" "at_uuid a \<noteq> None"
    using add_descriptor_ok [of api flags "fst d" attrs cap "chr_permissions (snd d)"] by auto
  moreover obtain new where "add_descs api cap (chr_properties flags) ds (attrs @ [a]) = Some (Inr ((attrs @ [a]) @ new))"
      "length new = length ds" "\<forall>a\<in>set new. at_uuid a \<noteq> None"
    using Cons.IH [of "attrs @ [a]"] Cons.prems by auto
  ultimately show ?case by (intro exI [of _ "a # new"]) simp
qed simp

lemma add_auto_ccc_ok:
  assumes "cmp_ok api" and "notifies flags" and "built b rs" and "length rs < cap" and "length rs < 31"
  shows "\<exists>b'. add_auto_ccc api cap (chr_properties flags) b = Some (Inr b') \<and> built b' (rs @ [R_Auto])"
proof -
  obtain w where w: "int_bit (length rs) = Some w" using int_bit_Some assms(5) by blast
  have "create_zephyr_uuid (MP_UUID_16 [0x02, 0x29]) = BT_UUID_GATT_CCC"
    by (simp add: create_zephyr_uuid_def BT_UUID_GATT_CCC_def)
  moreover have l: "length (sb_attrs b) = length rs" using assms(3) by (rule built_length)
  ultimately obtain a where
    a: "add_descriptor api cap (chr_properties flags) (BT_GATT_PERM_READ OR BT_GATT_PERM_WRITE)
       (create_zephyr_uuid (MP_UUID_16 [0x02, 0x29])) (sb_attrs b) = Some (Inr (sb_attrs b @ [a]))"
      "attr_fits R_Auto a"
    using assms(1,4) notifies_properties [OF assms(2)]
    by (simp add: add_descriptor_def add_ccc_def gatt_db_add_def cmp_ok_def attr_fits_def)
  let ?b = "b\<lparr>sb_attrs := sb_attrs b @ [a], sb_ignore := sb_ignore b OR w\<rparr>"
  have "add_auto_ccc api cap (chr_properties flags) b = Some (Inr ?b)"
    using w a(1) l by (simp add: add_auto_ccc_def)
  moreover have "built ?b (rs @ [R_Auto])"
    by (rule built_add [OF assms(3), of _ "[a]"]) (use a(2) int_bit_or [OF w] in auto)
  ultimately show ?thesis by blast
qed

lemma add_characteristic_ok:
  assumes "length attrs + 2 \<le> cap"
  shows "\<exists>x y. add_characteristic cap props perm u attrs = Some (attrs @ [x, y]) \<and>
    attr_fits R_Chrc x \<and> attr_fits R_Value y"
  using assms by (simp add: add_characteristic_def gatt_db_add_def Let_def attr_fits_def)

lemma add_chr_ok:
  assumes "cmp_ok api" and "\<forall>d\<in>set (cd_descs c). desc_ok api (cd_flags c) (fst d)" and "built b rs"
    and "length rs + length (chr_roles c) \<le> 31" and "length rs + length (chr_roles c) < cap"
  shows "\<exists>b'. add_chr api cap c b = Some (Inr b') \<and> built b' (rs @ chr_roles c)"
proof -
  let ?fl = "cd_flags c" and ?k = "length (cd_descs c)"
  have l: "length (sb_attrs b) = length rs" using assms(3) by (rule built_length)
  have k: "length rs + 2 + ?k \<le> 31" "length rs + 2 + ?k < cap"
    "notifies ?fl \<Longrightarrow> length rs + 2 + ?k < 31 \<and> length rs + 2 + ?k + 1 < cap"
    using assms(4,5) by (auto simp: chr_roles_def split: if_splits)
  obtain x y where xy: "add_characteristic cap (chr_properties ?fl) (chr_permissions ?fl) (create_zephyr_uuid (cd_uuid c)) (sb_attrs b) =
      Some (sb_attrs b @ [x, y])" "attr_fits R_Chrc x" "attr_fits R_Value y"
    using add_characteristic_ok [of "sb_attrs b" cap] k(2) l by (metis add_leD1 less_imp_le)
  obtain v w where vw: "int_bit (length rs) = Some v" "int_bit (Suc (length rs)) = Some w"
    using int_bit_Some [of "length rs"] int_bit_Some [of "Suc (length rs)"] k(1) by auto
  obtain new where new: "add_descs api cap (chr_properties ?fl) (cd_descs c) (sb_attrs b @ [x, y]) = Some (Inr ((sb_attrs b @ [x, y]) @ new))"
      "length new = ?k" "\<forall>a\<in>set new. at_uuid a \<noteq> None"
    using add_descs_ok [OF assms(2), of "sb_attrs b @ [x, y]" cap] k(2) l by auto
  let ?b = "\<lparr>sb_attrs = (sb_attrs b @ [x, y]) @ new, sb_ignore = sb_ignore b OR w, sb_chrs = sb_chrs b OR v,
             sb_ccc = (if notifies ?fl then sb_ccc b OR v else sb_ccc b)\<rparr>"
  have nth: "(R_Chrc # R_Value # replicate ?k R_Desc) ! j =
      (if j = 0 then R_Chrc else if j = 1 then R_Value else R_Desc)" if "j < ?k + 2" for j
    using that by (auto simp: nth_Cons split: nat.splits)
  then have nth: "(R_Chrc # R_Value # replicate ?k R_Desc) ! (i - length rs) =
      (if i = length rs then R_Chrc else if i = Suc (length rs) then R_Value else R_Desc)"
    if "length rs \<le> i" "i < Suc (Suc (length rs + ?k))" for i
    using that by (simp add: less_diff_conv2) arith
  have bb: "built ?b (rs @ ([R_Chrc, R_Value] @ replicate ?k R_Desc))"
  proof (rule built_add [OF assms(3), of _ "[x, y] @ new"])
    show "list_all2 attr_fits ([R_Chrc, R_Value] @ replicate ?k R_Desc) ([x, y] @ new)"
      using xy new by (auto simp: list_all2_conv_all_nth attr_fits_def nth_Cons split: nat.splits)
  next
    fix i
    define L where "L = [R_Chrc, R_Value] @ replicate ?k R_Desc"
    have L: "L ! (i - length rs) = (if i = length rs then R_Chrc else if i = Suc (length rs) then R_Value else R_Desc)"
      if "length rs \<le> i" "i < length rs + length L"
      using nth [OF that(1)] that(2) by (simp add: L_def)
    have "length L = ?k + 2" by (simp add: L_def)
    then show "bit (sb_ignore ?b) i \<longleftrightarrow> bit (sb_ignore b) i \<or> (length rs \<le> i \<and> i < length rs + length ([R_Chrc, R_Value] @ replicate ?k R_Desc) \<and>
        ([R_Chrc, R_Value] @ replicate ?k R_Desc) ! (i - length rs) \<in> {R_Value, R_Auto})"
      and "bit (sb_chrs ?b) i \<longleftrightarrow> bit (sb_chrs b) i \<or> (length rs \<le> i \<and> i < length rs + length ([R_Chrc, R_Value] @ replicate ?k R_Desc) \<and>
        ([R_Chrc, R_Value] @ replicate ?k R_Desc) ! (i - length rs) = R_Chrc)"
      unfolding L_def [symmetric] using int_bit_or [OF vw(2)] int_bit_or [OF vw(1)] L by (auto split: if_splits)
  qed simp
  have step: "add_chr api cap c b = (if notifies ?fl then add_auto_ccc api cap (chr_properties ?fl) ?b else Some (Inr ?b))"
    unfolding add_chr_def Let_def l xy(1) option.case vw prod.case new(1) sum.case ..
  show ?thesis
  proof (cases "notifies ?fl")
    case True
    then show ?thesis
      using step add_auto_ccc_ok [OF assms(1) True bb, of cap] k(3) by (auto simp: chr_roles_def)
  next
    case False
    then show ?thesis using step bb by (auto simp: chr_roles_def)
  qed
qed


lemma add_chrs_ok:
  assumes "cmp_ok api" and "\<forall>c\<in>set chrs. \<forall>d\<in>set (cd_descs c). desc_ok api (cd_flags c) (fst d)" and "built b rs"
    and "length rs + length (concat (map chr_roles chrs)) \<le> 31" and "length rs + length (concat (map chr_roles chrs)) < cap"
  shows "\<exists>b'. add_chrs api cap chrs b = Some (Inr b') \<and> built b' (rs @ concat (map chr_roles chrs))"
  using assms(2-)
proof (induction chrs arbitrary: b rs)
  case (Cons c chrs)
  then obtain b1 where b1: "add_chr api cap c b = Some (Inr b1)" "built b1 (rs @ chr_roles c)"
    using add_chr_ok [OF assms(1), of c b rs cap] by auto
  obtain b' where "add_chrs api cap chrs b1 = Some (Inr b')" "built b' ((rs @ chr_roles c) @ concat (map chr_roles chrs))"
    using Cons.IH [OF _ b1(2)] Cons.prems by auto
  with b1(1) show ?case by simp
qed simp

section \<open>Handles\<close>

text \<open>Documented of MicroPython's database: a new entry of the given size under the handle.\<close>

definition create_law :: "gatts_ext \<Rightarrow> bool" where
  "create_law G \<longleftrightarrow> (\<forall>h n db. \<exists>e. gatts_db_create_entry G h n db = db(h \<mapsto> e) \<and> length (ge_data e) = n)"

text \<open>What the loop over the handles keeps of the table; \<open>ks\<close> are the indices that got a handle.\<close>

definition wanted :: "attr_role list \<Rightarrow> nat \<Rightarrow> bool" where
  "wanted rs i \<longleftrightarrow> rs ! i \<in> {R_Chrc, R_Desc}"

definition touched :: "u16 list \<Rightarrow> attr_role list \<Rightarrow> nat set \<Rightarrow> u16 set" where
  "touched hs rs is = (\<lambda>i. hs ! i) ` {i \<in> is. wanted rs i} \<union> (\<lambda>i. hs ! i + 2) ` {i \<in> is. rs ! i = R_Chrc}"

definition table_ok :: "u16 list \<Rightarrow> attr_role list \<Rightarrow> gatt_attr list \<Rightarrow> bool" where
  "table_ok hs rs attrs \<longleftrightarrow> list_all2 attr_fits rs attrs \<and> map at_handle attrs = hs"

lemma table_ok_update:
  assumes "table_ok hs rs attrs" and "i < length attrs" and "u \<noteq> U_Null"
  shows "table_ok hs rs (attrs[i := (attrs ! i)\<lparr>at_user := u\<rparr>])"
proof -
  have "map at_handle (attrs[i := (attrs ! i)\<lparr>at_user := u\<rparr>]) = map at_handle attrs"
    using assms(2) by (simp add: map_update list_update_same_conv)
  then show ?thesis
    using assms by (auto simp: table_ok_def list_all2_conv_all_nth nth_list_update attr_fits_def)
qed

lemma new_entry_ok:
  assumes "create_law G"
  shows "\<exists>db'. new_entry G h db = Some (U_Entry h, db') \<and> dom db' = insert h (dom db)"
proof -
  obtain e where "gatts_db_create_entry G h (gatts_default_len G) db = db(h \<mapsto> e)"
    using assms unfolding create_law_def by blast
  then show ?thesis by (auto simp: new_entry_def)
qed

lemma create_dom: "create_law G \<Longrightarrow> dom (gatts_db_create_entry G h n db) = insert h (dom db)"
  unfolding create_law_def by (metis dom_fun_upd option.distinct(1))


lemma assign_handle_ok:
  assumes "create_law G" and "built b rs" and "table_ok hs rs attrs" and "i < length rs" and "rs ! i \<noteq> R_Service"
    and "rs ! i = R_Chrc \<Longrightarrow> Suc i < length rs"
  shows "\<exists>attrs' db'. assign_handle G b i (attrs, db, out) =
      Some (attrs', db', out @ (if wanted rs i then [hs ! i] else [])) \<and>
    table_ok hs rs attrs' \<and> dom db' \<subseteq> dom db \<union> touched hs rs {i}"
proof -
  have len: "length attrs = length rs" using assms(3) unfolding table_ok_def by (metis list_all2_lengthD)
  have h: "at_handle (attrs ! i) = hs ! i" using assms(3,4) len by (auto simp: table_ok_def)
  have fit: "attr_fits (rs ! i) (attrs ! i)" using assms(3,4) by (auto simp: table_ok_def list_all2_conv_all_nth)
  have ign: "bit (sb_ignore b) i \<longleftrightarrow> rs ! i \<in> {R_Value, R_Auto}" and chr: "bit (sb_chrs b) i \<longleftrightarrow> rs ! i = R_Chrc"
    using assms(2,4) unfolding built_def by blast+
  obtain db1 where db1: "new_entry G (hs ! i) db = Some (U_Entry (hs ! i), db1)" "dom db1 = insert (hs ! i) (dom db)"
    using new_entry_ok [OF assms(1)] by blast
  note cd = create_dom [OF assms(1)]
  consider "rs ! i \<in> {R_Value, R_Auto}" | "rs ! i = R_Chrc" | "rs ! i = R_Desc"
    using assms(5) by (cases "rs ! i") auto
  then show ?thesis
  proof cases
    case 1
    then show ?thesis using ign assms(3) by (auto simp: assign_handle_def wanted_def)
  next
    case 2
    then have s: "Suc i < length attrs" and nn: "at_user (attrs ! i) \<noteq> U_Null"
      using assms(6) fit len by (auto simp: attr_fits_def)
    have t: "table_ok hs rs (attrs[Suc i := (attrs ! Suc i)\<lparr>at_user := U_Entry (hs ! i)\<rparr>])"
      by (rule table_ok_update [OF assms(3) s]) simp
    show ?thesis
      using 2 ign chr nn s h db1 t assms(3) len
      by (cases "at_user (attrs ! Suc i) = U_Null")
        (auto simp: assign_handle_def rd_def wanted_def touched_def Let_def cd)
  next
    case 3
    have t: "table_ok hs rs (attrs[i := (attrs ! i)\<lparr>at_user := U_Entry (hs ! i)\<rparr>])"
      by (rule table_ok_update [OF assms(3)]) (use assms(4) len in simp_all)
    show ?thesis
      using 3 ign chr h db1 t assms(3,4) len
      by (cases "at_user (attrs ! i) = U_Null")
        (auto simp: assign_handle_def rd_def wanted_def touched_def Let_def)
  qed
qed

lemma assign_handles_ok:
  assumes "create_law G" and "built b rs" and "table_ok hs rs attrs"
    and "\<forall>i\<in>set is. i < length rs \<and> rs ! i \<noteq> R_Service \<and> (rs ! i = R_Chrc \<longrightarrow> Suc i < length rs)"
  shows "\<exists>attrs' db'. assign_handles G b is (attrs, db, out) =
      Some (attrs', db', out @ map ((!) hs) (filter (wanted rs) is)) \<and>
    table_ok hs rs attrs' \<and> dom db' \<subseteq> dom db \<union> touched hs rs (set is)"
  using assms(3,4)
proof (induction "is" arbitrary: attrs db out)
  case (Cons i "is")
  obtain attrs1 db1 where s: "assign_handle G b i (attrs, db, out) =
      Some (attrs1, db1, out @ (if wanted rs i then [hs ! i] else []))"
    "table_ok hs rs attrs1" "dom db1 \<subseteq> dom db \<union> touched hs rs {i}"
    using assign_handle_ok [OF assms(1,2) Cons.prems(1), of i db out] Cons.prems(2) by auto
  have "\<forall>i\<in>set is. i < length rs \<and> rs ! i \<noteq> R_Service \<and> (rs ! i = R_Chrc \<longrightarrow> Suc i < length rs)"
    using Cons.prems(2) by simp
  from Cons.IH [OF s(2) this] obtain attrs' db' where
    m: "assign_handles G b is (attrs1, db1, out @ (if wanted rs i then [hs ! i] else [])) =
      Some (attrs', db', (out @ (if wanted rs i then [hs ! i] else [])) @ map ((!) hs) (filter (wanted rs) is))"
    "table_ok hs rs attrs'" "dom db' \<subseteq> dom db1 \<union> touched hs rs (set is)"
    by blast
  have "assign_handles G b (i # is) (attrs, db, out) =
      Some (attrs', db', out @ map ((!) hs) (filter (wanted rs) (i # is)))"
    using s(1) m(1) by simp
  moreover have "touched hs rs {i} \<union> touched hs rs (set is) \<subseteq> touched hs rs (set (i # is))"
    by (auto simp: touched_def)
  then have "dom db' \<subseteq> dom db \<union> touched hs rs (set (i # is))" using s(3) m(3) by blast
  ultimately show ?case using m(2) by blast
qed simp

definition chrc_followed :: "attr_role list \<Rightarrow> bool" where
  "chrc_followed rs \<longleftrightarrow> (\<forall>i<length rs. rs ! i \<noteq> R_Service \<and> (rs ! i = R_Chrc \<longrightarrow> Suc i < length rs))"

lemma chrc_followed_append:
  assumes "chrc_followed xs" and "chrc_followed ys"
  shows "chrc_followed (xs @ ys)"
  unfolding chrc_followed_def
proof (intro allI impI)
  fix i assume i: "i < length (xs @ ys)"
  show "(xs @ ys) ! i \<noteq> R_Service \<and> ((xs @ ys) ! i = R_Chrc \<longrightarrow> Suc i < length (xs @ ys))"
  proof (cases "i < length xs")
    case True
    then show ?thesis using assms(1) by (auto simp: chrc_followed_def nth_append)
  next
    case False
    with i have "i - length xs < length ys" by simp
    with assms(2) have "ys ! (i - length xs) \<noteq> R_Service" "ys ! (i - length xs) = R_Chrc \<longrightarrow> Suc (i - length xs) < length ys"
      by (auto simp: chrc_followed_def)
    with False show ?thesis by (auto simp: nth_append)
  qed
qed

lemma chrc_followed_roles: "chrc_followed (concat (map chr_roles chrs))"
proof (induction chrs)
  case (Cons c chrs)
  have "chrc_followed (chr_roles c)"
    by (auto simp: chrc_followed_def chr_roles_def nth_Cons nth_append split: nat.splits)
  then show ?case using Cons.IH by (simp add: chrc_followed_append)
qed (simp add: chrc_followed_def)

lemma roles_nth:
  assumes "0 < i" and "i < length (roles chrs)"
  shows "roles chrs ! i \<noteq> R_Service \<and> (roles chrs ! i = R_Chrc \<longrightarrow> Suc i < length (roles chrs))"
  using assms chrc_followed_roles [of chrs] by (cases i) (auto simp: roles_def chrc_followed_def)

lemma set_handles_ok:
  assumes "built b rs" and "length hs = length rs"
  shows "table_ok hs rs (set_handles hs (sb_attrs b))"
proof -
  have l: "length (sb_attrs b) = length rs" using assms(1) by (rule built_length)
  have "list_all2 attr_fits rs (sb_attrs b)" using assms(1) unfolding built_def by blast
  then show ?thesis
    using assms(2) l by (auto simp: table_ok_def set_handles_def list_all2_conv_all_nth attr_fits_def intro!: nth_equalityI)
qed

lemma register_service_run:
  assumes "bt_root s = Some r" and "length (rp_services r) < MP_BLUETOOTH_ZEPHYR_MAX_SERVICES"
    and "total_attributes chrs \<le> 31" and "cmp_ok api" and "create_law G"
    and "\<forall>c\<in>set chrs. \<forall>d\<in>set (cd_descs c). desc_ok api (cd_flags c) (fst d)"
    and "\<forall>attrs w. fst (bt_gatt_service_register api attrs w) = (0, hs)" and "length hs = total_attributes chrs"
  shows "\<exists>s' attrs db. mp_bluetooth_gatts_register_service api G u chrs s =
      Some (Inr (0, map ((!) hs) (filter (wanted (roles chrs)) [1..<total_attributes chrs])), s') \<and>
    bt_root s' = Some (r\<lparr>rp_db := db, rp_services := rp_services r @ [attrs @ [end_attr]]\<rparr>) \<and>
    table_ok hs (roles chrs) attrs \<and> dom db \<subseteq> dom (rp_db r) \<union> touched hs (roles chrs) {1..<total_attributes chrs}"
proof -
  let ?rs = "roles chrs" and ?cap = "total_attributes chrs + 1"
  obtain a where a: "add_service ?cap (create_zephyr_uuid u) [] = Some [a]" "attr_fits R_Service a"
    by (simp add: add_service_def gatt_db_add_def attr_fits_def)
  have "built \<lparr>sb_attrs = [a], sb_ignore = 0, sb_chrs = 0, sb_ccc = 0\<rparr> [R_Service]"
    using a(2) by (auto simp: built_def nth_Cons split: nat.splits)
  moreover have len: "length [R_Service] + length (concat (map chr_roles chrs)) = total_attributes chrs"
    using roles_length [of chrs] by (simp add: roles_def)
  ultimately obtain b where b: "add_chrs api ?cap chrs \<lparr>sb_attrs = [a], sb_ignore = 0, sb_chrs = 0, sb_ccc = 0\<rparr> = Some (Inr b)"
    "built b ?rs"
    using add_chrs_ok [OF assms(4,6), of _ "[R_Service]" ?cap] assms(3) by (auto simp: roles_def)
  have bl: "length (sb_attrs b) < ?cap" using built_length [OF b(2)] by (simp add: roles_length)
  have t0: "table_ok hs ?rs (set_handles hs (sb_attrs b))"
    by (rule set_handles_ok [OF b(2)]) (simp add: assms(8) roles_length)
  have "\<forall>i\<in>set [1..<total_attributes chrs]. i < length ?rs \<and> ?rs ! i \<noteq> R_Service \<and> (?rs ! i = R_Chrc \<longrightarrow> Suc i < length ?rs)"
    using roles_nth [of _ chrs] by (auto simp: roles_length)
  from assign_handles_ok [OF assms(5) b(2) t0 this, of "rp_db r" "[]"] obtain attrs db where
    as: "assign_handles G b [1..<total_attributes chrs] (set_handles hs (sb_attrs b), rp_db r, []) =
      Some (attrs, db, map ((!) hs) (filter (wanted ?rs) [1..<total_attributes chrs]))"
    "table_ok hs ?rs attrs" "dom db \<subseteq> dom (rp_db r) \<union> touched hs ?rs {1..<total_attributes chrs}"
    by auto
  let ?w = "snd (bt_gatt_service_register api (sb_attrs b) (bt_world s))"
  let ?s = "s\<lparr>bt_world := ?w, bt_root := Some (r\<lparr>rp_db := db, rp_services := rp_services r @ [attrs @ [end_attr]]\<rparr>)\<rparr>"
  have "mp_bluetooth_gatts_register_service api G u chrs s =
      Some (Inr (0, map ((!) hs) (filter (wanted ?rs) [1..<total_attributes chrs])), ?s)"
    using assms(1,2,7) a(1) b(1) bl as(1)
    by (simp add: mp_bluetooth_gatts_register_service_def btm Let_def del: upt_Suc)
  with as(2,3) show ?thesis by (intro exI [of _ ?s] exI [of _ attrs] exI [of _ db]) simp
qed

text \<open>
  Claim C30. Registering a service of at most 31 attributes whose descriptors can be added and that
  the stack accepts runs without leaving the table, and returns, in the order of the definitions, the
  handles of the characteristics and of their own descriptors: those of the values and of the
  subscriptions that are added for notifying characteristics are left out.
\<close>

theorem gatts_register_handles:
  assumes "bt_root s = Some r" and "length (rp_services r) < MP_BLUETOOTH_ZEPHYR_MAX_SERVICES"
    and "total_attributes chrs \<le> 31" and "cmp_ok api" and "create_law G"
    and "\<forall>c\<in>set chrs. \<forall>d\<in>set (cd_descs c). desc_ok api (cd_flags c) (fst d)"
    and "\<forall>attrs w. fst (bt_gatt_service_register api attrs w) = (0, hs)" and "length hs = total_attributes chrs"
  shows "\<exists>s'. mp_bluetooth_gatts_register_service api G u chrs s =
    Some (Inr (0, [hs ! i. i \<leftarrow> [1..<total_attributes chrs], roles chrs ! i \<in> {R_Chrc, R_Desc}]), s')"
proof -
  have "[hs ! i. i \<leftarrow> xs, roles chrs ! i \<in> {R_Chrc, R_Desc}] = map ((!) hs) (filter (wanted (roles chrs)) xs)" for xs
    by (induction xs) (auto simp: wanted_def)
  then show ?thesis using register_service_run [OF assms] by metis
qed

lemma single_roles:
  assumes "notifies (cd_flags c)" and "length (cd_descs c) = Suc k" and "1 \<le> i" and "i < 5 + k"
  shows "roles [c] ! i = (if i = 1 then R_Chrc else if i = 2 then R_Value else if i < 4 + k then R_Desc else R_Auto)"
proof -
  obtain j where j: "i = Suc j" using \<open>1 \<le> i\<close> by (cases i) auto
  show ?thesis
  proof (cases "j < 2")
    case True
    then show ?thesis by (auto simp: j roles_def chr_roles_def less_2_cases_iff)
  next
    case False
    then obtain m where "j = m + 2" by (metis add.commute le_Suc_ex linorder_not_less)
    moreover have "(replicate n R_Desc @ [R_Auto]) ! m = (if m < n then R_Desc else R_Auto)" if "m \<le> n" for n
      using that by (simp add: nth_append)
    ultimately show ?thesis
      using assms(1,2,4) j by (simp add: roles_def chr_roles_def del: replicate_Suc)
  qed
qed

lemma single_total: "notifies (cd_flags c) \<Longrightarrow> total_attributes [c] = 4 + length (cd_descs c)"
  by (simp add: total_attributes_def total_descriptors_def)

lemma add_of_nat_inj: "(h :: u16) + of_nat i = h + of_nat j \<Longrightarrow> i < 2 ^ 16 \<Longrightarrow> j < 2 ^ 16 \<Longrightarrow> i = j"
  by (auto simp: word_of_nat_eq_iff take_bit_nat_eq_self)

text \<open>
  Claim C31. When a notifying characteristic has descriptors of its own, the configuration of its
  subscriptions gets a handle for which there is no entry: the database has one two handles after the
  characteristic instead, where the first descriptor is, and a client that subscribes makes the
  binding follow a NULL pointer.
\<close>

theorem gatts_subscribe_null:
  assumes "bt_root s = Some r" and "length (rp_services r) < MP_BLUETOOTH_ZEPHYR_MAX_SERVICES"
    and "total_attributes [c] \<le> 31" and "cmp_ok api" and "create_law G"
    and "\<forall>d\<in>set (cd_descs c). desc_ok api (cd_flags c) (fst d)"
    and "\<forall>attrs w. fst (bt_gatt_service_register api attrs w) = (0, hs)"
    and "hs = map (\<lambda>i. h0 + of_nat i) [0..<total_attributes [c]]" and "dom (rp_db r) \<inter> set hs = {}"
    and "notifies (cd_flags c)" and "cd_descs c \<noteq> []"
  shows "\<exists>res s' r' ccc. mp_bluetooth_gatts_register_service api G u [c] s = Some (Inr res, s') \<and>
    bt_root s' = Some r' \<and> ccc \<in> set (last (rp_services r')) \<and> at_access ccc = A_Ccc \<and>
    (\<forall>v. ccc_cfg_changed ccc v s' = None)"
proof -
  obtain k where k: "length (cd_descs c) = Suc k" using assms(11) by (cases "cd_descs c") auto
  let ?n = "4 + k"
  have t: "total_attributes [c] = 5 + k" using single_total [OF assms(10)] k by simp
  have hs: "hs ! i = h0 + of_nat i" if "i < 5 + k" for i
    using that by (simp add: assms(8) t del: upt_Suc)
  have "length hs = total_attributes [c]" by (simp add: assms(8))
  from register_service_run [OF assms(1-5) _ assms(7) this, of u] assms(6) obtain s' attrs db res where
    reg: "mp_bluetooth_gatts_register_service api G u [c] s = Some (Inr res, s')"
      "bt_root s' = Some (r\<lparr>rp_db := db, rp_services := rp_services r @ [attrs @ [end_attr]]\<rparr>)" and
    tb: "table_ok hs (roles [c]) attrs" and
    db: "dom db \<subseteq> dom (rp_db r) \<union> touched hs (roles [c]) {1..<total_attributes [c]}"
    by auto
  have len: "length attrs = 5 + k"
    using tb unfolding table_ok_def by (metis assms(8) diff_zero length_map length_upt t)
  have "attr_fits (roles [c] ! ?n) (attrs ! ?n)"
    using tb len by (auto simp: table_ok_def list_all2_conv_all_nth)
  then have ccc: "at_access (attrs ! ?n) = A_Ccc"
    using single_roles [OF assms(10) k, of ?n] by (simp add: attr_fits_def)
  have h: "at_handle (attrs ! ?n) = h0 + of_nat ?n"
    using tb len hs [of ?n] by (auto simp: table_ok_def)
  have sub: "touched hs (roles [c]) {1..<5 + k} \<subseteq> (\<lambda>j. h0 + of_nat j) ` {..<?n}"
  proof
    fix x assume "x \<in> touched hs (roles [c]) {1..<5 + k}"
    then obtain i where i: "1 \<le> i" "i < 5 + k" and
      "(x = hs ! i \<and> wanted (roles [c]) i) \<or> (x = hs ! i + 2 \<and> roles [c] ! i = R_Chrc)"
      by (auto simp: touched_def)
    then have "(x = hs ! i \<and> i < ?n) \<or> (x = hs ! 1 + 2)"
      using single_roles [OF assms(10) k i] by (auto simp: wanted_def split: if_splits)
    then show "x \<in> (\<lambda>j. h0 + of_nat j) ` {..<?n}"
    proof
      assume "x = hs ! i \<and> i < ?n"
      with hs [OF i(2)] show ?thesis by blast
    next
      assume "x = hs ! 1 + 2"
      with hs [of 1] have "x = h0 + of_nat 3" by simp
      then show ?thesis by (intro image_eqI [of _ _ 3]) simp_all
    qed
  qed
  have "h0 + of_nat ?n \<notin> touched hs (roles [c]) {1..<5 + k}"
  proof
    assume "h0 + of_nat ?n \<in> touched hs (roles [c]) {1..<5 + k}"
    with sub obtain j where "h0 + of_nat ?n = h0 + of_nat j" "j < ?n" by blast
    then show False using add_of_nat_inj [of h0 ?n j] assms(3) t by simp
  qed
  moreover have "h0 + of_nat ?n \<notin> dom (rp_db r)"
    using assms(9) hs [of ?n] nth_mem [of ?n hs] by (auto simp: assms(8) t simp del: upt_Suc)
  ultimately have "db (h0 + of_nat ?n) = None" using db t by auto
  with reg(2) h have "\<forall>v. ccc_cfg_changed (attrs ! ?n) v s' = None"
    by (simp add: ccc_cfg_changed_def btm)
  with reg ccc len show ?thesis
    by (intro exI [of _ res] exI [of _ s'] exI [of _ "r\<lparr>rp_db := db, rp_services := rp_services r @ [attrs @ [end_attr]]\<rparr>"]
      exI [of _ "attrs ! ?n"]) simp
qed

section \<open>Examples\<close>

definition bt_example :: "u16 list \<Rightarrow> unit bt_api" where
  "bt_example hs = \<lparr>bt_enable = (\<lambda>w. (0, w)), bt_conn_cb_register = id,
     bt_conn_get_info = (\<lambda>w c. \<lparr>ci_id = of_nat c, ci_type = 0, ci_addr = replicate 6 0\<rparr>),
     bt_conn_ref = (\<lambda>_. id), bt_conn_unref = (\<lambda>_. id), bt_conn_disconnect = (\<lambda>_ w. (0, w)),
     bt_id_get = (\<lambda>_. Some (replicate 6 0, 0)), bt_get_name = (\<lambda>_. []), bt_set_name = (\<lambda>_ w. (0, w)),
     bt_le_adv_start = (\<lambda>_ _ _ w. (0, w)), bt_le_adv_stop = (\<lambda>w. (0, w)),
     bt_le_scan_cb_register = id, bt_le_scan_cb_unregister = id,
     bt_le_scan_start = (\<lambda>_ w. (0, w)), bt_le_scan_stop = (\<lambda>w. (0, w)),
     scan_timer_init = id, scan_timer_start = (\<lambda>_. id), scan_timer_stop = id, mp_sched_stop = (\<lambda>w. (True, w)),
     bt_gatt_service_register = (\<lambda>_ w. ((0, hs), w)), bt_gatt_service_unregister = (\<lambda>_. id),
     bt_gatt_notify = (\<lambda>_ _ _ w. (0, w)), bt_gatt_indicate = (\<lambda>_ _ _ w. (0, w)),
     bt_gatt_attr_read = (\<lambda>_ _ _ d w. ((int (length d), d), w)),
     bt_uuid_cmp = (\<lambda>u v. if u = v then 0 else 1)\<rparr>"

definition gatts_example :: gatts_ext where
  "gatts_example = \<lparr>gatts_default_len = 20, gatts_db_create = Map.empty,
     gatts_db_create_entry = (\<lambda>h n db. db(h \<mapsto> \<lparr>ge_data = replicate n 0, ge_len = 0, ge_append = False\<rparr>)),
     gatts_db_reset = (\<lambda>_. Map.empty), gatts_db_read = (\<lambda>db h. (0, [], db)), gatts_db_write = (\<lambda>db h v. (0, db)),
     gatts_db_resize = (\<lambda>db h n a. (0, db))\<rparr>"

definition bt_state_example :: "unit bt_state" where
  "bt_state_example = \<lparr>bt_ble = BLE_STATE_ACTIVE, bt_scan = GAP_SCAN_STATE_INACTIVE,
     bt_root = Some \<lparr>rp_db = Map.empty, rp_services = [], rp_connections = 0\<rparr>,
     bt_nodes = (\<lambda>_. \<lparr>cn_conn = None, cn_next = 0\<rparr>), bt_fresh = 1, bt_next_conn = 0, bt_ad = [], bt_sd = [],
     bt_events = [], bt_world = ()\<rparr>"

lemma example_laws: "cmp_ok (bt_example hs)" "create_law gatts_example"
  "\<forall>attrs w. fst (bt_gatt_service_register (bt_example hs) attrs w) = (0, hs)"
  "bt_root bt_state_example = Some \<lparr>rp_db = Map.empty, rp_services = [], rp_connections = 0\<rparr>"
  by (auto simp: cmp_ok_def bt_example_def BT_UUID_GATT_CCC_def BT_UUID_GATT_CEP_def create_law_def gatts_example_def
    bt_state_example_def)

definition notifying :: "(mp_uuid \<times> u16) list \<Rightarrow> chr_def" where
  "notifying ds = \<lparr>cd_uuid = MP_UUID_16 [0x37, 0x2A], cd_flags = 0x12, cd_descs = ds\<rparr>"

definition user_desc :: "mp_uuid \<times> u16" where "user_desc = (MP_UUID_16 [0x01, 0x29], 0x02)"

lemma notifying_facts:
  "notifies (cd_flags (notifying ds))" "cd_descs (notifying ds) = ds" "desc_ok (bt_example hs) fl (fst user_desc)"
  by (simp_all add: notifying_def notifies_def FLAG_NOTIFY_def FLAG_INDICATE_def user_desc_def desc_ok_def bt_example_def
    create_zephyr_uuid_def BT_UUID_GATT_CEP_def BT_UUID_GATT_CCC_def)

theorem gatts_register_handles_witness:
  "\<exists>s'. mp_bluetooth_gatts_register_service (bt_example [16, 17, 18, 19, 20, 21, 22, 23]) gatts_example (MP_UUID_16 [0x0D, 0x18])
     [notifying [], notifying [user_desc]] bt_state_example = Some (Inr (0, [17, 20, 22]), s')"
proof -
  let ?chrs = "[notifying [], notifying [user_desc]]"
  have t: "total_attributes ?chrs = 8"
    by (simp add: total_attributes_def total_descriptors_def notifying_facts)
  have r: "roles ?chrs = [R_Service, R_Chrc, R_Value, R_Auto, R_Chrc, R_Value, R_Desc, R_Auto]"
    by (simp add: roles_def chr_roles_def notifying_facts)
  from gatts_register_handles [OF example_laws(4) _ _ example_laws(1,2) _ example_laws(3),
      of ?chrs "[16, 17, 18, 19, 20, 21, 22, 23]" "MP_UUID_16 [0x0D, 0x18]"]
  show ?thesis
    by (simp add: t r notifying_facts MP_BLUETOOTH_ZEPHYR_MAX_SERVICES_def upt_rec)
qed

theorem gatts_subscribe_null_witness:
  "\<exists>res s' r' ccc. mp_bluetooth_gatts_register_service (bt_example [16, 17, 18, 19, 20]) gatts_example (MP_UUID_16 [0x0D, 0x18])
     [notifying [user_desc]] bt_state_example = Some (Inr res, s') \<and> bt_root s' = Some r' \<and>
     ccc \<in> set (last (rp_services r')) \<and> at_access ccc = A_Ccc \<and> (\<forall>v. ccc_cfg_changed ccc v s' = None)"
proof -
  have t: "total_attributes [notifying [user_desc]] = 5"
    by (simp add: total_attributes_def total_descriptors_def notifying_facts)
  then have "[16, 17, 18, 19, 20] = map (\<lambda>i. 16 + of_nat i) [0..<total_attributes [notifying [user_desc]]] "
    by (simp add: upt_rec)
  from gatts_subscribe_null [OF example_laws(4) _ _ example_laws(1,2) _ example_laws(3) this, of "MP_UUID_16 [0x0D, 0x18]"]
  show ?thesis
    by (simp add: t notifying_facts MP_BLUETOOTH_ZEPHYR_MAX_SERVICES_def)
qed

end
