(* ===== verification/Machine_Devices.thy ===== *)
theory Machine_Devices
  imports Mp_Base Complex_Main "HOL-Library.Signed_Division"
begin

text \<open>
  The Python classes for simple peripherals, after \<open>app/micropython/\<close>: looking up devices
  (\<open>zephyr_device.c\<close>), analogue inputs (\<open>machine_adc.c\<close>), pulse width modulation
  (\<open>machine_pwm.c\<close>), SPI (\<open>machine_spi.c\<close>), I2C (\<open>machine_i2c.c\<close>), the watchdog
  (\<open>machine_wdt.c\<close>) and sensors (\<open>modzsensor.c\<close>).

  The drivers are parameters, records of calls over a state \<open>'w\<close>.  Keyword arguments are
  given with their defaults filled in.  \<open>None\<close> is undefined behaviour: a shift by a negative
  amount, a division by zero, an overflow of signed integers, an access outside a buffer.
\<close>

section \<open>Devices and arguments\<close>

type_synonym dev = nat

record device_api =
  device_get_binding :: "bytes \<Rightarrow> dev option"
  device_get_by_dt_nodelabel :: "bytes \<Rightarrow> dev option"
  dt_metadata :: bool

definition zephyr_device_find :: "device_api \<Rightarrow> mp_obj \<Rightarrow> mp_exc + dev" where
  "zephyr_device_find D name =
     sbind (mp_obj_get_bytes name) (\<lambda>s.
       let dev_name = c_str s;
           d = device_get_binding D dev_name;
           d = (if dt_metadata D \<and> d = None then device_get_by_dt_nodelabel D dev_name else d)
       in case d of None \<Rightarrow> Inl (ValueError ''device not found'') | Some d \<Rightarrow> Inr d)"

text \<open>An argument that may already be an object of the class.\<close>

datatype 'a mp_arg = Mp_Self 'a | Mp_Val mp_obj

text \<open>A (device, number) tuple.\<close>

definition device_number :: "device_api \<Rightarrow> mp_obj list \<Rightarrow> mp_exc + (dev \<times> int)" where
  "device_number D xs =
     sbind (mp_obj_get_pair (Mp_Tuple xs)) (\<lambda>(name, number).
     sbind (zephyr_device_find D name) (\<lambda>d.
     sbind (mp_obj_get_int number) (\<lambda>i. Inr (d, i))))"

text \<open>\<open>MP_OBJ_NEW_SMALL_INT\<close> keeps 31 bits; signed 32-bit arithmetic must not overflow.\<close>

definition small_int :: "int \<Rightarrow> mp_obj" where "small_int i = Mp_Int (signed_take_bit 30 i)"

definition int32 :: "int \<Rightarrow> int option" where
  "int32 i = (if - (2 ^ 31) \<le> i \<and> i < 2 ^ 31 then Some i else None)"

section \<open>Analogue inputs\<close>

record adc_spec =
  as_dev :: dev
  as_channel :: int
  as_resolution :: int

record 'w adc_api =
  adc_channels :: "adc_spec list"
  adc_is_ready :: "adc_spec \<Rightarrow> 'w \<Rightarrow> bool"
  adc_channel_setup :: "adc_spec \<Rightarrow> 'w \<Rightarrow> int \<times> 'w"
  adc_sequence_init :: "adc_spec \<Rightarrow> 'w \<Rightarrow> int \<times> 'w"
  adc_read :: "adc_spec \<Rightarrow> 'w \<Rightarrow> (int \<times> u16) \<times> 'w"
  adc_raw_to_millivolts :: "adc_spec \<Rightarrow> int \<Rightarrow> int \<times> int"

record machine_adc =
  ma_name :: bytes
  ma_spec :: adc_spec

definition mp_machine_adc_make_new ::
  "device_api \<Rightarrow> 'w adc_api \<Rightarrow> machine_adc mp_arg \<Rightarrow> 'w \<Rightarrow> (mp_exc + machine_adc) \<times> 'w" where
  "mp_machine_adc_make_new D A arg w =
     (case arg of
        Mp_Self self \<Rightarrow> (Inr self, w)
      | Mp_Val (Mp_Tuple xs) \<Rightarrow>
          (case sbind (mp_obj_get_pair (Mp_Tuple xs)) (\<lambda>(name, number).
                sbind (mp_obj_get_bytes name) (\<lambda>s.
                sbind (mp_obj_get_int number) (\<lambda>channel_id.
                sbind (zephyr_device_find D name) (\<lambda>d. Inr (c_str s, channel_id, d))))) of
             Inl e \<Rightarrow> (Inl e, w)
           | Inr (dev_name, channel_id, wanted_port) \<Rightarrow>
               (case find (\<lambda>s. as_dev s = wanted_port \<and> as_channel s = channel_id) (adc_channels A) of
                  None \<Rightarrow> (Inl (ValueError ''ADC channel not found''), w)
                | Some spec \<Rightarrow>
                    if \<not> adc_is_ready A spec w then (Inl (OSError EIO), w)
                    else (let (err, w) = adc_channel_setup A spec w
                          in if err < 0 then (Inl (OSError EINVAL), w)
                             else (Inr \<lparr>ma_name = dev_name, ma_spec = spec\<rparr>, w))))
      | Mp_Val _ \<Rightarrow> (Inl (ValueError ''ADC must be initialized with a tuple of (adcblock, channel) or an ADC object''), w))"

definition ADC_EOPNOTSUPP :: int where "ADC_EOPNOTSUPP = 95"

definition zephyr_adc_read :: "'w adc_api \<Rightarrow> adc_spec \<Rightarrow> 'w \<Rightarrow> (mp_exc + u32) \<times> 'w" where
  "zephyr_adc_read A spec w =
     (let (err, w) = adc_sequence_init A spec w
      in if err < 0 then (Inl (OSError ADC_EOPNOTSUPP), w)
         else (let ((err, sample_buffer), w) = adc_read A spec w
               in if err < 0 then (Inl (OSError EIO), w) else (Inr (ucast sample_buffer), w)))"

text \<open>A reading scaled to 16 bits: shifted up, with its highest bits repeated below.\<close>

definition shift_ok :: "int \<Rightarrow> bool" where "shift_ok n \<longleftrightarrow> 0 \<le> n \<and> n < 32"

definition scale_u16 :: "u32 \<Rightarrow> int \<Rightarrow> u32 option" where
  "scale_u16 raw bits =
     (if shift_ok (16 - bits) \<and> shift_ok (2 * bits - 16)
      then Some (push_bit (nat (16 - bits)) raw OR drop_bit (nat (2 * bits - 16)) raw) else None)"

definition mp_machine_adc_read_u16 :: "'w adc_api \<Rightarrow> machine_adc \<Rightarrow> 'w \<Rightarrow> ((mp_exc + u32) \<times> 'w) option" where
  "mp_machine_adc_read_u16 A self w =
     (case zephyr_adc_read A (ma_spec self) w of
        (Inl e, w) \<Rightarrow> Some (Inl e, w)
      | (Inr raw, w) \<Rightarrow> map_option (\<lambda>u. (Inr u, w)) (scale_u16 raw (as_resolution (ma_spec self))))"

definition mp_machine_adc_read_uv :: "'w adc_api \<Rightarrow> machine_adc \<Rightarrow> 'w \<Rightarrow> (mp_exc + u32) \<times> 'w" where
  "mp_machine_adc_read_uv A self w =
     (case zephyr_adc_read A (ma_spec self) w of
        (Inl e, w) \<Rightarrow> (Inl e, w)
      | (Inr raw, w) \<Rightarrow>
          (let (err, mv) = adc_raw_to_millivolts A (ma_spec self) (sint raw)
           in if err < 0 then (Inl (OSError ADC_EOPNOTSUPP), w) else (Inr (word_of_int mv * 1000), w)))"

definition mp_machine_adc_read :: "'w adc_api \<Rightarrow> machine_adc \<Rightarrow> 'w \<Rightarrow> (mp_exc + u32) \<times> 'w" where
  "mp_machine_adc_read A self w = zephyr_adc_read A (ma_spec self) w"

section \<open>Pulse width modulation\<close>

definition VALUE_NOT_SET :: u32 where "VALUE_NOT_SET = - 1"

definition NSEC_PER_SEC :: u32 where "NSEC_PER_SEC = 1000000000"

definition UINT16_MAX :: u32 where "UINT16_MAX = 65535"

text \<open>The three settings are \<open>int32_t\<close>.\<close>

record machine_pwm =
  pw_dev :: dev
  pw_channel :: u32
  pw_freq :: u32
  pw_duty_u16 :: u32
  pw_duty_ns :: u32
  pw_inverted :: bool

text \<open>
  The driver call gets the device, the channel, the period, the pulse and the polarity; its result
  is ignored.  The settings change before the call, and stay changed when an exception is raised.
\<close>

definition pulse_ns :: "machine_pwm \<Rightarrow> u32 \<Rightarrow> u32" where
  "pulse_ns self period =
     (let duty = (if pw_duty_ns self = VALUE_NOT_SET then (pw_duty_u16 self * period) div UINT16_MAX else pw_duty_ns self)
      in if sint duty < 0 then 0 else if duty > period then period else duty)"

definition configure_pwm ::
  "(dev \<Rightarrow> u32 \<Rightarrow> u32 \<Rightarrow> u32 \<Rightarrow> bool \<Rightarrow> 'w \<Rightarrow> 'w) \<Rightarrow> machine_pwm \<Rightarrow> 'w \<Rightarrow> ((mp_exc + unit) \<times> machine_pwm \<times> 'w) option" where
  "configure_pwm pwm_set self w =
     (if pw_freq self = 0 then None
      else
        (let period = NSEC_PER_SEC div pw_freq self
         in if (pw_duty_u16 self = VALUE_NOT_SET \<and> pw_duty_ns self = VALUE_NOT_SET) \<or> pw_freq self = VALUE_NOT_SET
            then Some (Inl (ValueError ''Frequency and duty values must be set''), self, w)
            else
              (let duty = pulse_ns self period;
                   w = pwm_set (pw_dev self) (pw_channel self) period duty (pw_inverted self) w
               in Some (Inr (), self\<lparr>pw_duty_ns := duty\<rparr>, w))))"

definition mp_machine_pwm_init_helper ::
  "(dev \<Rightarrow> u32 \<Rightarrow> u32 \<Rightarrow> u32 \<Rightarrow> bool \<Rightarrow> 'w \<Rightarrow> 'w) \<Rightarrow> machine_pwm \<Rightarrow> u32 \<Rightarrow> u32 \<Rightarrow> u32 \<Rightarrow> u32 \<Rightarrow> 'w \<Rightarrow>
   ((mp_exc + unit) \<times> machine_pwm \<times> 'w) option" where
  "mp_machine_pwm_init_helper pwm_set self freq duty_u16 duty_ns invert w =
     (let self = (if sint freq > 0 then self\<lparr>pw_freq := freq\<rparr> else self);
          self = (if sint duty_u16 \<ge> 0 then self\<lparr>pw_duty_u16 := duty_u16, pw_duty_ns := VALUE_NOT_SET\<rparr> else self);
          self = (if sint duty_ns \<ge> 0 then self\<lparr>pw_duty_ns := duty_ns, pw_duty_u16 := VALUE_NOT_SET\<rparr> else self);
          self = self\<lparr>pw_inverted := sint invert \<ge> 0\<rparr>
      in configure_pwm pwm_set self w)"

text \<open>The settings are given when there are more arguments than the pin.\<close>

definition mp_machine_pwm_make_new ::
  "device_api \<Rightarrow> (dev \<Rightarrow> u32 \<Rightarrow> u32 \<Rightarrow> u32 \<Rightarrow> bool \<Rightarrow> 'w \<Rightarrow> 'w) \<Rightarrow> mp_obj \<Rightarrow> (u32 \<times> u32 \<times> u32 \<times> u32) option \<Rightarrow> 'w \<Rightarrow>
   ((mp_exc + machine_pwm) \<times> 'w) option" where
  "mp_machine_pwm_make_new D pwm_set pin settings w =
     (case pin of
        Mp_Tuple xs \<Rightarrow>
          (case device_number D xs of
             Inl e \<Rightarrow> Some (Inl e, w)
           | Inr (d, channel) \<Rightarrow>
               (let pwm = \<lparr>pw_dev = d, pw_channel = word_of_int channel, pw_freq = VALUE_NOT_SET,
                           pw_duty_u16 = VALUE_NOT_SET, pw_duty_ns = VALUE_NOT_SET, pw_inverted = False\<rparr>
                in case settings of
                     None \<Rightarrow> Some (Inr pwm, w)
                   | Some (freq, duty_u16, duty_ns, invert) \<Rightarrow>
                       map_option (\<lambda>(r, pwm, w). (map_sum id (\<lambda>_. pwm) r, w))
                         (mp_machine_pwm_init_helper pwm_set pwm freq duty_u16 duty_ns invert w)))
      | _ \<Rightarrow> Some (Inl (ValueError ''Pin id must be tuple of (pwm_x, channel#)''), w))"

definition mp_machine_pwm_deinit ::
  "(dev \<Rightarrow> u32 \<Rightarrow> u32 \<Rightarrow> u32 \<Rightarrow> bool \<Rightarrow> 'w \<Rightarrow> 'w) \<Rightarrow> machine_pwm \<Rightarrow> 'w \<Rightarrow> ((mp_exc + unit) \<times> machine_pwm \<times> 'w) option" where
  "mp_machine_pwm_deinit pwm_set self w = configure_pwm pwm_set (self\<lparr>pw_duty_ns := 0, pw_duty_u16 := VALUE_NOT_SET\<rparr>) w"

definition mp_machine_pwm_freq_set ::
  "(dev \<Rightarrow> u32 \<Rightarrow> u32 \<Rightarrow> u32 \<Rightarrow> bool \<Rightarrow> 'w \<Rightarrow> 'w) \<Rightarrow> machine_pwm \<Rightarrow> u32 \<Rightarrow> 'w \<Rightarrow> ((mp_exc + unit) \<times> machine_pwm \<times> 'w) option" where
  "mp_machine_pwm_freq_set pwm_set self freq w = configure_pwm pwm_set (self\<lparr>pw_freq := freq\<rparr>) w"

definition mp_machine_pwm_duty_set_ns ::
  "(dev \<Rightarrow> u32 \<Rightarrow> u32 \<Rightarrow> u32 \<Rightarrow> bool \<Rightarrow> 'w \<Rightarrow> 'w) \<Rightarrow> machine_pwm \<Rightarrow> u32 \<Rightarrow> 'w \<Rightarrow> ((mp_exc + unit) \<times> machine_pwm \<times> 'w) option" where
  "mp_machine_pwm_duty_set_ns pwm_set self duty_ns w =
     configure_pwm pwm_set (self\<lparr>pw_duty_ns := duty_ns, pw_duty_u16 := VALUE_NOT_SET\<rparr>) w"

definition mp_machine_pwm_duty_set_u16 ::
  "(dev \<Rightarrow> u32 \<Rightarrow> u32 \<Rightarrow> u32 \<Rightarrow> bool \<Rightarrow> 'w \<Rightarrow> 'w) \<Rightarrow> machine_pwm \<Rightarrow> u32 \<Rightarrow> 'w \<Rightarrow> ((mp_exc + unit) \<times> machine_pwm \<times> 'w) option" where
  "mp_machine_pwm_duty_set_u16 pwm_set self duty_u16 w =
     configure_pwm pwm_set (self\<lparr>pw_duty_ns := VALUE_NOT_SET, pw_duty_u16 := duty_u16\<rparr>) w"

definition mp_machine_pwm_freq_get :: "machine_pwm \<Rightarrow> mp_obj" where
  "mp_machine_pwm_freq_get self = small_int (sint (pw_freq self))"

definition mp_machine_pwm_duty_get_ns :: "machine_pwm \<Rightarrow> mp_obj" where
  "mp_machine_pwm_duty_get_ns self = small_int (sint (pw_duty_ns self))"

definition mp_machine_pwm_duty_get_u16 :: "machine_pwm \<Rightarrow> mp_obj" where
  "mp_machine_pwm_duty_get_u16 self = small_int (sint (pw_duty_u16 self))"

section \<open>SPI\<close>

definition SPI_LOOP :: u32 where "SPI_LOOP = 0"

text \<open>Zephyr numbers the master mode and the single line 0; the operation is 16 bits wide.\<close>

record spi_config =
  sc_frequency :: u32
  sc_operation :: u16

record machine_spi =
  ms_dev :: dev
  ms_config :: spi_config

definition machine_hard_spi_make_new ::
  "device_api \<Rightarrow> mp_obj \<Rightarrow> u32 \<Rightarrow> u32 \<Rightarrow> u32 \<Rightarrow> u32 \<Rightarrow> u32 \<Rightarrow> mp_obj option \<Rightarrow> mp_obj option \<Rightarrow> mp_obj option \<Rightarrow>
   mp_exc + machine_spi" where
  "machine_hard_spi_make_new D ident baudrate polarity phase bits firstbit sck mosi miso =
     sbind (zephyr_device_find D ident) (\<lambda>d.
       if sck \<noteq> None \<or> miso \<noteq> None \<or> mosi \<noteq> None
       then Inl (NotImplementedError ''explicit choice of sck/miso/mosi is not implemented'')
       else Inr \<lparr>ms_dev = d, ms_config = \<lparr>sc_frequency = baudrate,
              sc_operation = ucast (push_bit 1 polarity OR push_bit 2 phase OR push_bit 3 SPI_LOOP OR
                push_bit 4 firstbit OR push_bit 5 bits)\<rparr>\<rparr>)"

text \<open>Reconfiguring: -1 keeps a setting.\<close>

definition set_field :: "u16 \<Rightarrow> nat \<Rightarrow> u32 \<Rightarrow> u16 \<Rightarrow> u16" where
  "set_field keep n value operation =
     (if value \<noteq> - 1 then (operation AND keep) OR push_bit n (ucast value) else operation)"

definition machine_hard_spi_init :: "machine_spi \<Rightarrow> u32 \<Rightarrow> u32 \<Rightarrow> u32 \<Rightarrow> u32 \<Rightarrow> u32 \<Rightarrow> machine_spi" where
  "machine_hard_spi_init self baudrate polarity phase bits firstbit =
     (let rate = (if baudrate \<noteq> - 1 then baudrate else sc_frequency (ms_config self));
          operation = sc_operation (ms_config self);
          operation = set_field (NOT 0x2) 1 polarity operation;
          operation = set_field (NOT 0x4) 2 phase operation;
          operation = set_field 0x1F 5 bits operation;
          operation = set_field (NOT 0x10) 4 firstbit operation
      in self\<lparr>ms_config := \<lparr>sc_frequency = rate, sc_operation = operation\<rparr>\<rparr>)"

text \<open>What \<open>print\<close> shows of an operation: polarity, phase, bits, and the order of the bits.\<close>

definition spi_settings :: "u16 \<Rightarrow> u16 \<times> u16 \<times> u16 \<times> u16" where
  "spi_settings operation =
     (drop_bit 1 (operation AND 0x2), drop_bit 2 (operation AND 0x4), drop_bit 5 (operation AND NOT 0x1F),
      drop_bit 4 (operation AND 0x10))"

text \<open>Both directions at once; the driver returns what it read.\<close>

definition machine_hard_spi_transfer ::
  "(dev \<Rightarrow> spi_config \<Rightarrow> bytes \<Rightarrow> 'w \<Rightarrow> (int \<times> bytes) \<times> 'w) \<Rightarrow> machine_spi \<Rightarrow> bytes \<Rightarrow> 'w \<Rightarrow> (mp_exc + bytes) \<times> 'w" where
  "machine_hard_spi_transfer spi_transceive self src w =
     (let ((ret, dest), w) = spi_transceive (ms_dev self) (ms_config self) src w
      in if ret < 0 then (Inl (OSError (- ret)), w) else (Inr dest, w))"

section \<open>I2C\<close>

definition machine_hard_i2c_make_new ::
  "device_api \<Rightarrow> mp_obj \<Rightarrow> mp_obj option \<Rightarrow> mp_obj option \<Rightarrow> mp_obj option \<Rightarrow> mp_obj option \<Rightarrow> mp_exc + dev" where
  "machine_hard_i2c_make_new D ident scl sda freq timeout =
     sbind (zephyr_device_find D ident) (\<lambda>d.
       if scl \<noteq> None \<or> sda \<noteq> None then Inl (NotImplementedError ''explicit choice of scl/sda is not implemented'')
       else if freq \<noteq> None then Inl (NotImplementedError ''explicit choice of freq is not implemented'')
       else if timeout \<noteq> None then Inl (NotImplementedError ''explicit choice of timeout is not implemented'')
       else Inr d)"

datatype i2c_flag = I2C_WRITE1 | I2C_READ | I2C_STOP

datatype i2c_msg_flag = I2C_MSG_WRITE | I2C_MSG_READ | I2C_MSG_STOP | I2C_MSG_RESTART

record i2c_msg =
  im_buf :: bytes
  im_flags :: "i2c_msg_flag set"

text \<open>The driver gets the messages and the address; with a read it returns the bytes of the last one.\<close>

type_synonym 'w i2c_transfer = "dev \<Rightarrow> i2c_msg list \<Rightarrow> u16 \<Rightarrow> 'w \<Rightarrow> (int \<times> bytes) \<times> 'w"

text \<open>Copying a combined buffer back to buffers of the given lengths.\<close>

primrec scatter :: "nat list \<Rightarrow> bytes \<Rightarrow> bytes list" where
  "scatter [] data = []"
| "scatter (n # ns) data = take n data # scatter ns (drop n data)"

text \<open>
  One combined message for all buffers, after the first one when it is written separately.  The
  combined buffer is fresh memory when reading, of which the contents do not matter.  The result is
  the total length or an error, with the buffers as they are afterwards.
\<close>

definition i2c_run ::
  "'w i2c_transfer \<Rightarrow> dev \<Rightarrow> i2c_msg list \<Rightarrow> i2c_flag set \<Rightarrow> u16 \<Rightarrow> bytes list \<Rightarrow> 'w \<Rightarrow> (int \<times> bytes list) \<times> 'w" where
  "i2c_run i2c_transfer d first flags addr bufs w =
     (if bufs = [] \<or> I2C_STOP \<notin> flags then ((- EINVAL, bufs), w)
      else
        (let msg = \<lparr>im_buf = concat bufs,
               im_flags = (if first = [] then {} else {I2C_MSG_RESTART}) \<union>
                 (if I2C_READ \<in> flags then {I2C_MSG_READ, I2C_MSG_STOP} else {I2C_MSG_WRITE, I2C_MSG_STOP})\<rparr>;
             ((ret, data), w) = i2c_transfer d (first @ [msg]) addr w
         in if ret < 0 then
              ((- EIO, if I2C_READ \<in> flags \<and> length bufs = 1 then scatter (map length bufs) data else bufs), w)
            else ((int (sum_list (map (length \<circ> im_buf) (first @ [msg]))),
                   if I2C_READ \<in> flags then scatter (map length bufs) data else bufs), w)))"

definition machine_hard_i2c_transfer ::
  "'w i2c_transfer \<Rightarrow> dev \<Rightarrow> u16 \<Rightarrow> bytes list \<Rightarrow> i2c_flag set \<Rightarrow> 'w \<Rightarrow> ((int \<times> bytes list) \<times> 'w) option" where
  "machine_hard_i2c_transfer i2c_transfer d addr bufs flags w =
     (if I2C_WRITE1 \<in> flags then
        (case bufs of
           [] \<Rightarrow> None
         | b # bs \<Rightarrow>
             (case i2c_run i2c_transfer d [\<lparr>im_buf = b, im_flags = {I2C_MSG_WRITE}\<rparr>] flags addr bs w of
                ((ret, bs), w) \<Rightarrow> Some ((ret, b # bs), w)))
      else Some (i2c_run i2c_transfer d [] flags addr bufs w))"

section \<open>The watchdog\<close>

record 'w wdt_api =
  wdt_device_ready :: bool
  wdt_install_timeout :: "int \<Rightarrow> 'w \<Rightarrow> int \<times> 'w"
  wdt_setup :: "'w \<Rightarrow> int \<times> 'w"
  wdt_feed :: "int \<Rightarrow> 'w \<Rightarrow> int \<times> 'w"

text \<open>There is one watchdog; its channel is kept also when starting it fails.\<close>

definition mp_machine_wdt_make_new_instance ::
  "'w wdt_api \<Rightarrow> int \<Rightarrow> int \<Rightarrow> int \<Rightarrow> 'w \<Rightarrow> (mp_exc + unit) \<times> int \<times> 'w" where
  "mp_machine_wdt_make_new_instance W ident timeout_ms channel_id w =
     (if ident \<noteq> 0 then (Inl (ValueError ''invalid WDT id''), channel_id, w)
      else if timeout_ms \<le> 0 then (Inl (ValueError ''watchdog timeout too short''), channel_id, w)
      else if \<not> wdt_device_ready W then (Inl (OSError ENODEV), channel_id, w)
      else
        (let (channel_id, w) = wdt_install_timeout W timeout_ms w
         in if channel_id < 0 then (Inl (OSError (- channel_id)), channel_id, w)
            else
              (let (rs_code, w) = wdt_setup W w
               in (if rs_code < 0 then Inl (OSError (- rs_code)) else Inr (), channel_id, w))))"

definition mp_machine_wdt_feed :: "'w wdt_api \<Rightarrow> int \<Rightarrow> 'w \<Rightarrow> (mp_exc + unit) \<times> 'w" where
  "mp_machine_wdt_feed W channel_id w =
     (let (rs_code, w) = wdt_feed W channel_id w
      in (if rs_code < 0 then Inl (OSError (- rs_code)) else Inr (), w))"

section \<open>Sensors\<close>

text \<open>A value in whole units and millionths, both \<open>int32_t\<close>.\<close>

type_synonym sensor_value = "int \<times> int"

record 'w sensor_api =
  sensor_sample_fetch :: "dev \<Rightarrow> 'w \<Rightarrow> int \<times> 'w"
  sensor_channel_get :: "dev \<Rightarrow> int \<Rightarrow> 'w \<Rightarrow> int \<times> sensor_value"
  sensor_attr_get :: "dev \<Rightarrow> int \<Rightarrow> int \<Rightarrow> 'w \<Rightarrow> int \<times> sensor_value"
  sensor_attr_set :: "dev \<Rightarrow> int \<Rightarrow> int \<Rightarrow> sensor_value \<Rightarrow> 'w \<Rightarrow> int \<times> 'w"

definition sensor_make_new :: "device_api \<Rightarrow> mp_obj \<Rightarrow> mp_exc + dev" where
  "sensor_make_new D arg = zephyr_device_find D arg"

definition sensor_measure :: "'w sensor_api \<Rightarrow> dev \<Rightarrow> 'w \<Rightarrow> (mp_exc + mp_obj) \<times> 'w" where
  "sensor_measure S self w =
     (let (st, w) = sensor_sample_fetch S self w
      in (if st \<noteq> 0 then Inl (OSError (- st)) else Inr Mp_None, w))"

definition sensor_get_internal :: "'w sensor_api \<Rightarrow> dev \<Rightarrow> mp_obj \<Rightarrow> 'w \<Rightarrow> mp_exc + sensor_value" where
  "sensor_get_internal S self channel w =
     sbind (mp_obj_get_int channel) (\<lambda>c.
       let (st, v) = sensor_channel_get S self c w
       in if st \<noteq> 0 then Inl (OSError (- st)) else Inr v)"

definition sensor_attr_get_internal :: "'w sensor_api \<Rightarrow> dev \<Rightarrow> mp_obj \<Rightarrow> mp_obj \<Rightarrow> 'w \<Rightarrow> mp_exc + sensor_value" where
  "sensor_attr_get_internal S self channel attr w =
     sbind (mp_obj_get_int channel) (\<lambda>c.
     sbind (mp_obj_get_int attr) (\<lambda>a.
       let (st, v) = sensor_attr_get S self c a w
       in if st \<noteq> 0 then Inl (OSError (- st)) else Inr v))"

text \<open>The conversions, in \<open>int32_t\<close> with division towards zero.\<close>

definition sensor_micros :: "sensor_value \<Rightarrow> mp_obj option" where
  "sensor_micros v = do { m \<leftarrow> int32 (fst v * 1000000); s \<leftarrow> int32 (m + snd v); Some (small_int s) }"

definition sensor_millis :: "sensor_value \<Rightarrow> mp_obj option" where
  "sensor_millis v = do { m \<leftarrow> int32 (fst v * 1000); s \<leftarrow> int32 (m + snd v sdiv 1000); Some (small_int s) }"

definition converted :: "(sensor_value \<Rightarrow> mp_obj option) \<Rightarrow> mp_exc + sensor_value \<Rightarrow> (mp_exc + mp_obj) option" where
  "converted f r = (case r of Inl e \<Rightarrow> Some (Inl e) | Inr v \<Rightarrow> map_option Inr (f v))"

definition sensor_get_micros :: "'w sensor_api \<Rightarrow> dev \<Rightarrow> mp_obj \<Rightarrow> 'w \<Rightarrow> (mp_exc + mp_obj) option" where
  "sensor_get_micros S self channel w = converted sensor_micros (sensor_get_internal S self channel w)"

definition sensor_get_millis :: "'w sensor_api \<Rightarrow> dev \<Rightarrow> mp_obj \<Rightarrow> 'w \<Rightarrow> (mp_exc + mp_obj) option" where
  "sensor_get_millis S self channel w = converted sensor_millis (sensor_get_internal S self channel w)"

definition sensor_get_int :: "'w sensor_api \<Rightarrow> dev \<Rightarrow> mp_obj \<Rightarrow> 'w \<Rightarrow> (mp_exc + mp_obj) option" where
  "sensor_get_int S self channel w = converted (\<lambda>v. Some (small_int (fst v))) (sensor_get_internal S self channel w)"

definition sensor_attr_get_micros :: "'w sensor_api \<Rightarrow> dev \<Rightarrow> mp_obj \<Rightarrow> mp_obj \<Rightarrow> 'w \<Rightarrow> (mp_exc + mp_obj) option" where
  "sensor_attr_get_micros S self channel attr w = converted sensor_micros (sensor_attr_get_internal S self channel attr w)"

definition sensor_attr_get_millis :: "'w sensor_api \<Rightarrow> dev \<Rightarrow> mp_obj \<Rightarrow> mp_obj \<Rightarrow> 'w \<Rightarrow> (mp_exc + mp_obj) option" where
  "sensor_attr_get_millis S self channel attr w = converted sensor_millis (sensor_attr_get_internal S self channel attr w)"

definition sensor_attr_get_int :: "'w sensor_api \<Rightarrow> dev \<Rightarrow> mp_obj \<Rightarrow> mp_obj \<Rightarrow> 'w \<Rightarrow> (mp_exc + mp_obj) option" where
  "sensor_attr_get_int S self channel attr w =
     converted (\<lambda>v. Some (small_int (fst v))) (sensor_attr_get_internal S self channel attr w)"

text \<open>With two integers.\<close>

definition mp_sensor_attr_set ::
  "'w sensor_api \<Rightarrow> dev \<Rightarrow> mp_obj \<Rightarrow> mp_obj \<Rightarrow> mp_obj \<Rightarrow> mp_obj \<Rightarrow> 'w \<Rightarrow> (mp_exc + mp_obj) \<times> 'w" where
  "mp_sensor_attr_set S self channel attr val1 val2 w =
     (case sbind (mp_obj_get_int val1) (\<lambda>v1. sbind (mp_obj_get_int val2) (\<lambda>v2.
           sbind (mp_obj_get_int channel) (\<lambda>c. sbind (mp_obj_get_int attr) (\<lambda>a. Inr (c, a, v1, v2))))) of
        Inl e \<Rightarrow> (Inl e, w)
      | Inr (c, a, v) \<Rightarrow>
          (let (st, w) = sensor_attr_set S self c a v w
           in (if st \<noteq> 0 then Inl (OSError (- st)) else Inr Mp_None, w)))"

text \<open>
  The forms in floating point, over the operations of the interpreter's type \<open>mp_float_t\<close>: those on
  numbers and the cast to \<open>int32_t\<close>, which is undefined out of its range.
\<close>

record 'f float_ops =
  fl_of_int :: "int \<Rightarrow> 'f"
  fl_add :: "'f \<Rightarrow> 'f \<Rightarrow> 'f"
  fl_sub :: "'f \<Rightarrow> 'f \<Rightarrow> 'f"
  fl_mul :: "'f \<Rightarrow> 'f \<Rightarrow> 'f"
  fl_div :: "'f \<Rightarrow> 'f \<Rightarrow> 'f"
  fl_int32 :: "'f \<Rightarrow> int option"

definition sensor_float :: "'f float_ops \<Rightarrow> sensor_value \<Rightarrow> 'f" where
  "sensor_float F v = fl_add F (fl_of_int F (fst v)) (fl_div F (fl_of_int F (snd v)) (fl_of_int F 1000000))"

definition sensor_get_float :: "'w sensor_api \<Rightarrow> 'f float_ops \<Rightarrow> dev \<Rightarrow> mp_obj \<Rightarrow> 'w \<Rightarrow> mp_exc + 'f" where
  "sensor_get_float S F self channel w = map_sum id (sensor_float F) (sensor_get_internal S self channel w)"

definition sensor_attr_get_float ::
  "'w sensor_api \<Rightarrow> 'f float_ops \<Rightarrow> dev \<Rightarrow> mp_obj \<Rightarrow> mp_obj \<Rightarrow> 'w \<Rightarrow> mp_exc + 'f" where
  "sensor_attr_get_float S F self channel attr w =
     map_sum id (sensor_float F) (sensor_attr_get_internal S self channel attr w)"

text \<open>The whole units of a number, and what is left of it in millionths.\<close>

definition sensor_split :: "'f float_ops \<Rightarrow> 'f \<Rightarrow> sensor_value option" where
  "sensor_split F v = do {
     val1 \<leftarrow> fl_int32 F v;
     val2 \<leftarrow> fl_int32 F (fl_mul F (fl_sub F v (fl_of_int F val1)) (fl_of_int F 1000000));
     Some (val1, val2)
   }"

text \<open>With one number, or the exception of an argument that is none.\<close>

definition mp_sensor_attr_set_float ::
  "'w sensor_api \<Rightarrow> 'f float_ops \<Rightarrow> dev \<Rightarrow> mp_obj \<Rightarrow> mp_obj \<Rightarrow> mp_exc + 'f \<Rightarrow> 'w \<Rightarrow> ((mp_exc + mp_obj) \<times> 'w) option" where
  "mp_sensor_attr_set_float S F self channel attr v w =
     (case v of
        Inl e \<Rightarrow> Some (Inl e, w)
      | Inr v \<Rightarrow> do {
          (val1, val2) \<leftarrow> sensor_split F v;
          Some (mp_sensor_attr_set S self channel attr (Mp_Int val1) (Mp_Int val2) w)
        })"

section \<open>Properties\<close>

lemma nat_or_disjoint:
  assumes "y < 2 ^ k"
  shows "push_bit k x OR y = x * 2 ^ k + (y :: nat)"
proof -
  have y: "take_bit k y = y" using assms by (simp add: take_bit_nat_eq_self)
  have "push_bit k x + take_bit k y = push_bit k x OR take_bit k y"
    by (rule disjunctive_add_eq_or, rule bit_eqI) (auto simp: bit_and_iff bit_push_bit_iff bit_take_bit_iff)
  with y show ?thesis by (simp add: push_bit_eq_mult)
qed

lemma shift_or_disjoint:
  fixes x y :: "'a :: len word"
  assumes "unat x * 2 ^ k < 2 ^ LENGTH('a)" and "unat y < 2 ^ k"
  shows "unat (push_bit k x OR y) = unat x * 2 ^ k + unat y"
proof -
  have "unat (push_bit k x) = push_bit k (unat x)"
    using assms(1) by (simp only: unsigned_push_bit_eq) (simp add: take_bit_nat_eq_self push_bit_eq_mult)
  then show ?thesis by (simp only: unsigned_or_eq nat_or_disjoint [OF assms(2)])
qed

text \<open>
  For a resolution of 8 to 16 bits, a reading in range is scaled to 16 bits without
  undefined behaviour: shifted to the top, with its own highest bits added below.
\<close>

lemma adc_u16_scale:
  assumes "8 \<le> b" and "b \<le> 16" and "unat raw < 2 ^ b"
  shows "map_option unat (scale_u16 raw (int b)) = Some (unat raw * 2 ^ (16 - b) + unat raw div 2 ^ (2 * b - 16))"
proof -
  have n: "nat (16 - int b) = 16 - b" "nat (2 * int b - 16) = 2 * b - 16" using assms(1,2) by auto
  have e: "(2 :: nat) ^ b = 2 ^ (2 * b - 16) * 2 ^ (16 - b)" using assms(1,2) by (simp flip: power_add)
  have dr: "unat (drop_bit (2 * b - 16) raw) = unat raw div 2 ^ (2 * b - 16)"
    by (simp only: unat_drop_bit_eq) (simp only: drop_bit_eq_div)
  have "unat (drop_bit (2 * b - 16) raw) < 2 ^ (16 - b)"
    unfolding dr by (rule less_mult_imp_div_less) (use assms(3) e in \<open>simp add: mult.commute\<close>)
  moreover have "unat raw * 2 ^ (16 - b) < 2 ^ LENGTH(32)"
  proof -
    have "unat raw * 2 ^ (16 - b) < 2 ^ b * 2 ^ (16 - b)" using assms(3) by simp
    also have "\<dots> = (2 :: nat) ^ 16" using assms(2) by (simp flip: power_add)
    finally show ?thesis by simp
  qed
  ultimately have "unat (push_bit (16 - b) raw OR drop_bit (2 * b - 16) raw) =
      unat raw * 2 ^ (16 - b) + unat (drop_bit (2 * b - 16) raw)"
    by (rule shift_or_disjoint [rotated])
  then show ?thesis
    using assms(1,2) by (simp add: scale_u16_def shift_ok_def n dr)
qed

lemma adc_u16_scale_witness: "map_option unat (scale_u16 0xFFF 12) = Some 65535"
  using adc_u16_scale [of 12 "0xFFF"] by simp

lemma sint_small: "unat (w :: u32) \<le> 65537 \<Longrightarrow> 0 \<le> sint w"
proof -
  assume "unat w \<le> 65537"
  then have "unat w div 2 ^ 31 = 0" by simp
  then have "\<not> bit (unat w) 31" by (simp only: bit_iff_odd) simp
  then have "\<not> bit w 31" by (simp add: bit_unsigned_iff)
  then show ?thesis using bit_last_iff [of w] by simp
qed

text \<open>
  Full duty is a full period only for periods up to 65537 ns: above that the product with
  the duty overflows 32 bits before it is divided, and the pulse is shorter than the period.
\<close>

lemma pwm_full_duty:
  assumes "pw_freq self \<noteq> 0" and "pw_freq self \<noteq> VALUE_NOT_SET"
  shows "\<exists>self' w'. mp_machine_pwm_duty_set_u16 pwm_set self UINT16_MAX w = Some (Inr (), self', w') \<and>
    (pw_duty_ns self' = NSEC_PER_SEC div pw_freq self \<longleftrightarrow> unat (NSEC_PER_SEC div pw_freq self) \<le> 65537)"
proof -
  let ?p = "NSEC_PER_SEC div pw_freq self" and ?q = "UINT16_MAX * (NSEC_PER_SEC div pw_freq self)"
  have u: "unat UINT16_MAX = 65535" by (simp add: UINT16_MAX_def)
  have m: "unat ?q = 65535 * unat ?p mod 2 ^ 32" by (simp add: unat_word_ariths u)
  have d: "unat (?q div UINT16_MAX) = (65535 * unat ?p mod 2 ^ 32) div 65535"
    by (simp add: unat_div_distrib m u)
  have le: "unat (?q div UINT16_MAX) \<le> 65537"
  proof -
    have "65535 * unat ?p mod 2 ^ 32 \<le> 2 ^ 32 - 1" by (simp add: Suc_leI less_Suc_eq_le [symmetric])
    from div_le_mono [OF this, of 65535] show ?thesis unfolding d by simp
  qed
  then have nn: "\<not> sint (?q div UINT16_MAX) < 0"
    using sint_small by (simp add: not_less)
  let ?self = "self\<lparr>pw_duty_ns := VALUE_NOT_SET, pw_duty_u16 := UINT16_MAX\<rparr>"
  have pulse: "pulse_ns ?self ?p = (if ?q div UINT16_MAX > ?p then ?p else ?q div UINT16_MAX)"
    using nn by (simp add: pulse_ns_def Let_def)
  have "pulse_ns ?self ?p = ?p \<longleftrightarrow> unat ?p \<le> 65537"
  proof (cases "unat ?p \<le> 65537")
    case True
    then have "unat (?q div UINT16_MAX) = unat ?p" unfolding d by simp
    then have "?q div UINT16_MAX = ?p" by (rule word_unat_eq_iff [THEN iffD2])
    with True show ?thesis by (simp add: pulse)
  next
    case False
    with le have "unat (?q div UINT16_MAX) < unat ?p" by linarith
    then have "?q div UINT16_MAX < ?p" by (simp add: word_less_nat_alt)
    then have "?q div UINT16_MAX \<noteq> ?p \<and> \<not> ?p < ?q div UINT16_MAX" by auto
    with False show ?thesis by (simp add: pulse)
  qed
  moreover have "UINT16_MAX \<noteq> VALUE_NOT_SET" by (simp add: UINT16_MAX_def VALUE_NOT_SET_def)
  ultimately show ?thesis
    using assms by (auto simp: mp_machine_pwm_duty_set_u16_def configure_pwm_def Let_def)
qed

lemma pwm_full_duty_witness:
  "\<exists>self'. mp_machine_pwm_duty_set_u16 (\<lambda>d c p q i w. w)
     \<lparr>pw_dev = 1, pw_channel = 0, pw_freq = 1000, pw_duty_u16 = 0, pw_duty_ns = 0, pw_inverted = False\<rparr> UINT16_MAX () =
       Some (Inr (), self', ()) \<and> pw_duty_ns self' \<noteq> NSEC_PER_SEC div 1000"
  using pwm_full_duty [of "\<lparr>pw_dev = 1, pw_channel = 0, pw_freq = 1000, pw_duty_u16 = 0, pw_duty_ns = 0, pw_inverted = False\<rparr>"
      "\<lambda>d c p q i w. w" "()"]
  by (simp add: VALUE_NOT_SET_def NSEC_PER_SEC_def)

lemma bit_set_field:
  "v \<noteq> - 1 \<Longrightarrow> bit (set_field keep n v op) i \<longleftrightarrow> (bit op i \<and> bit keep i) \<or> (n \<le> i \<and> i < 16 \<and> bit v (i - n))"
  by (auto simp: set_field_def bit_or_iff bit_and_iff bit_push_bit_iff bit_ucast_iff)

lemma field_masks: "(0x2 :: u16) = push_bit 1 1" "(0x4 :: u16) = push_bit 2 1" "(0x10 :: u16) = push_bit 4 1" "(0x1F :: u16) = mask 5"
  by (simp_all add: mask_eq_exp_minus_1)

lemma small_bits: "unat v < 2 ^ n \<Longrightarrow> bit (v :: u32) i \<Longrightarrow> i < n"
proof (rule ccontr)
  assume v: "unat v < 2 ^ n" "bit v i" "\<not> i < n"
  then have "unat v < 2 ^ i" by (meson less_le_trans not_less one_le_numeral power_increasing)
  then have "unat v div 2 ^ i = 0" by simp
  then have "\<not> bit (unat v) i" by (simp only: bit_iff_odd) simp
  with v(2) show False by (simp add: bit_unsigned_iff)
qed

lemma one_bit_field:
  assumes "bit op n \<longleftrightarrow> bit v 0" and "\<And>j. \<not> bit (v :: u32) (Suc j)" and "m = push_bit n 1"
  shows "drop_bit n (op AND m) = (ucast v :: u16)"
proof (rule bit_word_eqI)
  fix i assume "i < LENGTH(16)"
  show "bit (drop_bit n (op AND m)) i \<longleftrightarrow> bit (ucast v :: u16) i"
    using assms(1,2) bit_imp_le_length [of op "n + i"]
    by (cases i) (auto simp: bit_drop_bit_eq bit_and_iff bit_ucast_iff assms(3) bit_push_bit_iff bit_1_iff
      simp del: push_bit_of_1)
qed

lemma spi_settings_bits:
  assumes "bit op 1 \<longleftrightarrow> bit p 0" and "bit op 2 \<longleftrightarrow> bit ph 0" and "bit op 4 \<longleftrightarrow> bit fb 0"
    and "\<And>j. j < 11 \<Longrightarrow> bit op (5 + j) \<longleftrightarrow> bit b j"
    and "\<And>j. \<not> bit (p :: u32) (Suc j)" and "\<And>j. \<not> bit (ph :: u32) (Suc j)" and "\<And>j. \<not> bit (fb :: u32) (Suc j)" and "\<And>j. bit (b :: u32) j \<Longrightarrow> j < 11"
  shows "spi_settings op = (ucast p, ucast ph, ucast b, ucast fb)"
proof -
  have "drop_bit 5 (op AND NOT 0x1F) = ucast b"
  proof (rule bit_word_eqI)
    fix i assume "i < LENGTH(16)"
    moreover have "\<not> bit op (5 + i)" if "\<not> i < 11"
      using that bit_imp_le_length [of op "5 + i"] by auto
    moreover have "bit (NOT 0x1F :: u16) (5 + i) \<longleftrightarrow> 5 + i < 16"
      unfolding field_masks(4) by (simp only: bit_not_iff bit_mask_iff possible_bit_word) simp
    ultimately show "bit (drop_bit 5 (op AND NOT 0x1F)) i \<longleftrightarrow> bit (ucast b :: u16) i"
      using assms(4,8) [of i]
      by (cases "i < 11") (auto simp only: bit_drop_bit_eq o_apply bit_and_iff bit_ucast_iff)
  qed
  then show ?thesis
    using one_bit_field [OF assms(1,5) field_masks(1)] one_bit_field [OF assms(2,6) field_masks(2)]
      one_bit_field [OF assms(3,7) field_masks(3)]
    by (simp only: spi_settings_def)
qed

text \<open>
  The fields of a reconfigured SPI bus do not disturb each other: with all four given,
  polarity, phase and bit order 0 or 1 and at most 63 bits, what \<open>print\<close> shows afterwards is
  exactly what was given, whatever the bus was configured to before.
\<close>

lemma spi_init_settings:
  assumes "unat polarity \<le> 1" and "unat phase \<le> 1" and "unat firstbit \<le> 1" and "unat bits < 64"
  shows "spi_settings (sc_operation (ms_config (machine_hard_spi_init self baudrate polarity phase bits firstbit))) =
    (ucast polarity, ucast phase, ucast bits, ucast firstbit)"
proof -
  have ne: "v \<noteq> - 1" if "unat v < 64" for v :: u32 using that by (auto simp: unsigned_minus_1_eq_mask mask_eq_exp_minus_1)
  let ?op = "set_field (NOT 0x10) 4 firstbit (set_field 0x1F 5 bits (set_field (NOT 0x4) 2 phase
    (set_field (NOT 0x2) 1 polarity (sc_operation (ms_config self)))))"
  have s: "bit polarity i \<Longrightarrow> i = 0" "bit phase i \<Longrightarrow> i = 0" "bit firstbit i \<Longrightarrow> i = 0" "bit bits i \<Longrightarrow> i < 6" for i
    using assms small_bits [of polarity 1 i] small_bits [of phase 1 i] small_bits [of firstbit 1 i] small_bits [of bits 6 i]
    by auto
  have nes: "polarity \<noteq> - 1" "phase \<noteq> - 1" "firstbit \<noteq> - 1" "bits \<noteq> - 1" using assms by (auto simp del: One_nat_def intro!: ne)
  note sets = bit_set_field [OF nes(1)] bit_set_field [OF nes(2)] bit_set_field [OF nes(3)] bit_set_field [OF nes(4)]
  have v0: "\<not> bit polarity (Suc j)" "\<not> bit phase (Suc j)" "\<not> bit firstbit (Suc j)" for j
    using s(1-3) [of "Suc j"] by auto
  have b1: "bit ?op 1 \<longleftrightarrow> bit polarity 0" and b2: "bit ?op 2 \<longleftrightarrow> bit phase 0" and b4: "bit ?op 4 \<longleftrightarrow> bit firstbit 0"
    using v0 by (simp_all add: sets bit_not_iff bit_numeral_rec)
  have b5: "bit ?op (5 + j) \<longleftrightarrow> bit bits j" if "j < 11" for j
  proof -
    have "\<not> bit (0x1F :: u16) (5 + j)" by (simp only: field_masks bit_mask_iff) simp
    moreover have "bit (NOT 0x10 :: u16) (5 + j)"
      unfolding field_masks(3) using that by (simp only: bit_not_iff bit_push_bit_iff bit_1_iff possible_bit_word) simp
    ultimately show ?thesis
      using that v0(3) [of j] by (simp add: sets)
  qed
  have b6: "bit bits j \<Longrightarrow> j < 11" for j using s(4) [of j] by simp
  have "spi_settings ?op = (ucast polarity, ucast phase, ucast bits, ucast firstbit)"
    by (rule spi_settings_bits [OF b1 b2 b4 b5 v0(1,2,3) b6])
  then show ?thesis by (simp add: machine_hard_spi_init_def Let_def)
qed

text \<open>
  In exact arithmetic the splitting of a number loses nothing: a value whose parts have the same sign, as
  Zephyr asks for, comes back from the number that a script reads.
\<close>

definition exact_ops :: "rat float_ops" where
  "exact_ops =
     \<lparr>fl_of_int = of_int, fl_add = (+), fl_sub = (-), fl_mul = (*), fl_div = (/),
      fl_int32 = (\<lambda>x. int32 (if x < 0 then - \<lfloor>- x\<rfloor> else \<lfloor>x\<rfloor>))\<rparr>"

lemma floor_add_fraction:
  fixes a b :: int
  assumes "0 \<le> b" and "b < 1000000"
  shows "\<lfloor>(of_int a :: rat) + of_int b / 1000000\<rfloor> = a"
  using assms by (simp add: floor_eq_iff)

lemma sensor_split_exact:
  assumes "- (2 ^ 31) \<le> a" and "a < 2 ^ 31" and "\<bar>b\<bar> < 1000000" and "0 < a \<Longrightarrow> 0 \<le> b" and "a < 0 \<Longrightarrow> b \<le> 0"
  shows "sensor_split exact_ops (sensor_float exact_ops (a, b)) = Some (a, b)"
proof -
  let ?x = "(of_int a :: rat) + of_int b / 1000000"
  have "(if ?x < 0 then - \<lfloor>- ?x\<rfloor> else \<lfloor>?x\<rfloor>) = a"
  proof (cases "0 \<le> a \<and> 0 \<le> b")
    case True
    then have "\<not> ?x < 0" by (simp add: not_less)
    then show ?thesis using True assms(3) by (simp add: floor_eq_iff)
  next
    case False
    then have ab: "a \<le> 0" "b \<le> 0" "a < 0 \<or> b < 0" using assms(4,5) by linarith+
    have "?x < 0" using ab by (auto simp: add_neg_nonpos add_nonpos_neg)
    moreover have "- ?x = of_int (- a) + of_int (- b) / 1000000" by simp
    ultimately show ?thesis using ab assms(3) by (simp only: if_True floor_add_fraction minus_minus)
  qed
  moreover have "(if (of_int b :: rat) < 0 then - \<lfloor>- (of_int b :: rat)\<rfloor> else \<lfloor>of_int b :: rat\<rfloor>) = b" by simp
  moreover have "- (2 ^ 31) \<le> b" "b < 2 ^ 31" using assms(3) by simp_all
  ultimately show ?thesis
    using assms(1,2) by (simp add: sensor_split_def sensor_float_def exact_ops_def int32_def)
qed

lemma scatter_take: "scatter ns (take (sum_list ns) data) = scatter ns data"
proof (induction ns arbitrary: data)
  case (Cons n ns)
  have "drop n (take (n + sum_list ns) data) = take (sum_list ns) (drop n data)" by (simp add: drop_take)
  then show ?case using Cons.IH by (simp add: min_def)
qed simp

lemma scatter_concat: "scatter (map length bufs) (concat bufs) = bufs"
  by (induction bufs) simp_all

text \<open>
  A transfer with several buffers is the transfer with one that is their concatenation: the
  device sees the same message, the result is the same, and what was read is cut back into the buffers
  in order.
\<close>

lemma i2c_buffers_as_one:
  assumes "bufs \<noteq> []" and "I2C_WRITE1 \<notin> flags"
  shows "machine_hard_i2c_transfer i2c_transfer d addr bufs flags w =
    map_option (\<lambda>((ret, one), w). ((ret, if I2C_READ \<in> flags \<and> (0 \<le> ret \<or> length bufs = 1)
        then scatter (map length bufs) (concat one) else bufs), w))
      (machine_hard_i2c_transfer i2c_transfer d addr [concat bufs] flags w)"
proof -
  have len: "length (concat bufs) = sum_list (map length bufs)" by (simp add: length_concat)
  show ?thesis
    using assms
    by (auto simp: machine_hard_i2c_transfer_def i2c_run_def Let_def scatter_take len scatter_concat EIO_def EINVAL_def
      split: prod.splits)
qed


lemma spi_init_settings_witness:
  "spi_settings (sc_operation (ms_config (machine_hard_spi_init
     \<lparr>ms_dev = 1, ms_config = \<lparr>sc_frequency = 50000, sc_operation = 0x117\<rparr>\<rparr> (- 1) 1 0 16 1))) = (1, 0, 16, 1)"
  using spi_init_settings [of 1 0 1 16] by simp

lemma i2c_buffers_as_one_witness:
  "machine_hard_i2c_transfer (\<lambda>d ms a w. ((0, [1, 2, 3]), w)) 1 0x50 [[0], [0, 0]] {I2C_READ, I2C_STOP} () =
     Some ((3, [[1], [2, 3]]), ())"
  using i2c_buffers_as_one [of "[[0], [0, 0]]" "{I2C_READ, I2C_STOP}" "\<lambda>d ms a w. ((0, [1, 2, 3]), w)" 1 "0x50" "()"]
  by (simp add: machine_hard_i2c_transfer_def i2c_run_def)

end
