(* ===== verification/Machine_Pins.thy ===== *)
theory Machine_Pins
  imports Machine_Devices
begin

text \<open>
  Pins with their interrupts (\<open>app/micropython/machine_pin.c\<close>) and software timers
  (\<open>app/micropython/machine_timer.c\<close>).

  Python objects are numbered: a pin or an interrupt object is its place in the list of all
  objects made so far.  The list of interrupts, which is only extended at its front and dropped as
  a whole, is a list of these numbers; the list of timers is linked through the timers themselves,
  as in the code, since timers take themselves out of it.  The drivers, the kernel timer and
  calling into Python are parameters.  \<open>None\<close> is undefined behaviour.
\<close>

section \<open>Pins\<close>

record 'w gpio_api =
  GPIO_INPUT :: u32
  GPIO_OUTPUT :: u32
  GPIO_OUTPUT_INIT_HIGH :: u32
  GPIO_OUTPUT_INIT_LOW :: u32
  GPIO_INT_DISABLE :: u32
  gpio_pin_configure :: "dev \<Rightarrow> u32 \<Rightarrow> u32 \<Rightarrow> 'w \<Rightarrow> int \<times> 'w"
  gpio_pin_get_raw :: "dev \<Rightarrow> u32 \<Rightarrow> 'w \<Rightarrow> int"
  gpio_pin_set_raw :: "dev \<Rightarrow> u32 \<Rightarrow> int \<Rightarrow> 'w \<Rightarrow> int \<times> 'w"
  gpio_pin_interrupt_configure :: "dev \<Rightarrow> u32 \<Rightarrow> u32 \<Rightarrow> 'w \<Rightarrow> int \<times> 'w"
  gpio_add_callback :: "dev \<Rightarrow> nat \<Rightarrow> u32 \<Rightarrow> 'w \<Rightarrow> int \<times> 'w"
  gpio_remove_callback :: "dev \<Rightarrow> nat \<Rightarrow> 'w \<Rightarrow> int \<times> 'w"
  gpio_get_pending_int :: "dev \<Rightarrow> 'w \<Rightarrow> int"

record pin_obj =
  po_port :: dev
  po_pin :: u32
  po_irq :: "nat option"

record irq_obj =
  io_parent :: nat
  io_handler :: mp_obj
  io_hard :: bool

record 'w pin_state =
  ps_pins :: "pin_obj list"
  ps_irqs :: "irq_obj list"
  ps_irq_list :: "nat list"
  ps_world :: 'w

definition pin_line :: "'w pin_state \<Rightarrow> nat \<Rightarrow> dev \<times> u32" where
  "pin_line s i = (po_port (ps_pins s ! i), po_pin (ps_pins s ! i))"

definition irq_line :: "'w pin_state \<Rightarrow> nat \<Rightarrow> dev \<times> u32" where
  "irq_line s k = pin_line s (io_parent (ps_irqs s ! k))"

text \<open>At the end of Python all interrupts are taken back; errors are ignored.\<close>

primrec deinit_irqs :: "'w gpio_api \<Rightarrow> (dev \<times> u32 \<times> nat) list \<Rightarrow> 'w \<Rightarrow> 'w" where
  "deinit_irqs G [] w = w"
| "deinit_irqs G (x # xs) w =
     (case x of (port, pin, irq) \<Rightarrow>
        let (_, w) = gpio_pin_interrupt_configure G port pin (GPIO_INT_DISABLE G) w;
            (_, w) = gpio_remove_callback G port irq w
        in deinit_irqs G xs w)"

definition machine_pin_deinit :: "'w gpio_api \<Rightarrow> 'w pin_state \<Rightarrow> 'w pin_state" where
  "machine_pin_deinit G s =
     s\<lparr>ps_world := deinit_irqs G (map (\<lambda>k. case irq_line s k of (port, pin) \<Rightarrow> (port, pin, k)) (ps_irq_list s)) (ps_world s),
       ps_irq_list := []\<rparr>"

text \<open>Configuring a pin: its mode, its pull, and the truth of the value when one is given.\<close>

type_synonym pin_settings = "u32 \<times> mp_obj \<times> bool option"

definition machine_pin_obj_init_helper ::
  "'w gpio_api \<Rightarrow> dev \<Rightarrow> u32 \<Rightarrow> pin_settings \<Rightarrow> 'w \<Rightarrow> (mp_exc + mp_obj) \<times> 'w" where
  "machine_pin_obj_init_helper G port pin settings w =
     (case settings of (mode, pull, val) \<Rightarrow>
        case (if pull = Mp_None then Inr 0 else mp_obj_get_int pull) of
          Inl e \<Rightarrow> (Inl e, w)
        | Inr p \<Rightarrow>
            (let pull = word_of_int p;
                 init = (case val of None \<Rightarrow> 0 | Some v \<Rightarrow> if v then GPIO_OUTPUT_INIT_HIGH G else GPIO_OUTPUT_INIT_LOW G);
                 (ret, w) = gpio_pin_configure G port pin (mode OR pull OR init) w;
                 (ret, w) =
                   (if ret = - ENOTSUP \<and> mode = GPIO_OUTPUT G OR GPIO_INPUT G
                    then gpio_pin_configure G port pin (GPIO_OUTPUT G OR pull OR init) w else (ret, w))
             in (if ret \<noteq> 0 then Inl (ValueError ''invalid pin'') else Inr Mp_None, w)))"

text \<open>An existing pin is used again; a new one is made from a tuple.  It exists before it is configured.\<close>

definition configure_new :: "'w gpio_api \<Rightarrow> pin_settings option \<Rightarrow> nat \<Rightarrow> 'w pin_state \<Rightarrow> (mp_exc + nat) \<times> 'w pin_state" where
  "configure_new G settings i s =
     (case settings of
        None \<Rightarrow> (Inr i, s)
      | Some st \<Rightarrow>
          (let (r, w) = machine_pin_obj_init_helper G (po_port (ps_pins s ! i)) (po_pin (ps_pins s ! i)) st (ps_world s)
           in (map_sum id (\<lambda>_. i) r, s\<lparr>ps_world := w\<rparr>)))"

definition mp_pin_make_new ::
  "device_api \<Rightarrow> 'w gpio_api \<Rightarrow> nat mp_arg \<Rightarrow> pin_settings option \<Rightarrow> 'w pin_state \<Rightarrow> (mp_exc + nat) \<times> 'w pin_state" where
  "mp_pin_make_new D G arg settings s =
     (case arg of
        Mp_Self i \<Rightarrow> configure_new G settings i s
      | Mp_Val (Mp_Tuple xs) \<Rightarrow>
          (case device_number D xs of
             Inl e \<Rightarrow> (Inl e, s)
           | Inr (port, pin) \<Rightarrow>
               configure_new G settings (length (ps_pins s))
                 (s\<lparr>ps_pins := ps_pins s @ [\<lparr>po_port = port, po_pin = word_of_int pin, po_irq = None\<rparr>]\<rparr>))
      | Mp_Val _ \<Rightarrow> (Inl (ValueError ''Pin id must be tuple of (GPIO_x, pin#)''), s))"

text \<open>Reading and writing; the optional argument is a truth value.\<close>

definition machine_pin_call :: "'w gpio_api \<Rightarrow> nat \<Rightarrow> bool option \<Rightarrow> 'w pin_state \<Rightarrow> mp_obj \<times> 'w pin_state" where
  "machine_pin_call G i val s =
     (case pin_line s i of (port, pin) \<Rightarrow>
        case val of
          None \<Rightarrow> (small_int (gpio_pin_get_raw G port pin (ps_world s)), s)
        | Some v \<Rightarrow> (Mp_None, s\<lparr>ps_world := snd (gpio_pin_set_raw G port pin (if v then 1 else 0) (ps_world s))\<rparr>))"

definition machine_pin_value :: "'w gpio_api \<Rightarrow> nat \<Rightarrow> bool option \<Rightarrow> 'w pin_state \<Rightarrow> mp_obj \<times> 'w pin_state" where
  "machine_pin_value G i val s = machine_pin_call G i val s"

definition machine_pin_off :: "'w gpio_api \<Rightarrow> nat \<Rightarrow> 'w pin_state \<Rightarrow> mp_obj \<times> 'w pin_state" where
  "machine_pin_off G i s =
     (case pin_line s i of (port, pin) \<Rightarrow> (Mp_None, s\<lparr>ps_world := snd (gpio_pin_set_raw G port pin 0 (ps_world s))\<rparr>))"

definition machine_pin_on :: "'w gpio_api \<Rightarrow> nat \<Rightarrow> 'w pin_state \<Rightarrow> mp_obj \<times> 'w pin_state" where
  "machine_pin_on G i s =
     (case pin_line s i of (port, pin) \<Rightarrow> (Mp_None, s\<lparr>ps_world := snd (gpio_pin_set_raw G port pin 1 (ps_world s))\<rparr>))"

datatype pin_request = MP_PIN_READ | MP_PIN_WRITE int | MP_PIN_OTHER

definition machine_pin_ioctl :: "'w gpio_api \<Rightarrow> nat \<Rightarrow> pin_request \<Rightarrow> 'w pin_state \<Rightarrow> int \<times> 'w pin_state" where
  "machine_pin_ioctl G i request s =
     (case pin_line s i of (port, pin) \<Rightarrow>
        case request of
          MP_PIN_READ \<Rightarrow> (gpio_pin_get_raw G port pin (ps_world s), s)
        | MP_PIN_WRITE v \<Rightarrow>
            (let (ret, w) = gpio_pin_set_raw G port pin v (ps_world s) in (ret, s\<lparr>ps_world := w\<rparr>))
        | MP_PIN_OTHER \<Rightarrow> (-1, s))"

section \<open>Interrupts of pins\<close>

text \<open>The interrupt object of a pin: its own, that of another pin object for the same line, or a new one.\<close>

definition irq_object :: "'w gpio_api \<Rightarrow> nat \<Rightarrow> 'w pin_state \<Rightarrow> ((mp_exc + nat) \<times> 'w pin_state) option" where
  "irq_object G i s =
     (case po_irq (ps_pins s ! i) of
        Some k \<Rightarrow> Some (Inr k, s)
      | None \<Rightarrow>
          (case find (\<lambda>k. irq_line s k = pin_line s i) (ps_irq_list s) of
             Some k \<Rightarrow> Some (Inr k, s\<lparr>ps_pins := (ps_pins s)[i := (ps_pins s ! i)\<lparr>po_irq := Some k\<rparr>]\<rparr>)
           | None \<Rightarrow>
               (let k = length (ps_irqs s);
                    s = s\<lparr>ps_irqs := ps_irqs s @ [\<lparr>io_parent = i, io_handler = Mp_None, io_hard = False\<rparr>]\<rparr>;
                    pin = po_pin (ps_pins s ! i)
                in if unat pin \<ge> 32 then None
                   else
                     (let (ret, w) = gpio_add_callback G (po_port (ps_pins s ! i)) k (push_bit (unat pin) 1) (ps_world s);
                          s = s\<lparr>ps_world := w\<rparr>
                      in if ret \<noteq> 0 then Some (Inl (OSError (- ret)), s)
                         else Some (Inr k, s\<lparr>ps_irq_list := k # ps_irq_list s,
                                             ps_pins := (ps_pins s)[i := (ps_pins s ! i)\<lparr>po_irq := Some k\<rparr>]\<rparr>)))))"

text \<open>Configuring it when there are arguments: a handler, a trigger, whether it is hard.\<close>

definition irq_configure ::
  "'w gpio_api \<Rightarrow> nat \<Rightarrow> nat \<Rightarrow> mp_obj \<times> u32 \<times> bool \<Rightarrow> 'w pin_state \<Rightarrow> (mp_exc + nat) \<times> 'w pin_state" where
  "irq_configure G i k args s =
     (case (args, pin_line s i) of ((handler, trigger, hard), (port, pin)) \<Rightarrow>
        (let (ret, w) = gpio_pin_interrupt_configure G port pin (GPIO_INT_DISABLE G) (ps_world s);
             s = s\<lparr>ps_world := w\<rparr>
         in if ret \<noteq> 0 then (Inl (OSError (- ret)), s)
            else
              (let s = s\<lparr>ps_irqs := (ps_irqs s)[k := (ps_irqs s ! k)\<lparr>io_handler := handler, io_hard := hard\<rparr>]\<rparr>
               in if handler \<noteq> Mp_None then
                    (let (ret, w) = gpio_pin_interrupt_configure G port pin trigger (ps_world s);
                         s = s\<lparr>ps_world := w\<rparr>
                     in if ret \<noteq> 0 then (Inl (OSError (- ret)), s) else (Inr k, s))
                  else (Inr k, s))))"

definition machine_pin_irq ::
  "'w gpio_api \<Rightarrow> nat \<Rightarrow> (mp_obj \<times> u32 \<times> bool) option \<Rightarrow> 'w pin_state \<Rightarrow> ((mp_exc + nat) \<times> 'w pin_state) option" where
  "machine_pin_irq G i args s =
     (case irq_object G i s of
        None \<Rightarrow> None
      | Some (Inl e, s) \<Rightarrow> Some (Inl e, s)
      | Some (Inr k, s) \<Rightarrow> (case args of None \<Rightarrow> Some (Inr k, s) | Some a \<Rightarrow> Some (irq_configure G i k a s)))"

definition machine_pin_irq_trigger :: "'w gpio_api \<Rightarrow> nat \<Rightarrow> u32 \<Rightarrow> 'w pin_state \<Rightarrow> (mp_exc + int) \<times> 'w pin_state" where
  "machine_pin_irq_trigger G i new_trigger s =
     (case pin_line s i of (port, pin) \<Rightarrow>
        (let trigger = (if new_trigger = 0 then GPIO_INT_DISABLE G else new_trigger);
             (ret, w) = gpio_pin_interrupt_configure G port pin trigger (ps_world s);
             s = s\<lparr>ps_world := w\<rparr>
         in if ret \<noteq> 0 then (Inl (OSError (- ret)), s) else (Inr 0, s)))"

datatype irq_info = MP_IRQ_INFO_FLAGS | MP_IRQ_INFO_TRIGGERS | MP_IRQ_INFO_OTHER

definition machine_pin_irq_info :: "'w gpio_api \<Rightarrow> nat \<Rightarrow> irq_info \<Rightarrow> 'w pin_state \<Rightarrow> int" where
  "machine_pin_irq_info G i info_type s =
     (case info_type of
        MP_IRQ_INFO_FLAGS \<Rightarrow> gpio_get_pending_int G (fst (pin_line s i)) (ps_world s)
      | MP_IRQ_INFO_TRIGGERS \<Rightarrow> 0
      | MP_IRQ_INFO_OTHER \<Rightarrow> 0)"

section \<open>Timers\<close>

datatype timer_mode = TIMER_MODE_ONE_SHOT | TIMER_MODE_PERIODIC | TIMER_MODE_OTHER int

definition TIMER_MS_PER_TICK :: nat where "TIMER_MS_PER_TICK = 1000"

text \<open>Timers have addresses from 1 on; the kernel's timer is a parameter.\<close>

record timer_obj =
  to_mode :: timer_mode
  to_period_ms :: u32
  to_callback :: mp_obj
  to_ishard :: bool
  to_next :: nat

record 'w timer_state =
  ts_objs :: "nat \<Rightarrow> timer_obj"
  ts_fresh :: nat
  ts_head :: nat
  ts_world :: 'w

text \<open>The arguments: mode, callback, period, frequency (\<open>None\<close> when not given), hard.\<close>

type_synonym timer_args = "timer_mode \<times> mp_obj \<times> u32 \<times> mp_obj \<times> bool"

text \<open>What a program, or a callback that runs in the middle of an interrupt, can do with timers.\<close>

datatype timer_call =
    Call_make "mp_obj option" "timer_args option"
  | Call_init nat timer_args
  | Call_deinit nat

text \<open>
  The kernel's timer and the interpreter: its numbers in floating point, and calling back into Python, which gives a
  result (negative for an exception nobody caught) after the callback has used timers itself.
\<close>

record ('w, 'f) k_timer_api =
  k_timer_start :: "nat \<Rightarrow> u32 \<Rightarrow> 'w \<Rightarrow> 'w"
  k_timer_stop :: "nat \<Rightarrow> 'w \<Rightarrow> 'w"
  k_timer_remaining_ms :: "nat \<Rightarrow> 'w \<Rightarrow> int"
  mp_irq_dispatch :: "mp_obj \<Rightarrow> nat \<Rightarrow> bool \<Rightarrow> 'w \<Rightarrow> int \<times> timer_call list \<times> 'w"
  mp_obj_get_float :: "mp_obj \<Rightarrow> mp_exc + 'f"
  mp_floats :: "'f float_ops"
  float_to_uint32 :: "'f \<Rightarrow> u32 option"

text \<open>Taking a timer out of the list: the timer before it, or 0 at the front; \<open>None\<close> when it is not there.\<close>

partial_function (option) timer_before :: "(nat \<Rightarrow> timer_obj) \<Rightarrow> nat \<Rightarrow> nat \<Rightarrow> nat \<Rightarrow> nat option option" where
  "timer_before objs self prev t =
     (if t = 0 then Some None
      else if t = self then Some (Some prev)
      else timer_before objs self t (to_next (objs t)))"

definition machine_timer_deinit :: "('w, 'f) k_timer_api \<Rightarrow> nat \<Rightarrow> 'w timer_state \<Rightarrow> 'w timer_state option" where
  "machine_timer_deinit K self s =
     (let s = s\<lparr>ts_world := k_timer_stop K self (ts_world s)\<rparr>
      in case timer_before (ts_objs s) self 0 (ts_head s) of
           None \<Rightarrow> None
         | Some None \<Rightarrow> Some s
         | Some (Some prev) \<Rightarrow>
             (let after = to_next (ts_objs s self)
              in Some (if prev \<noteq> 0 then s\<lparr>ts_objs := (ts_objs s)(prev := (ts_objs s prev)\<lparr>to_next := after\<rparr>)\<rparr>
                       else s\<lparr>ts_head := after\<rparr>)))"

text \<open>
  The period is that of a frequency when there is one: the quotient, cut down to 32 bits without sign, which is undefined for one that does
  not fit, as that by 0.  A frequency that is no number raises before anything is set.
\<close>

definition freq_period :: "('w, 'f) k_timer_api \<Rightarrow> 'f \<Rightarrow> u32 option" where
  "freq_period K freq = float_to_uint32 K (fl_div (mp_floats K) (fl_of_int (mp_floats K) (int TIMER_MS_PER_TICK)) freq)"

definition machine_timer_init_helper ::
  "('w, 'f) k_timer_api \<Rightarrow> nat \<Rightarrow> timer_args \<Rightarrow> 'w timer_state \<Rightarrow> ((mp_exc + unit) \<times> 'w timer_state) option" where
  "machine_timer_init_helper K self args s =
     (case args of (mode, callback, period, freq, hard) \<Rightarrow>
        (case (if freq \<noteq> Mp_None then map_sum id (freq_period K) (mp_obj_get_float K freq) else Inr (Some period)) of
           Inl e \<Rightarrow> Some (Inl e, s)
         | Inr p \<Rightarrow> do {
             period_ms \<leftarrow> p;
             Some (Inr (), s\<lparr>ts_objs := (ts_objs s)(self := (ts_objs s self)\<lparr>to_mode := mode, to_period_ms := period_ms,
                               to_callback := callback, to_ishard := hard\<rparr>),
                             ts_world := k_timer_start K self period_ms (ts_world s)\<rparr>)
           }))"

definition machine_timer_make_new ::
  "('w, 'f) k_timer_api \<Rightarrow> mp_obj option \<Rightarrow> timer_args option \<Rightarrow> 'w timer_state \<Rightarrow>
   ((mp_exc + nat) \<times> 'w timer_state) option" where
  "machine_timer_make_new K id_arg args s =
     (case (case id_arg of None \<Rightarrow> Inr (- 1) | Some v \<Rightarrow> mp_obj_get_int v) of
        Inl e \<Rightarrow> Some (Inl e, s)
      | Inr ident \<Rightarrow>
          if ident \<noteq> -1 then Some (Inl (ValueError ''only virtual timers are supported''), s)
          else
            (let self = ts_fresh s;
                 s = s\<lparr>ts_fresh := Suc self,
                       ts_objs := (ts_objs s)(self := (ts_objs s self)\<lparr>to_next := ts_head s\<rparr>), ts_head := self\<rparr>
             in case args of
                  None \<Rightarrow> Some (Inr self, s)
                | Some a \<Rightarrow> map_option (\<lambda>(r, s). (map_sum id (\<lambda>_. self) r, s)) (machine_timer_init_helper K self a s)))"

definition machine_timer_init ::
  "('w, 'f) k_timer_api \<Rightarrow> nat \<Rightarrow> timer_args \<Rightarrow> 'w timer_state \<Rightarrow> ((mp_exc + unit) \<times> 'w timer_state) option" where
  "machine_timer_init K self args s = machine_timer_init_helper K self args s"

definition call_exec :: "('w, 'f) k_timer_api \<Rightarrow> timer_call \<Rightarrow> 'w timer_state \<Rightarrow> 'w timer_state option" where
  "call_exec K c s =
     (case c of
        Call_make i a \<Rightarrow> map_option snd (machine_timer_make_new K i a s)
      | Call_init k a \<Rightarrow> map_option snd (machine_timer_init K k a s)
      | Call_deinit k \<Rightarrow> machine_timer_deinit K k s)"

primrec calls_exec :: "('w, 'f) k_timer_api \<Rightarrow> timer_call list \<Rightarrow> 'w timer_state \<Rightarrow> 'w timer_state option" where
  "calls_exec K [] s = Some s"
| "calls_exec K (c # cs) s = Option.bind (call_exec K c s) (calls_exec K cs)"

text \<open>
  A timer has expired.  The callback may use any timer, this one too, before the handler goes on and looks at
  the mode that the timer has then.  A callback that raised is not called again.
\<close>

definition machine_timer_callback :: "('w, 'f) k_timer_api \<Rightarrow> nat \<Rightarrow> 'w timer_state \<Rightarrow> 'w timer_state option" where
  "machine_timer_callback K self s =
     (let t = ts_objs s self;
          (r, calls, w) = mp_irq_dispatch K (to_callback t) self (to_ishard t) (ts_world s)
      in do {
        s \<leftarrow> calls_exec K calls (s\<lparr>ts_world := w\<rparr>);
        let s = (if r < 0 then s\<lparr>ts_objs := (ts_objs s)(self := (ts_objs s self)\<lparr>to_mode := TIMER_MODE_ONE_SHOT\<rparr>)\<rparr> else s);
        if to_mode (ts_objs s self) = TIMER_MODE_ONE_SHOT then machine_timer_deinit K self s else Some s
      })"

definition machine_timer_value :: "('w, 'f) k_timer_api \<Rightarrow> nat \<Rightarrow> 'w timer_state \<Rightarrow> mp_obj" where
  "machine_timer_value K self s = small_int (k_timer_remaining_ms K self (ts_world s))"

section \<open>References between pins and interrupts\<close>

text \<open>
  Every reference leads to an object; an interrupt object belongs to the line of each pin that refers to it;
  the list has one interrupt for a line at most.
\<close>

definition pins_typed :: "'w pin_state \<Rightarrow> bool" where
  "pins_typed s \<longleftrightarrow>
     (\<forall>i k. i < length (ps_pins s) \<longrightarrow> po_irq (ps_pins s ! i) = Some k \<longrightarrow>
        k < length (ps_irqs s) \<and> irq_line s k = pin_line s i) \<and>
     (\<forall>k < length (ps_irqs s). io_parent (ps_irqs s ! k) < length (ps_pins s)) \<and>
     (\<forall>k \<in> set (ps_irq_list s). k < length (ps_irqs s)) \<and>
     distinct (map (irq_line s) (ps_irq_list s))"

text \<open>Until the interrupts are taken back, the interrupt of a pin is in the list.\<close>

definition irqs_listed :: "'w pin_state \<Rightarrow> bool" where
  "irqs_listed s \<longleftrightarrow> (\<forall>i k. i < length (ps_pins s) \<longrightarrow> po_irq (ps_pins s ! i) = Some k \<longrightarrow> k \<in> set (ps_irq_list s))"

lemma irq_line_alt: "irq_line s k = (let p = ps_pins s ! io_parent (ps_irqs s ! k) in (po_port p, po_pin p))"
  by (simp add: irq_line_def pin_line_def Let_def)

lemma pins_typed_world [simp]: "pins_typed (s\<lparr>ps_world := w\<rparr>) = pins_typed s"
  by (simp add: pins_typed_def irq_line_def pin_line_def cong: map_cong)

lemma irqs_listed_world [simp]: "irqs_listed (s\<lparr>ps_world := w\<rparr>) = irqs_listed s"
  by (simp add: irqs_listed_def)

lemma pin_line_link [simp]:
  "pin_line (s\<lparr>ps_pins := (ps_pins s)[i := (ps_pins s ! i)\<lparr>po_irq := x\<rparr>]\<rparr>) j = pin_line s j"
  by (cases "i < length (ps_pins s)") (auto simp: pin_line_def nth_list_update list_update_beyond)

lemma irq_line_link [simp]:
  "irq_line (s\<lparr>ps_pins := (ps_pins s)[i := (ps_pins s ! i)\<lparr>po_irq := x\<rparr>]\<rparr>) = irq_line s"
proof
  fix k
  show "irq_line (s\<lparr>ps_pins := (ps_pins s)[i := (ps_pins s ! i)\<lparr>po_irq := x\<rparr>]\<rparr>) k = irq_line s k"
    unfolding irq_line_def pin_line_link by simp
qed

lemma pins_typed_link:
  assumes "pins_typed s" "i < length (ps_pins s)" "k < length (ps_irqs s)" "irq_line s k = pin_line s i"
  shows "pins_typed (s\<lparr>ps_pins := (ps_pins s)[i := (ps_pins s ! i)\<lparr>po_irq := Some k\<rparr>]\<rparr>)"
  using assms unfolding pins_typed_def pin_line_link irq_line_link by (auto simp: nth_list_update split: if_splits)

lemma irqs_listed_link:
  "irqs_listed s \<Longrightarrow> k \<in> set (ps_irq_list s) \<Longrightarrow>
   irqs_listed (s\<lparr>ps_pins := (ps_pins s)[i := (ps_pins s ! i)\<lparr>po_irq := Some k\<rparr>]\<rparr>)"
  unfolding irqs_listed_def
  by (metis (no_types, lifting) length_list_update nth_list_update_eq nth_list_update_neq option.inject pin_obj.select_convs(3)
      pin_obj.surjective pin_obj.update_convs(3) pin_state.select_convs(1,3) pin_state.surjective pin_state.update_convs(1))

lemma irq_line_list [simp]: "irq_line (s\<lparr>ps_irq_list := ks\<rparr>) = irq_line s" "pin_line (s\<lparr>ps_irq_list := ks\<rparr>) = pin_line s"
  by (simp_all add: irq_line_def pin_line_def fun_eq_iff)

lemma irq_line_new_irq:
  "k < length (ps_irqs s) \<Longrightarrow> irq_line (s\<lparr>ps_irqs := ps_irqs s @ [x]\<rparr>) k = irq_line s k"
  "irq_line (s\<lparr>ps_irqs := ps_irqs s @ [x]\<rparr>) (length (ps_irqs s)) = pin_line s (io_parent x)"
  by (simp_all add: irq_line_def pin_line_def nth_append)

lemma pins_typed_new_irq:
  assumes ok: "pins_typed s" and p: "io_parent x < length (ps_pins s)"
  shows "pins_typed (s\<lparr>ps_irqs := ps_irqs s @ [x]\<rparr>)" (is "pins_typed ?s")
proof -
  have "map (irq_line ?s) (ps_irq_list s) = map (irq_line s) (ps_irq_list s)"
    using ok by (intro map_cong) (auto simp: irq_line_new_irq pins_typed_def)
  then have lines: "distinct (map (irq_line ?s) (ps_irq_list s))"
    using ok unfolding pins_typed_def by presburger
  have pl: "pin_line ?s = pin_line s" by (simp add: pin_line_def fun_eq_iff)
  show ?thesis
    using ok p lines unfolding pins_typed_def pl by (auto simp: irq_line_new_irq nth_append less_Suc_eq)
qed

lemma pins_typed_listed:
  assumes "pins_typed s" "k < length (ps_irqs s)" "irq_line s k \<notin> irq_line s ` set (ps_irq_list s)"
  shows "pins_typed (s\<lparr>ps_irq_list := k # ps_irq_list s\<rparr>)"
  using assms by (auto simp: pins_typed_def)

lemma pins_typed_irq_object:
  assumes ok: "pins_typed s" and i: "i < length (ps_pins s)" and r: "irq_object G i s = Some (r, s')"
  shows "pins_typed s' \<and> (irqs_listed s \<longrightarrow> irqs_listed s') \<and> length (ps_pins s') = length (ps_pins s) \<and>
    (\<forall>k. r = Inr k \<longrightarrow> k < length (ps_irqs s') \<and> po_irq (ps_pins s' ! i) = Some k)"
proof -
  consider (own) k where "po_irq (ps_pins s ! i) = Some k"
    | (other) k where "po_irq (ps_pins s ! i) = None" "find (\<lambda>k. irq_line s k = pin_line s i) (ps_irq_list s) = Some k"
    | (new) "po_irq (ps_pins s ! i) = None" "find (\<lambda>k. irq_line s k = pin_line s i) (ps_irq_list s) = None"
    by (metis option.exhaust)
  then show ?thesis
  proof cases
    case own
    then show ?thesis using ok i r by (auto simp: irq_object_def pins_typed_def)
  next
    case other
    have k: "k \<in> set (ps_irq_list s)" "irq_line s k = pin_line s i" "k < length (ps_irqs s)"
      using other(2) ok by (auto simp: find_Some_iff pins_typed_def)
    have "r = Inr k" "s' = s\<lparr>ps_pins := (ps_pins s)[i := (ps_pins s ! i)\<lparr>po_irq := Some k\<rparr>]\<rparr>"
      using other r by (simp_all add: irq_object_def)
    then show ?thesis using pins_typed_link [OF ok i k(3,2)] irqs_listed_link k(1,3) i by auto
  next
    case new
    let ?k = "length (ps_irqs s)"
    define t where "t = s\<lparr>ps_irqs := ps_irqs s @ [\<lparr>io_parent = i, io_handler = Mp_None, io_hard = False\<rparr>]\<rparr>"
    have t: "pins_typed t" unfolding t_def using pins_typed_new_irq [OF ok] i by simp
    have listed: "irqs_listed t = irqs_listed s" by (simp add: t_def irqs_listed_def)
    have line: "irq_line t ?k = pin_line t i" by (simp add: t_def irq_line_new_irq pin_line_def)
    have "irq_line t ?k \<notin> irq_line t ` set (ps_irq_list t)"
      using new(2) ok line by (auto simp: find_None_iff t_def irq_line_new_irq pins_typed_def pin_line_def)
    then have u: "pins_typed (t\<lparr>ps_irq_list := ?k # ps_irq_list t\<rparr>)"
      using pins_typed_listed [OF t] by (simp add: t_def)
    define u where "u = t\<lparr>ps_irq_list := ?k # ps_irq_list t\<rparr>"
    have v: "pins_typed (u\<lparr>ps_pins := (ps_pins u)[i := (ps_pins u ! i)\<lparr>po_irq := Some ?k\<rparr>]\<rparr>)"
      using u line i by (intro pins_typed_link) (simp_all add: u_def t_def irq_line_def pin_line_def)
    have l: "irqs_listed s \<longrightarrow> irqs_listed (u\<lparr>ps_pins := (ps_pins u)[i := (ps_pins u ! i)\<lparr>po_irq := Some ?k\<rparr>]\<rparr>)"
      by (intro impI irqs_listed_link) (auto simp: irqs_listed_def u_def t_def)
    define P where "P = unat (po_pin (ps_pins s ! i))"
    obtain ret w where w: "gpio_add_callback G (po_port (ps_pins s ! i)) ?k (push_bit P 1) (ps_world s) = (ret, w)"
      by fastforce
    have "irq_object G i s = (if P \<ge> 32 then None else Some (if ret \<noteq> 0 then (Inl (OSError (- ret)), t\<lparr>ps_world := w\<rparr>)
        else (Inr ?k, u\<lparr>ps_pins := (ps_pins u)[i := (ps_pins u ! i)\<lparr>po_irq := Some ?k\<rparr>]\<rparr>\<lparr>ps_world := w\<rparr>)))"
      using new w by (simp add: irq_object_def u_def t_def Let_def P_def)
    then have cases: "r = Inl (OSError (- ret)) \<and> s' = t\<lparr>ps_world := w\<rparr> \<or>
        r = Inr ?k \<and> s' = u\<lparr>ps_pins := (ps_pins u)[i := (ps_pins u ! i)\<lparr>po_irq := Some ?k\<rparr>]\<rparr>\<lparr>ps_world := w\<rparr>"
      using r by (auto split: if_splits)
    then show ?thesis
    proof
      assume "r = Inl (OSError (- ret)) \<and> s' = t\<lparr>ps_world := w\<rparr>"
      then show ?thesis using t listed by (simp add: t_def)
    next
      assume "r = Inr ?k \<and> s' = u\<lparr>ps_pins := (ps_pins u)[i := (ps_pins u ! i)\<lparr>po_irq := Some ?k\<rparr>]\<rparr>\<lparr>ps_world := w\<rparr>"
      then show ?thesis using v l i by (simp add: u_def t_def)
    qed
  qed
qed

lemma pins_typed_irq_set:
  "pins_typed s \<Longrightarrow> pins_typed (s\<lparr>ps_irqs := (ps_irqs s)[k := (ps_irqs s ! k)\<lparr>io_handler := h, io_hard := b\<rparr>]\<rparr>)"
proof -
  let ?s = "s\<lparr>ps_irqs := (ps_irqs s)[k := (ps_irqs s ! k)\<lparr>io_handler := h, io_hard := b\<rparr>]\<rparr>"
  have par: "io_parent (ps_irqs ?s ! j) = io_parent (ps_irqs s ! j)" for j
    by (cases "k < length (ps_irqs s)") (auto simp: nth_list_update list_update_beyond)
  have pl: "pin_line ?s = pin_line s" by (simp add: pin_line_def fun_eq_iff)
  have il: "irq_line ?s = irq_line s" by (rule ext) (simp only: irq_line_def par pl)
  assume "pins_typed s"
  then show ?thesis unfolding pins_typed_def il pl par by simp
qed

text \<open>What the operations on an existing pin keep.\<close>

definition pins_kept :: "'w pin_state \<Rightarrow> 'w pin_state \<Rightarrow> bool" where
  "pins_kept s s' \<longleftrightarrow> (pins_typed s \<longrightarrow> pins_typed s') \<and> (irqs_listed s \<longrightarrow> irqs_listed s')"

lemma pins_kept_world [intro]: "pins_kept s (s\<lparr>ps_world := w\<rparr>)"
  by (simp add: pins_kept_def)

lemma pins_kept_refl [intro]: "pins_kept s s" by (simp add: pins_kept_def)

lemma pins_kept_trans: "pins_kept s t \<Longrightarrow> pins_kept t u \<Longrightarrow> pins_kept s u" by (auto simp: pins_kept_def)

lemma irq_configure_kept: "pins_kept s (snd (irq_configure G i k a s))"
proof -
  have "pins_kept s (s\<lparr>ps_world := w, ps_irqs := (ps_irqs s)[k := (ps_irqs s ! k)\<lparr>io_handler := h, io_hard := b\<rparr>]\<rparr>)" for w h b
    using pins_typed_irq_set [of "s\<lparr>ps_world := w\<rparr>"] by (simp add: pins_kept_def irqs_listed_def)
  moreover have "pins_kept s (s\<lparr>ps_irqs := (ps_irqs s)[k := (ps_irqs s ! k)\<lparr>io_handler := h, io_hard := b\<rparr>], ps_world := w\<rparr>)" for w h b
    using pins_typed_irq_set [of s] by (simp add: pins_kept_def irqs_listed_def)
  ultimately show ?thesis
    by (auto simp: irq_configure_def Let_def split: prod.splits)
qed

lemma pins_typed_new_pin:
  assumes "pins_typed s"
  shows "pins_typed (s\<lparr>ps_pins := ps_pins s @ [\<lparr>po_port = port, po_pin = pin, po_irq = None\<rparr>]\<rparr>)" (is "pins_typed ?s")
proof -
  have pl: "pin_line ?s i = pin_line s i" if "i < length (ps_pins s)" for i
    using that by (simp add: pin_line_def nth_append)
  have il: "irq_line ?s k = irq_line s k" if "k < length (ps_irqs s)" for k
    using assms that pl by (simp add: pins_typed_def irq_line_def)
  have "map (irq_line ?s) (ps_irq_list s) = map (irq_line s) (ps_irq_list s)"
    using assms il by (intro map_cong) (auto simp: pins_typed_def)
  then have "distinct (map (irq_line ?s) (ps_irq_list s))"
    using assms unfolding pins_typed_def by presburger
  then show ?thesis
    using assms pl il by (auto simp: pins_typed_def nth_append less_Suc_eq)
qed

lemma pins_kept_new_pin:
  "pins_kept s (s\<lparr>ps_pins := ps_pins s @ [\<lparr>po_port = port, po_pin = pin, po_irq = None\<rparr>]\<rparr>)"
  using pins_typed_new_pin by (auto simp: pins_kept_def irqs_listed_def nth_append less_Suc_eq)

lemma configure_new_kept: "pins_kept s (snd (configure_new G settings i s))"
  by (auto simp: configure_new_def Let_def split: option.splits prod.splits)

lemma mp_pin_make_new_kept: "pins_kept s (snd (mp_pin_make_new D G arg settings s))"
  unfolding mp_pin_make_new_def
  by (auto split: mp_arg.splits mp_obj.splits sum.splits
      intro: configure_new_kept pins_kept_trans [OF pins_kept_new_pin configure_new_kept])

section \<open>Runs of a Python program\<close>

inductive pin_step :: "device_api \<Rightarrow> 'w gpio_api \<Rightarrow> 'w pin_state \<Rightarrow> 'w pin_state \<Rightarrow> bool"
  for D :: device_api and G :: "'w gpio_api" where
  Step_make: "(case arg of Mp_Self i \<Rightarrow> i < length (ps_pins s) | Mp_Val _ \<Rightarrow> True) \<Longrightarrow>
    mp_pin_make_new D G arg settings s = (r, s') \<Longrightarrow> pin_step D G s s'"
| Step_value: "i < length (ps_pins s) \<Longrightarrow> machine_pin_value G i val s = (v, s') \<Longrightarrow> pin_step D G s s'"
| Step_off: "i < length (ps_pins s) \<Longrightarrow> machine_pin_off G i s = (v, s') \<Longrightarrow> pin_step D G s s'"
| Step_on: "i < length (ps_pins s) \<Longrightarrow> machine_pin_on G i s = (v, s') \<Longrightarrow> pin_step D G s s'"
| Step_ioctl: "i < length (ps_pins s) \<Longrightarrow> machine_pin_ioctl G i request s = (n, s') \<Longrightarrow> pin_step D G s s'"
| Step_irq: "i < length (ps_pins s) \<Longrightarrow> machine_pin_irq G i args s = Some (q, s') \<Longrightarrow> pin_step D G s s'"
| Step_trigger: "i < length (ps_pins s) \<Longrightarrow> machine_pin_irq_trigger G i trigger s = (t, s') \<Longrightarrow> pin_step D G s s'"
| Step_world: "pin_step D G s (s\<lparr>ps_world := w\<rparr>)"

definition no_pins :: "'w \<Rightarrow> 'w pin_state" where
  "no_pins w = \<lparr>ps_pins = [], ps_irqs = [], ps_irq_list = [], ps_world = w\<rparr>"

text \<open>With the end of the program, and another one after it that may still hold the pins.\<close>

inductive pin_reach :: "device_api \<Rightarrow> 'w gpio_api \<Rightarrow> 'w pin_state \<Rightarrow> bool"
  for D :: device_api and G :: "'w gpio_api" where
  Reach_start: "pin_reach D G (no_pins w)"
| Reach_step: "pin_reach D G s \<Longrightarrow> pin_step D G s s' \<Longrightarrow> pin_reach D G s'"
| Reach_deinit: "pin_reach D G s \<Longrightarrow> pin_reach D G (machine_pin_deinit G s)"

lemma machine_pin_irq_kept:
  assumes "pins_typed s" "i < length (ps_pins s)" "machine_pin_irq G i args s = Some (q, s')"
  shows "pins_kept s s'"
proof -
  obtain r t where o: "irq_object G i s = Some (r, t)"
    using assms(3) by (auto simp: machine_pin_irq_def split: option.splits)
  have t: "pins_kept s t"
    using pins_typed_irq_object [OF assms(1,2) o] by (simp add: pins_kept_def)
  have "s' = t \<or> (\<exists>k a. irq_configure G i k a t = (q, s'))"
    using assms(3) o by (cases r; cases args) (auto simp: machine_pin_irq_def split: option.splits)
  then show ?thesis using t irq_configure_kept pins_kept_trans by (metis snd_conv)
qed

lemma pin_step_kept: "pin_step D G s s' \<Longrightarrow> pins_typed s \<Longrightarrow> pins_kept s s'"
proof (induction rule: pin_step.induct)
  case (Step_make arg s settings r s')
  then show ?case using mp_pin_make_new_kept [of s D G arg settings] by simp
next
  case Step_irq
  then show ?case using machine_pin_irq_kept by blast
next
  case Step_world
  then show ?case by blast
qed (auto simp: machine_pin_value_def machine_pin_call_def machine_pin_off_def machine_pin_on_def
    machine_pin_ioctl_def machine_pin_irq_trigger_def Let_def split: option.splits prod.splits pin_request.splits if_splits)

lemma no_pins_ok: "pins_typed (no_pins w)" "irqs_listed (no_pins w)"
  by (simp_all add: no_pins_def pins_typed_def irqs_listed_def)

lemma machine_pin_deinit_typed: "pins_typed s \<Longrightarrow> pins_typed (machine_pin_deinit G s)"
  by (auto simp: machine_pin_deinit_def pins_typed_def irq_line_def pin_line_def)

lemma pin_steps_ok: "(pin_step D G)\<^sup>*\<^sup>* (no_pins w) s \<Longrightarrow> pins_typed s \<and> irqs_listed s"
  by (induction rule: rtranclp_induct) (auto simp: no_pins_ok dest: pin_step_kept simp: pins_kept_def)

text \<open>
  Claim C32. Whatever a program does with pins and interrupts, and whatever the drivers answer, every
  reference leads to an object, the interrupt of a pin belongs to the pin's own line, and the list never has
  two interrupts for one line.
\<close>

theorem machine_pins_well_typed:
  assumes "pin_reach D G s"
  shows "pins_typed s"
  using assms
  by induction (auto simp: no_pins_ok machine_pin_deinit_typed dest: pin_step_kept simp: pins_kept_def)

text \<open>
  Claim C33. Two pin objects for one line that have interrupts share one, so that giving one a new handler
  does not leave the other one's registered beside it.
\<close>

theorem machine_pins_share_irq:
  assumes "(pin_step D G)\<^sup>*\<^sup>* (no_pins w) s"
    and "i < length (ps_pins s)" and "j < length (ps_pins s)"
    and "pin_line s i = pin_line s j"
    and "po_irq (ps_pins s ! i) = Some k" and "po_irq (ps_pins s ! j) = Some l"
  shows "k = l"
proof -
  note ok = pin_steps_ok [OF assms(1)]
  have "k \<in> set (ps_irq_list s)" "l \<in> set (ps_irq_list s)"
    using ok assms(2,3,5,6) by (auto simp: irqs_listed_def)
  moreover have "irq_line s k = irq_line s l"
    using ok assms(2-6) by (auto simp: pins_typed_def)
  ultimately show ?thesis
    using ok by (auto simp: pins_typed_def distinct_map dest: inj_onD)
qed

text \<open>A board with one port, whose drivers accept everything.\<close>

definition board_devices :: device_api where
  "board_devices = \<lparr>device_get_binding = (\<lambda>n. if n = [71] then Some 1 else None),
     device_get_by_dt_nodelabel = Map.empty, dt_metadata = False\<rparr>"

definition board_gpio :: "unit gpio_api" where
  "board_gpio = \<lparr>GPIO_INPUT = 1, GPIO_OUTPUT = 2, GPIO_OUTPUT_INIT_HIGH = 4, GPIO_OUTPUT_INIT_LOW = 8,
     GPIO_INT_DISABLE = 16, gpio_pin_configure = (\<lambda>_ _ _ w. (0, w)), gpio_pin_get_raw = (\<lambda>_ _ _. 1),
     gpio_pin_set_raw = (\<lambda>_ _ _ w. (0, w)), gpio_pin_interrupt_configure = (\<lambda>_ _ _ w. (0, w)),
     gpio_add_callback = (\<lambda>_ _ _ w. (0, w)), gpio_remove_callback = (\<lambda>_ _ w. (0, w)),
     gpio_get_pending_int = (\<lambda>_ _. 0)\<rparr>"

lemmas board_defs = board_devices_def board_gpio_def mp_pin_make_new_def configure_new_def device_number_def zephyr_device_find_def
  mp_obj_get_pair_def mp_obj_get_bytes_def mp_obj_get_int_def machine_pin_irq_def irq_object_def irq_line_def pin_line_def
  no_pins_def

definition two_pins :: "unit pin_state" where
  "two_pins = \<lparr>ps_pins = [\<lparr>po_port = 1, po_pin = 3, po_irq = Some 0\<rparr>, \<lparr>po_port = 1, po_pin = 3, po_irq = Some 0\<rparr>],
     ps_irqs = [\<lparr>io_parent = 0, io_handler = Mp_None, io_hard = False\<rparr>], ps_irq_list = [0], ps_world = ()\<rparr>"

lemma two_pins_reached: "(pin_step board_devices board_gpio)\<^sup>*\<^sup>* (no_pins ()) two_pins"
proof -
  let ?pin = "Mp_Val (Mp_Tuple [Mp_Str [71], Mp_Int 3]) :: nat mp_arg"
  let ?new = "\<lparr>po_port = 1, po_pin = 3, po_irq = None\<rparr>"
  let ?a = "no_pins ()\<lparr>ps_pins := [?new]\<rparr>"
  let ?b = "no_pins ()\<lparr>ps_pins := [?new, ?new]\<rparr>"
  let ?c = "two_pins\<lparr>ps_pins := [\<lparr>po_port = 1, po_pin = 3, po_irq = Some 0\<rparr>, ?new]\<rparr>"
  have "pin_step board_devices board_gpio (no_pins ()) ?a"
    by (rule pin_step.Step_make [where arg = ?pin and settings = None and r = "Inr 0"])
       (simp_all add: board_defs)
  moreover have "pin_step board_devices board_gpio ?a ?b"
    by (rule pin_step.Step_make [where arg = ?pin and settings = None and r = "Inr 1"])
       (simp_all add: board_defs)
  moreover have "pin_step board_devices board_gpio ?b ?c"
    by (rule pin_step.Step_irq [where i = 0 and args = None and q = "Inr 0"])
       (simp_all add: board_defs two_pins_def)
  moreover have "pin_step board_devices board_gpio ?c two_pins"
    by (rule pin_step.Step_irq [where i = 1 and args = None and q = "Inr 0"])
       (simp_all add: board_defs two_pins_def)
  ultimately show ?thesis by (meson converse_rtranclp_into_rtranclp rtranclp.rtrancl_refl)
qed

lemma pin_steps_reach: "(pin_step D G)\<^sup>*\<^sup>* (no_pins w) s \<Longrightarrow> pin_reach D G s"
  by (induction rule: rtranclp_induct) (auto intro: pin_reach.intros)

theorem machine_pins_well_typed_witness: "pins_typed two_pins \<and> ps_irq_list two_pins = [0]"
  using machine_pins_well_typed [OF pin_steps_reach [OF two_pins_reached]] by (simp add: two_pins_def)

theorem machine_pins_share_irq_witness:
  "\<exists>k l. po_irq (ps_pins two_pins ! 0) = Some k \<and> po_irq (ps_pins two_pins ! 1) = Some l \<and> k = l"
proof (intro exI conjI)
  show "po_irq (ps_pins two_pins ! 0) = Some 0" "po_irq (ps_pins two_pins ! 1) = Some 0"
    by (simp_all add: two_pins_def)
  then show "(0 :: nat) = 0"
    by (intro machine_pins_share_irq [OF two_pins_reached, of 0 1]) (simp_all add: two_pins_def pin_line_def)
qed

section \<open>The list of timers\<close>

primrec timer_chain :: "(nat \<Rightarrow> timer_obj) \<Rightarrow> nat \<Rightarrow> nat list \<Rightarrow> bool" where
  "timer_chain objs p [] \<longleftrightarrow> p = 0"
| "timer_chain objs p (t # ts) \<longleftrightarrow> p = t \<and> t \<noteq> 0 \<and> timer_chain objs (to_next (objs t)) ts"

definition timers_rep :: "'w timer_state \<Rightarrow> nat list \<Rightarrow> bool" where
  "timers_rep s ts \<longleftrightarrow>
     timer_chain (ts_objs s) (ts_head s) ts \<and> distinct ts \<and> (\<forall>t \<in> set ts. t < ts_fresh s) \<and> 0 < ts_fresh s"

lemma timer_chain_cong:
  "(\<And>t. t \<in> set ts \<Longrightarrow> to_next (objs' t) = to_next (objs t)) \<Longrightarrow> timer_chain objs' p ts = timer_chain objs p ts"
  by (induction ts arbitrary: p) auto

lemma timer_chain_upd [simp]:
  "self \<notin> set ts \<Longrightarrow> timer_chain (objs(self := t)) p ts = timer_chain objs p ts"
  by (rule timer_chain_cong) auto

lemma timer_chain_last:
  "timer_chain objs p (us @ t # ts) \<Longrightarrow> to_next (objs t) = (case ts of [] \<Rightarrow> 0 | u # _ \<Rightarrow> u)"
  by (induction us arbitrary: p) (auto split: list.splits)

lemma timer_chain_app:
  "timer_chain objs p (us @ ts) \<Longrightarrow> ts \<noteq> [] \<Longrightarrow> timer_chain objs (hd ts) ts"
  by (induction us arbitrary: p) (auto simp: neq_Nil_conv)

text \<open>The search ends, and says where the timer is.\<close>

lemma timer_before_found:
  "timer_chain objs p (us @ self # ts) \<Longrightarrow> self \<notin> set us \<Longrightarrow>
   timer_before objs self prev p = Some (Some (if us = [] then prev else last us))"
  by (induction us arbitrary: p prev) (auto simp: timer_before.simps)

lemma timer_before_absent:
  "timer_chain objs p ts \<Longrightarrow> self \<notin> set ts \<Longrightarrow> timer_before objs self prev p = Some None"
  by (induction ts arbitrary: p prev) (auto simp: timer_before.simps)

lemma timer_chain_skip:
  "timer_chain objs p (us @ u # t # ts) \<Longrightarrow> distinct (us @ u # t # ts) \<Longrightarrow>
   timer_chain (objs(u := (objs u)\<lparr>to_next := to_next (objs t)\<rparr>)) p (us @ u # ts)"
  by (induction us arbitrary: p) auto

lemma timers_rep_world [simp]: "timers_rep (s\<lparr>ts_world := w\<rparr>) ts = timers_rep s ts"
  by (simp add: timers_rep_def)

lemma timers_rep_obj:
  "to_next t = to_next (ts_objs s k) \<Longrightarrow> timers_rep (s\<lparr>ts_objs := (ts_objs s)(k := t)\<rparr>) ts = timers_rep s ts"
  unfolding timers_rep_def by (subst timer_chain_cong [of _ "ts_objs s"]) auto

lemma machine_timer_deinit_rep:
  assumes "timers_rep s ts"
  shows "\<exists>s'. machine_timer_deinit K self s = Some s' \<and> timers_rep s' (remove1 self ts)"
proof (cases "self \<in> set ts")
  case False
  then show ?thesis
    using assms by (auto simp: machine_timer_deinit_def Let_def timers_rep_def timer_before_absent remove1_idem)
next
  case True
  then obtain us vs where ts: "ts = us @ self # vs" "self \<notin> set us" by (meson split_list_first)
  have chain: "timer_chain (ts_objs s) (ts_head s) (us @ self # vs)" and d: "distinct (us @ self # vs)"
    using assms ts by (simp_all add: timers_rep_def)
  note before = timer_before_found [OF chain ts(2), of 0]
  have rem: "remove1 self ts = us @ vs" using ts by (simp add: remove1_append)
  show ?thesis
  proof (cases us rule: rev_cases)
    case Nil
    then show ?thesis
      using assms before chain rem ts by (auto simp: machine_timer_deinit_def Let_def timers_rep_def)
  next
    case (snoc us' u)
    have "u \<noteq> 0" using timer_chain_app [of "ts_objs s" "ts_head s" us' "u # self # vs"] chain snoc by auto
    moreover have "timer_chain ((ts_objs s)(u := (ts_objs s u)\<lparr>to_next := to_next (ts_objs s self)\<rparr>)) (ts_head s) (us' @ u # vs)"
      using chain d snoc by (intro timer_chain_skip) auto
    ultimately show ?thesis
      using assms before rem ts snoc by (auto simp: machine_timer_deinit_def Let_def timers_rep_def)
  qed
qed

text \<open>What a call does to the list that is meant; a new timer has the next number.\<close>

definition call_spec :: "timer_call \<Rightarrow> nat \<times> nat list \<Rightarrow> nat \<times> nat list" where
  "call_spec c l =
     (case l of (n, ts) \<Rightarrow>
        (case c of
           Call_make i _ \<Rightarrow> if i \<in> {None, Some (Mp_Int (- 1))} then (Suc n, n # ts) else (n, ts)
         | Call_init _ _ \<Rightarrow> (n, ts)
         | Call_deinit k \<Rightarrow> (n, remove1 k ts)))"

text \<open>The frequencies of a call are no numbers, or such that the period is defined.\<close>

definition args_ok :: "('w, 'f) k_timer_api \<Rightarrow> timer_args \<Rightarrow> bool" where
  "args_ok K a = (case a of (_, _, _, freq, _) \<Rightarrow>
     freq = Mp_None \<or> (case mp_obj_get_float K freq of Inl _ \<Rightarrow> True | Inr f \<Rightarrow> freq_period K f \<noteq> None))"

definition call_ok :: "('w, 'f) k_timer_api \<Rightarrow> timer_call \<Rightarrow> bool" where
  "call_ok K c = (case c of Call_make _ (Some a) \<Rightarrow> args_ok K a | Call_init _ a \<Rightarrow> args_ok K a | _ \<Rightarrow> True)"

lemma machine_timer_init_rep:
  assumes "timers_rep s ts" and "args_ok K a"
  shows "\<exists>r s'. machine_timer_init_helper K k a s = Some (r, s') \<and> timers_rep s' ts \<and> ts_fresh s' = ts_fresh s"
  using assms
  by (cases a) (auto simp: machine_timer_init_helper_def args_ok_def timers_rep_obj Let_def split: sum.splits)

lemma timers_rep_made:
  "timers_rep s ts \<Longrightarrow>
   timers_rep (s\<lparr>ts_fresh := Suc (ts_fresh s), ts_objs := (ts_objs s)(ts_fresh s := (ts_objs s (ts_fresh s))\<lparr>to_next := ts_head s\<rparr>),
     ts_head := ts_fresh s\<rparr>) (ts_fresh s # ts)"
  by (auto simp: timers_rep_def)

lemma timer_ident:
  "(case i of None \<Rightarrow> Inr (- 1) | Some v \<Rightarrow> mp_obj_get_int v) = Inr (- 1) \<longleftrightarrow> i \<in> {None, Some (Mp_Int (- 1))}"
  by (auto simp: mp_obj_get_int_def split: option.splits mp_obj.splits)

lemma machine_timer_make_rep:
  assumes "timers_rep s ts" "call_ok K (Call_make i a)"
  shows "\<exists>r s' l. machine_timer_make_new K i a s = Some (r, s') \<and> call_spec (Call_make i a) (ts_fresh s, ts) = (ts_fresh s', l) \<and>
    timers_rep s' l"
proof (cases "i \<in> {None, Some (Mp_Int (- 1))}")
  case True
  define m where "m = s\<lparr>ts_fresh := Suc (ts_fresh s),
    ts_objs := (ts_objs s)(ts_fresh s := (ts_objs s (ts_fresh s))\<lparr>to_next := ts_head s\<rparr>), ts_head := ts_fresh s\<rparr>"
  have m: "timers_rep m (ts_fresh s # ts)" "ts_fresh m = Suc (ts_fresh s)"
    unfolding m_def by (rule timers_rep_made [OF assms(1)]) simp
  show ?thesis
  proof (cases a)
    case None
    then show ?thesis
      using True m timer_ident [of i] by (auto simp: machine_timer_make_new_def Let_def call_spec_def m_def)
  next
    case (Some b)
    then have "args_ok K b" using assms(2) by (simp add: call_ok_def)
    then obtain r s' where "machine_timer_init_helper K (ts_fresh s) b m = Some (r, s')" "timers_rep s' (ts_fresh s # ts)"
      "ts_fresh s' = ts_fresh m"
      using machine_timer_init_rep [OF m(1)] by blast
    then show ?thesis
      using True Some timer_ident [of i] m(2) by (auto simp: machine_timer_make_new_def Let_def call_spec_def m_def)
  qed
next
  case False
  then show ?thesis
    using assms(1) timer_ident [of i]
    by (auto simp: machine_timer_make_new_def Let_def call_spec_def split: sum.splits)
qed

lemma machine_timer_deinit_fresh: "machine_timer_deinit K self s = Some s' \<Longrightarrow> ts_fresh s' = ts_fresh s"
  by (auto simp: machine_timer_deinit_def Let_def split: option.splits if_splits)

lemma call_exec_rep:
  assumes "timers_rep s ts" and "call_ok K c"
  shows "\<exists>s' l. call_exec K c s = Some s' \<and> call_spec c (ts_fresh s, ts) = (ts_fresh s', l) \<and> timers_rep s' l"
proof (cases c)
  case (Call_make i a)
  then show ?thesis using machine_timer_make_rep [OF assms(1), of K i a] assms(2) by (auto simp: call_exec_def)
next
  case (Call_init k a)
  then show ?thesis
    using machine_timer_init_rep [OF assms(1), of K a k] assms(2)
    by (auto simp: call_exec_def call_spec_def call_ok_def machine_timer_init_def)
next
  case (Call_deinit k)
  then show ?thesis
    using machine_timer_deinit_rep [OF assms(1), of K k] machine_timer_deinit_fresh [of K k s]
    by (auto simp: call_exec_def call_spec_def)
qed

lemma calls_exec_rep:
  fixes K :: "('w, 'f) k_timer_api"
  shows "timers_rep s ts \<Longrightarrow> list_all (call_ok K) cs \<Longrightarrow>
    \<exists>s' l. calls_exec K cs s = Some s' \<and> fold call_spec cs (ts_fresh s, ts) = (ts_fresh s', l) \<and> timers_rep s' l"
proof (induction cs arbitrary: s ts)
  case (Cons c cs)
  obtain s1 l where "call_exec K c s = Some s1" "call_spec c (ts_fresh s, ts) = (ts_fresh s1, l)" "timers_rep s1 l"
    using call_exec_rep [OF Cons.prems(1), of K c] Cons.prems(2) by auto
  then show ?case using Cons.IH [of s1 l] Cons.prems(2) by simp
qed simp

text \<open>
  Claim C34. The chain of timers behaves as a list without duplicates.  Making a timer puts it in front, also when its
  arguments are refused then; starting one again changes nothing; stopping one takes out that timer and no other, if it is
  there.  When a timer expires its callback may do all of this to any timer; after that the timer is taken out if the
  callback raised, or if its mode is then that of a single shot.  The search through the chain always ends.
\<close>

theorem timers_refine_list:
  assumes "timers_rep s ts"
  shows "(list_all (call_ok K) cs \<longrightarrow>
      (\<exists>s' ts'. calls_exec K cs s = Some s' \<and> fold call_spec cs (ts_fresh s, ts) = (ts_fresh s', ts') \<and> timers_rep s' ts')) \<and>
    (mp_irq_dispatch K (to_callback (ts_objs s k)) k (to_ishard (ts_objs s k)) (ts_world s) = (r, cs, w) \<longrightarrow>
     list_all (call_ok K) cs \<longrightarrow>
      (\<exists>s1 ts1 s'. calls_exec K cs (s\<lparr>ts_world := w\<rparr>) = Some s1 \<and> fold call_spec cs (ts_fresh s, ts) = (ts_fresh s1, ts1) \<and>
         machine_timer_callback K k s = Some s' \<and>
         timers_rep s' (if r < 0 \<or> to_mode (ts_objs s1 k) = TIMER_MODE_ONE_SHOT then remove1 k ts1 else ts1)))"
proof (intro conjI impI)
  assume "list_all (call_ok K) cs"
  then show "\<exists>s' ts'. calls_exec K cs s = Some s' \<and> fold call_spec cs (ts_fresh s, ts) = (ts_fresh s', ts') \<and> timers_rep s' ts'"
    using calls_exec_rep [OF assms] by blast
next
  assume d: "mp_irq_dispatch K (to_callback (ts_objs s k)) k (to_ishard (ts_objs s k)) (ts_world s) = (r, cs, w)"
    and ok: "list_all (call_ok K) cs"
  have "timers_rep (s\<lparr>ts_world := w\<rparr>) ts" using assms by simp
  from calls_exec_rep [OF this ok] obtain s1 ts1 where s1: "calls_exec K cs (s\<lparr>ts_world := w\<rparr>) = Some s1"
    "fold call_spec cs (ts_fresh s, ts) = (ts_fresh s1, ts1)" "timers_rep s1 ts1"
    by auto
  let ?n = "s1\<lparr>ts_objs := (ts_objs s1)(k := (ts_objs s1 k)\<lparr>to_mode := TIMER_MODE_ONE_SHOT\<rparr>)\<rparr>"
  have n: "timers_rep ?n ts1" using s1(3) by (subst timers_rep_obj) simp_all
  have "\<exists>s'. machine_timer_callback K k s = Some s' \<and>
      timers_rep s' (if r < 0 \<or> to_mode (ts_objs s1 k) = TIMER_MODE_ONE_SHOT then remove1 k ts1 else ts1)"
    using d s1 machine_timer_deinit_rep [OF n, of K k] machine_timer_deinit_rep [OF s1(3), of K k]
    by (auto simp: machine_timer_callback_def Let_def)
  then show "\<exists>s1 ts1 s'. calls_exec K cs (s\<lparr>ts_world := w\<rparr>) = Some s1 \<and> fold call_spec cs (ts_fresh s, ts) = (ts_fresh s1, ts1) \<and>
      machine_timer_callback K k s = Some s' \<and>
      timers_rep s' (if r < 0 \<or> to_mode (ts_objs s1 k) = TIMER_MODE_ONE_SHOT then remove1 k ts1 else ts1)"
    using s1(1,2) by blast
qed

text \<open>
  These are operations one after the other, or one within the callback of another.  A timer that expires while a
  program is making one, between the two assignments that put it in front of the list, is not such a case: if it was at the head
  of the list and has done its single shot, it has been taken out, and comes back with the second assignment.
\<close>

lemma timer_make_interrupted:
  assumes "timers_rep s (t # ts)"
    and "s1 = s\<lparr>ts_fresh := Suc (ts_fresh s), ts_objs := (ts_objs s)(ts_fresh s := (ts_objs s (ts_fresh s))\<lparr>to_next := ts_head s\<rparr>)\<rparr>"
    and "to_mode (ts_objs s t) = TIMER_MODE_ONE_SHOT"
    and "mp_irq_dispatch K (to_callback (ts_objs s t)) t (to_ishard (ts_objs s t)) (ts_world s) = (r, [], w)"
  shows "\<exists>s2. machine_timer_callback K t s1 = Some s2 \<and> timers_rep s2 ts \<and>
    timers_rep (s2\<lparr>ts_head := ts_fresh s\<rparr>) (ts_fresh s # t # ts)"
proof -
  have t: "t \<noteq> ts_fresh s" "ts_head s = t" "t \<noteq> 0" using assms(1) by (auto simp: timers_rep_def)
  have rep: "timers_rep s1 (t # ts)" using assms(1) unfolding assms(2) by (auto simp: timers_rep_def)
  define s2 where "s2 = s1\<lparr>ts_world := w\<rparr>"
  define s3 where "s3 = (if r < 0 then s2\<lparr>ts_objs := (ts_objs s2)(t := (ts_objs s2 t)\<lparr>to_mode := TIMER_MODE_ONE_SHOT\<rparr>)\<rparr> else s2)"
  have "timers_rep s2 (t # ts)" using rep by (simp add: s2_def)
  then have "timers_rep s3 (t # ts)" by (auto simp: s3_def intro: timers_rep_obj [THEN iffD2])
  moreover have "to_mode (ts_objs s3 t) = TIMER_MODE_ONE_SHOT" "ts_head s3 = t" "ts_fresh s3 = Suc (ts_fresh s)"
    "to_next (ts_objs s3 (ts_fresh s)) = t"
    using assms(3) t by (auto simp: s3_def s2_def assms(2))
  ultimately have s3: "to_mode (ts_objs s3 t) = TIMER_MODE_ONE_SHOT" "timers_rep s3 (t # ts)" "ts_head s3 = t"
    "ts_fresh s3 = Suc (ts_fresh s)" "to_next (ts_objs s3 (ts_fresh s)) = t" by simp_all
  have "timer_before (ts_objs s3) t 0 t = Some (Some 0)" using t(3) by (simp add: timer_before.simps)
  then have "machine_timer_deinit K t s3 = Some (s3\<lparr>ts_world := k_timer_stop K t (ts_world s3), ts_head := to_next (ts_objs s3 t)\<rparr>)"
    by (simp add: machine_timer_deinit_def s3)
  moreover have "machine_timer_callback K t s1 = machine_timer_deinit K t s3"
    using assms(3,4) t(1) by (simp add: machine_timer_callback_def s3_def s2_def assms(2) Let_def)
  ultimately show ?thesis
    using s3(2-5) t(1) assms(1) by (auto simp: timers_rep_def)
qed

definition some_timers :: "unit timer_state" where
  "some_timers = \<lparr>ts_objs = (\<lambda>t. \<lparr>to_mode = TIMER_MODE_PERIODIC, to_period_ms = 10, to_callback = Mp_None,
     to_ishard = True, to_next = t - 1\<rparr>), ts_fresh = 4, ts_head = 3, ts_world = ()\<rparr>"

text \<open>A callback that stops another timer and makes one, and raises.\<close>

definition some_kernel :: "(unit, rat) k_timer_api" where
  "some_kernel = \<lparr>k_timer_start = (\<lambda>_ _ w. w), k_timer_stop = (\<lambda>_ w. w), k_timer_remaining_ms = (\<lambda>_ _. 0),
     mp_irq_dispatch = (\<lambda>_ _ _ w. (-1, [Call_deinit 3, Call_make None (Some (TIMER_MODE_PERIODIC, Mp_None, 10, Mp_Int 50, False))], w)),
     mp_obj_get_float = (\<lambda>v. map_sum id of_int (mp_obj_get_int v)), mp_floats = exact_ops,
     float_to_uint32 = (\<lambda>x. if 0 \<le> x \<and> x < 4294967296 then Some (word_of_int \<lfloor>x\<rfloor>) else None)\<rparr>"

theorem timers_refine_list_witness:
  "(\<exists>s' ts'. calls_exec some_kernel [Call_deinit 2] some_timers = Some s' \<and> timers_rep s' [3, 1]) \<and>
   (\<exists>s'. machine_timer_callback some_kernel 2 some_timers = Some s' \<and> timers_rep s' [4, 1])"
proof
  have rep: "timers_rep some_timers [3, 2, 1]" by (simp add: timers_rep_def some_timers_def)
  note both = timers_refine_list [OF rep]
  have "list_all (call_ok some_kernel) [Call_deinit 2]" by (simp add: call_ok_def)
  then show "\<exists>s' ts'. calls_exec some_kernel [Call_deinit 2] some_timers = Some s' \<and> timers_rep s' [3, 1]"
    using conjunct1 [OF both, of some_kernel "[Call_deinit 2]"] by (auto simp: call_spec_def)
  let ?cs = "[Call_deinit 3, Call_make None (Some (TIMER_MODE_PERIODIC, Mp_None, 10, Mp_Int 50, False))]"
  have "list_all (call_ok some_kernel) ?cs"
    by (simp add: call_ok_def args_ok_def some_kernel_def freq_period_def exact_ops_def TIMER_MS_PER_TICK_def mp_obj_get_int_def)
  moreover have "mp_irq_dispatch some_kernel c 2 h () = (-1, ?cs, ())" for c h by (simp add: some_kernel_def)
  ultimately show "\<exists>s'. machine_timer_callback some_kernel 2 some_timers = Some s' \<and> timers_rep s' [4, 1]"
    using conjunct2 [OF both, of some_kernel 2 "-1" ?cs "()"] by (auto simp: call_spec_def some_timers_def)
qed

end
