(* ===== verification/Machine_Uart.thy ===== *)
theory Machine_Uart
  imports Machine_Devices
begin

text \<open>
  The serial ports of Python programs (\<open>app/micropython/machine_uart.c\<close>): reading and writing
  through two ring buffers that the interrupt handler fills and drains.

  MicroPython's ring buffer and the driver are parameters over states \<open>'r\<close> and \<open>'d\<close>;
  \<open>rbuf_ok\<close> and \<open>port_ok\<close> name what is relied on.  What happens during a pause is a parameter as
  well: it is where the interrupts come in.
\<close>

section \<open>Interfaces and state\<close>

record 'r rbuf_ops =
  ringbuf_bytes :: "'r \<Rightarrow> bytes"
  ringbuf_avail :: "'r \<Rightarrow> nat"
  ringbuf_free :: "'r \<Rightarrow> nat"
  ringbuf_alloc :: "int \<Rightarrow> 'r"
  ringbuf_get_bytes :: "nat \<Rightarrow> 'r \<Rightarrow> bytes \<times> 'r"
  ringbuf_put_bytes :: "bytes \<Rightarrow> 'r \<Rightarrow> 'r"

datatype uart_parity = UART_CFG_PARITY_NONE | UART_CFG_PARITY_ODD | UART_CFG_PARITY_EVEN
datatype uart_stop = UART_CFG_STOP_BITS_1 | UART_CFG_STOP_BITS_2
datatype uart_bits = UART_CFG_DATA_BITS_5 | UART_CFG_DATA_BITS_6 | UART_CFG_DATA_BITS_7 | UART_CFG_DATA_BITS_8 | UART_CFG_DATA_BITS_9
datatype uart_flow = UART_CFG_FLOW_CTRL_NONE | UART_CFG_FLOW_CTRL_RTS_CTS

record uart_config =
  uc_baudrate :: u32
  uc_parity :: uart_parity
  uc_stop_bits :: uart_stop
  uc_data_bits :: uart_bits
  uc_flow_ctrl :: uart_flow

record 'd port_ops =
  uart_configure :: "uart_config \<Rightarrow> 'd \<Rightarrow> int \<times> 'd"
  uart_irq_rx_enable :: "'d \<Rightarrow> 'd"
  uart_irq_rx_disable :: "'d \<Rightarrow> 'd"
  uart_irq_tx_enable :: "'d \<Rightarrow> 'd"
  uart_irq_tx_disable :: "'d \<Rightarrow> 'd"
  uart_irq_update :: "'d \<Rightarrow> 'd"
  uart_irq_is_pending :: "'d \<Rightarrow> bool"
  uart_irq_rx_ready :: "'d \<Rightarrow> bool"
  uart_irq_tx_ready :: "'d \<Rightarrow> int"
  uart_irq_tx_complete :: "'d \<Rightarrow> bool"
  uart_fifo_read :: "nat \<Rightarrow> 'd \<Rightarrow> (int \<times> bytes) \<times> 'd"
  uart_fifo_fill :: "bytes \<Rightarrow> 'd \<Rightarrow> 'd"
  uart_poll_out :: "u8 \<Rightarrow> 'd \<Rightarrow> 'd"
  hal_signal_event :: "'d \<Rightarrow> 'd"
  uart_line :: "'d \<Rightarrow> bytes"
  uart_waiting :: "'d \<Rightarrow> bytes"
  uart_coming :: "'d \<Rightarrow> bytes"
  uart_tx_on :: "'d \<Rightarrow> bool"
  uart_unsettled :: "'d \<Rightarrow> nat"

record 'r machine_uart =
  mu_timeout :: u16
  mu_timeout_char :: u16
  mu_rx :: 'r
  mu_tx :: 'r
  mu_tx_complete :: bool

definition MACHINE_UART_RTS :: int where "MACHINE_UART_RTS = 1"
definition MACHINE_UART_CTS :: int where "MACHINE_UART_CTS = 2"
definition UART_RING_BUF_DEF_SIZE :: int where "UART_RING_BUF_DEF_SIZE = 128"

section \<open>Configuration\<close>

text \<open>The arguments, all integers but for the parity.\<close>

record uart_args =
  ua_baudrate :: int
  ua_bits :: int
  ua_parity :: mp_obj
  ua_stop :: int
  ua_txbuf :: int
  ua_rxbuf :: int
  ua_timeout :: int
  ua_timeout_char :: int
  ua_flow :: int

definition uart_default_args :: uart_args where
  "uart_default_args = \<lparr>ua_baudrate = 115200, ua_bits = 8, ua_parity = Mp_None, ua_stop = 1, ua_txbuf = UART_RING_BUF_DEF_SIZE,
     ua_rxbuf = UART_RING_BUF_DEF_SIZE, ua_timeout = 0, ua_timeout_char = 0, ua_flow = 0\<rparr>"

definition arg_data_bits :: "int \<Rightarrow> mp_exc + uart_bits" where
  "arg_data_bits bits =
     (if bits = 5 then Inr UART_CFG_DATA_BITS_5 else if bits = 6 then Inr UART_CFG_DATA_BITS_6
      else if bits = 7 then Inr UART_CFG_DATA_BITS_7 else if bits = 8 then Inr UART_CFG_DATA_BITS_8
      else if bits = 9 then Inr UART_CFG_DATA_BITS_9 else Inl (OSError_msg ''invalid data bits'' [] 0))"

definition arg_parity :: "mp_obj \<Rightarrow> mp_exc + uart_parity" where
  "arg_parity parity =
     (if parity = Mp_None then Inr UART_CFG_PARITY_NONE
      else sbind (mp_obj_get_int parity) (\<lambda>p.
        if p = 0 then Inr UART_CFG_PARITY_EVEN else if p = 1 then Inr UART_CFG_PARITY_ODD
        else Inl (OSError_msg ''invalid parity'' [] 0)))"

definition arg_stop_bits :: "int \<Rightarrow> mp_exc + uart_stop" where
  "arg_stop_bits stop =
     (if stop = 1 then Inr UART_CFG_STOP_BITS_1 else if stop = 2 then Inr UART_CFG_STOP_BITS_2
      else Inl (OSError_msg ''invalid stop bits'' [] 0))"

definition arg_flow_ctrl :: "int \<Rightarrow> mp_exc + uart_flow" where
  "arg_flow_ctrl flow =
     (if flow = 0 then Inr UART_CFG_FLOW_CTRL_NONE
      else if flow = (MACHINE_UART_RTS OR MACHINE_UART_CTS) then Inr UART_CFG_FLOW_CTRL_RTS_CTS
      else Inl (OSError_msg ''invalid flow control'' [] 0))"

definition uart_config_of :: "uart_args \<Rightarrow> mp_exc + uart_config" where
  "uart_config_of a =
     sbind (arg_data_bits (ua_bits a)) (\<lambda>data_bits.
     sbind (arg_parity (ua_parity a)) (\<lambda>parity.
     sbind (arg_stop_bits (ua_stop a)) (\<lambda>stop_bits.
     sbind (arg_flow_ctrl (ua_flow a)) (\<lambda>flow_ctrl.
       Inr \<lparr>uc_baudrate = word_of_int (ua_baudrate a), uc_parity = parity, uc_stop_bits = stop_bits,
            uc_data_bits = data_bits, uc_flow_ctrl = flow_ctrl\<rparr>))))"

definition mp_machine_uart_init_helper ::
  "'r rbuf_ops \<Rightarrow> 'd port_ops \<Rightarrow> uart_args \<Rightarrow> 'r machine_uart \<Rightarrow> 'd \<Rightarrow> (mp_exc + unit) \<times> 'r machine_uart \<times> 'd" where
  "mp_machine_uart_init_helper R D a self d =
     (let self = self\<lparr>mu_timeout := word_of_int (ua_timeout a), mu_timeout_char := word_of_int (ua_timeout_char a)\<rparr>
      in case uart_config_of a of
           Inl e \<Rightarrow> (Inl e, self, d)
         | Inr cfg \<Rightarrow>
             (let (ret, d) = uart_configure D cfg d
              in if ret < 0 then (Inl (OSError (- ret)), self, d)
                 else (Inr (), self\<lparr>mu_tx := ringbuf_alloc R (ua_txbuf a), mu_rx := ringbuf_alloc R (ua_rxbuf a)\<rparr>,
                       uart_irq_rx_enable D d)))"

definition mp_machine_uart_make_new ::
  "'r rbuf_ops \<Rightarrow> 'd port_ops \<Rightarrow> device_api \<Rightarrow> mp_obj \<Rightarrow> uart_args \<Rightarrow> 'r machine_uart \<Rightarrow> 'd \<Rightarrow>
   (mp_exc + dev) \<times> 'r machine_uart \<times> 'd" where
  "mp_machine_uart_make_new R D A ident a self d =
     (case zephyr_device_find A ident of
        Inl e \<Rightarrow> (Inl e, self, d)
      | Inr dv \<Rightarrow>
          (case mp_machine_uart_init_helper R D a (self\<lparr>mu_tx_complete := True\<rparr>) d of
             (r, self, d) \<Rightarrow> (map_sum id (\<lambda>_. dv) r, self, d)))"

definition mp_machine_uart_deinit :: "'d port_ops \<Rightarrow> 'd \<Rightarrow> 'd" where
  "mp_machine_uart_deinit D d = uart_irq_tx_disable D (uart_irq_rx_disable D d)"

section \<open>Reading and writing\<close>

definition mp_machine_uart_any :: "'r rbuf_ops \<Rightarrow> 'r machine_uart \<Rightarrow> nat" where
  "mp_machine_uart_any R self = ringbuf_avail R (mu_rx self)"

definition mp_machine_uart_txdone :: "'r rbuf_ops \<Rightarrow> 'r machine_uart \<Rightarrow> bool" where
  "mp_machine_uart_txdone R self \<longleftrightarrow> mu_tx_complete self \<and> ringbuf_avail R (mu_tx self) = 0"

text \<open>
  A round of reading takes what is there, or sleeps a millisecond.  It goes on until there was a pause as
  long as the timeout, which is the one between characters after the first of them.
\<close>

definition store_at :: "nat \<Rightarrow> bytes \<Rightarrow> bytes \<Rightarrow> bytes" where
  "store_at n data buffer = take n buffer @ data @ drop (n + length data) buffer"

function read_loop ::
  "'r rbuf_ops \<Rightarrow> ('r machine_uart \<times> 'd \<Rightarrow> 'r machine_uart \<times> 'd) \<Rightarrow> nat \<Rightarrow> nat \<Rightarrow> nat \<Rightarrow> nat \<Rightarrow> bytes \<Rightarrow>
   'r machine_uart \<times> 'd \<Rightarrow> nat \<times> bytes \<times> 'r machine_uart \<times> 'd" where
  "read_loop R k_msleep sz elapsed_ms time_to_wait bytes_read buffer s =
     (let rx_len = min (ringbuf_avail R (mu_rx (fst s))) (sz - bytes_read)
      in if rx_len > 0 then
           (case ringbuf_get_bytes R rx_len (mu_rx (fst s)) of (data, rx) \<Rightarrow>
              (let buffer = store_at bytes_read data buffer;
                   bytes_read = bytes_read + rx_len;
                   s = ((fst s)\<lparr>mu_rx := rx\<rparr>, snd s);
                   time_to_wait = unat (mu_timeout_char (fst s))
               in if 0 < time_to_wait \<and> bytes_read < sz
                  then read_loop R k_msleep sz 0 time_to_wait bytes_read buffer s else (bytes_read, buffer, s)))
         else
           (let s = k_msleep s; elapsed_ms = Suc elapsed_ms
            in if elapsed_ms < time_to_wait \<and> bytes_read < sz
               then read_loop R k_msleep sz elapsed_ms time_to_wait bytes_read buffer s else (bytes_read, buffer, s)))"
  by pat_completeness auto
termination
  by (relation "measures [\<lambda>(R, sl, sz, e, w, n, b, s). sz - n, \<lambda>(R, sl, sz, e, w, n, b, s). w - e]") auto

definition mp_machine_uart_read ::
  "'r rbuf_ops \<Rightarrow> ('r machine_uart \<times> 'd \<Rightarrow> 'r machine_uart \<times> 'd) \<Rightarrow> bytes \<Rightarrow> 'r machine_uart \<times> 'd \<Rightarrow>
   nat \<times> bytes \<times> 'r machine_uart \<times> 'd" where
  "mp_machine_uart_read R k_msleep buffer s =
     read_loop R k_msleep (length buffer) 0 (unat (mu_timeout (fst s))) 0 buffer s"

text \<open>Waiting until everything is sent; events that never come are \<open>None\<close>.\<close>

partial_function (option) wait_txdone ::
  "'r rbuf_ops \<Rightarrow> ('r machine_uart \<times> 'd \<Rightarrow> 'r machine_uart \<times> 'd) \<Rightarrow> 'r machine_uart \<times> 'd \<Rightarrow> ('r machine_uart \<times> 'd) option" where
  "wait_txdone R mp_event_wait s =
     (if mp_machine_uart_txdone R (fst s) then Some s else wait_txdone R mp_event_wait (mp_event_wait s))"

definition mp_machine_uart_write ::
  "'r rbuf_ops \<Rightarrow> 'd port_ops \<Rightarrow> ('r machine_uart \<times> 'd \<Rightarrow> 'r machine_uart \<times> 'd) \<Rightarrow> bytes \<Rightarrow> 'r machine_uart \<times> 'd \<Rightarrow>
   (nat \<times> 'r machine_uart \<times> 'd) option" where
  "mp_machine_uart_write R D mp_event_wait buffer s = do {
     (self, d) \<leftarrow> wait_txdone R mp_event_wait s;
     let free_space = ringbuf_free R (mu_tx self);
     let ex_size = (if length buffer > free_space then length buffer - free_space else 0);
     let d = fold (uart_poll_out D) (take ex_size buffer) d;
     let self = self\<lparr>mu_tx := ringbuf_put_bytes R (drop ex_size buffer) (mu_tx self), mu_tx_complete := False\<rparr>;
     Some (length buffer, self, uart_irq_tx_enable D d)
   }"

datatype stream_request = MP_STREAM_POLL bool bool | MP_STREAM_FLUSH | MP_STREAM_OTHER

text \<open>Polling asks for two conditions and is told which of them hold.\<close>

definition mp_machine_uart_ioctl ::
  "'r rbuf_ops \<Rightarrow> ('r machine_uart \<times> 'd \<Rightarrow> 'r machine_uart \<times> 'd) \<Rightarrow> stream_request \<Rightarrow> 'r machine_uart \<times> 'd \<Rightarrow>
   ((int + bool \<times> bool) \<times> 'r machine_uart \<times> 'd) option" where
  "mp_machine_uart_ioctl R mp_event_wait request s =
     (case request of
        MP_STREAM_POLL want_rd want_wr \<Rightarrow>
          Some (Inr (want_rd \<and> mp_machine_uart_any R (fst s) > 0, want_wr \<and> mp_machine_uart_txdone R (fst s)), s)
      | MP_STREAM_FLUSH \<Rightarrow> map_option (Pair (Inr (False, False))) (wait_txdone R mp_event_wait s)
      | MP_STREAM_OTHER \<Rightarrow> Some (Inl EINVAL, s))"

section \<open>The interrupt handler\<close>

text \<open>Receiving: \<open>False\<close> when the round ends here.  Without room a byte is read and dropped.\<close>

definition handler_rx :: "'r rbuf_ops \<Rightarrow> 'd port_ops \<Rightarrow> 'r machine_uart \<times> 'd \<Rightarrow> bool \<times> 'r machine_uart \<times> 'd" where
  "handler_rx R D s =
     (case s of (self, d) \<Rightarrow>
        if uart_irq_rx_ready D d then
          (let free_space = min (ringbuf_free R (mu_rx self)) 32;
               ((rcv_len, data), d) = uart_fifo_read D (if free_space > 0 then free_space else 1) d
           in if rcv_len \<le> 0 \<or> free_space = 0 then (False, self, d)
              else (True, self\<lparr>mu_rx := ringbuf_put_bytes R (take (nat rcv_len) data) (mu_rx self)\<rparr>, d))
        else (True, self, d))"

definition handler_tx :: "'r rbuf_ops \<Rightarrow> 'd port_ops \<Rightarrow> 'r machine_uart \<times> 'd \<Rightarrow> 'r machine_uart \<times> 'd" where
  "handler_tx R D s =
     (case s of (self, d) \<Rightarrow>
        (let room = uart_irq_tx_ready D d
         in if room > 0 then
              (let room = min (nat room) 32; n = ringbuf_avail R (mu_tx self)
               in if n > 0 then
                    (let n = min room n; (data, tx) = ringbuf_get_bytes R n (mu_tx self)
                     in (self\<lparr>mu_tx := tx\<rparr>, uart_fifo_fill D data d))
                  else if uart_irq_tx_complete D d then (self\<lparr>mu_tx_complete := True\<rparr>, uart_irq_tx_disable D d)
                  else (self, d))
            else (self, d)))"

partial_function (option) handler_rounds ::
  "'r rbuf_ops \<Rightarrow> 'd port_ops \<Rightarrow> 'r machine_uart \<times> 'd \<Rightarrow> ('r machine_uart \<times> 'd) option" where
  "handler_rounds R D s =
     (let s = (fst s, uart_irq_update D (snd s))
      in if \<not> uart_irq_is_pending D (snd s) then Some s
         else (case handler_rx R D s of (go_on, s) \<Rightarrow>
                 handler_rounds R D (if go_on then handler_tx R D s else s)))"

definition uart_interrupt_handler ::
  "'r rbuf_ops \<Rightarrow> 'd port_ops \<Rightarrow> 'r machine_uart \<times> 'd \<Rightarrow> ('r machine_uart \<times> 'd) option" where
  "uart_interrupt_handler R D s = handler_rounds R D (fst s, hal_signal_event D (snd s))"

section \<open>What the ring buffer and the driver promise\<close>

definition rbuf_ok :: "'r rbuf_ops \<Rightarrow> bool" where
  "rbuf_ok R \<longleftrightarrow>
     (\<forall>r. ringbuf_avail R r = length (ringbuf_bytes R r)) \<and>
     (\<forall>n r. n \<le> length (ringbuf_bytes R r) \<longrightarrow>
        fst (ringbuf_get_bytes R n r) = take n (ringbuf_bytes R r) \<and>
        ringbuf_bytes R (snd (ringbuf_get_bytes R n r)) = drop n (ringbuf_bytes R r)) \<and>
     (\<forall>bs r. length bs \<le> ringbuf_free R r \<longrightarrow>
        ringbuf_bytes R (ringbuf_put_bytes R bs r) = ringbuf_bytes R r @ bs \<and>
        ringbuf_free R (ringbuf_put_bytes R bs r) = ringbuf_free R r - length bs)"

text \<open>
  The driver, as the calls of Zephyr's interrupt driven interface are documented.  Seen from outside, received bytes wait
  in the device (\<open>uart_waiting\<close>) and others are still to come while the handler runs (\<open>uart_coming\<close>, a finite number);
  \<open>uart_line\<close> is what the device has accepted for sending, in its FIFO or gone; \<open>uart_tx_on\<close> is the sending interrupt.
  The device works by itself between the calls: with each \<open>uart_irq_update\<close> bytes may arrive, and what it is busy with
  comes nearer to its end (\<open>uart_unsettled\<close> updates at most, if nothing new is given to it): the bytes in the sending FIFO,
  and interrupts that are neither of the two that are served here.  Only a device that has settled must be
  complete and have room again; before, \<open>uart_irq_tx_ready\<close> may be 0 and \<open>uart_irq_tx_complete\<close> false, and
  a waiting byte need not raise its interrupt yet.
\<close>

definition moves :: "'d port_ops \<Rightarrow> 'd \<Rightarrow> 'd \<Rightarrow> bool" where
  "moves D d d' \<longleftrightarrow>
     (\<exists>new. uart_waiting D d' = uart_waiting D d @ new \<and> uart_coming D d = new @ uart_coming D d') \<and>
     uart_tx_on D d' = uart_tx_on D d \<and> uart_line D d' = uart_line D d"

definition port_ok :: "'d port_ops \<Rightarrow> bool" where
  "port_ok D \<longleftrightarrow>
     (\<forall>d. moves D d (hal_signal_event D d)) \<and>
     (\<forall>d. moves D d (uart_irq_update D d) \<and>
        (0 < uart_unsettled D d \<longrightarrow> uart_unsettled D (uart_irq_update D d) < uart_unsettled D d) \<and>
        (uart_unsettled D d = 0 \<longrightarrow> uart_unsettled D (uart_irq_update D d) = 0)) \<and>
     (\<forall>d. uart_unsettled D d = 0 \<longrightarrow>
        (uart_irq_is_pending D d \<longrightarrow> uart_irq_rx_ready D d \<or> uart_tx_on D d) \<and>
        (uart_tx_on D d \<longrightarrow> uart_irq_tx_ready D d > 0 \<and> uart_irq_tx_complete D d)) \<and>
     (\<forall>d. uart_irq_rx_ready D d \<longrightarrow> uart_waiting D d \<noteq> []) \<and>
     (\<forall>n d rc data d'. uart_irq_rx_ready D d \<longrightarrow> 0 < n \<longrightarrow> uart_fifo_read D n d = ((rc, data), d') \<longrightarrow>
        0 < rc \<and> rc \<le> int n \<and> rc \<le> int (length (uart_waiting D d)) \<and> take (nat rc) data = take (nat rc) (uart_waiting D d) \<and>
        uart_waiting D d' = drop (nat rc) (uart_waiting D d) \<and> uart_coming D d' = uart_coming D d \<and>
        uart_tx_on D d' = uart_tx_on D d \<and> uart_line D d' = uart_line D d) \<and>
     (\<forall>bs d. int (length bs) \<le> uart_irq_tx_ready D d \<longrightarrow>
        (let d' = uart_fifo_fill D bs d
         in uart_waiting D d' = uart_waiting D d \<and> uart_coming D d' = uart_coming D d \<and> uart_tx_on D d' = uart_tx_on D d \<and>
            uart_line D d' = uart_line D d @ bs)) \<and>
     (\<forall>d. let d' = uart_irq_tx_disable D d
        in uart_waiting D d' = uart_waiting D d \<and> uart_coming D d' = uart_coming D d \<and> \<not> uart_tx_on D d' \<and>
           uart_line D d' = uart_line D d \<and> uart_unsettled D d' \<le> uart_unsettled D d)"

lemma port_okD:
  assumes "port_ok D"
  shows "moves D d (hal_signal_event D d)" "moves D d (uart_irq_update D d)"
    "0 < uart_unsettled D d \<Longrightarrow> uart_unsettled D (uart_irq_update D d) < uart_unsettled D d"
    "uart_unsettled D d = 0 \<Longrightarrow> uart_unsettled D (uart_irq_update D d) = 0"
    "uart_unsettled D d = 0 \<Longrightarrow> uart_irq_is_pending D d \<Longrightarrow> uart_irq_rx_ready D d \<or> uart_tx_on D d"
    "uart_unsettled D d = 0 \<Longrightarrow> uart_tx_on D d \<Longrightarrow> uart_irq_tx_ready D d > 0 \<and> uart_irq_tx_complete D d"
    "uart_irq_rx_ready D d \<Longrightarrow> uart_waiting D d \<noteq> []"
    "uart_irq_rx_ready D d \<Longrightarrow> 0 < n \<Longrightarrow> uart_fifo_read D n d = ((rc, data), d') \<Longrightarrow>
        0 < rc \<and> rc \<le> int n \<and> rc \<le> int (length (uart_waiting D d)) \<and> take (nat rc) data = take (nat rc) (uart_waiting D d) \<and>
        uart_waiting D d' = drop (nat rc) (uart_waiting D d) \<and> uart_coming D d' = uart_coming D d \<and>
        uart_tx_on D d' = uart_tx_on D d \<and> uart_line D d' = uart_line D d"
    "int (length bs) \<le> uart_irq_tx_ready D d \<Longrightarrow> uart_waiting D (uart_fifo_fill D bs d) = uart_waiting D d \<and>
        uart_coming D (uart_fifo_fill D bs d) = uart_coming D d \<and> uart_tx_on D (uart_fifo_fill D bs d) = uart_tx_on D d \<and>
        uart_line D (uart_fifo_fill D bs d) = uart_line D d @ bs"
    "uart_waiting D (uart_irq_tx_disable D d) = uart_waiting D d \<and> uart_coming D (uart_irq_tx_disable D d) = uart_coming D d \<and>
        \<not> uart_tx_on D (uart_irq_tx_disable D d) \<and> uart_line D (uart_irq_tx_disable D d) = uart_line D d \<and>
        uart_unsettled D (uart_irq_tx_disable D d) \<le> uart_unsettled D d"
  using assms unfolding port_ok_def Let_def by blast+

text \<open>
  What a program can see of both.  \<open>served\<close>: the receive buffer has taken the bytes that were read from
  the device, in order, as far as there was room; the line has gone on with what was to be sent; and sending
  is either still on, or was off, or has been switched off with nothing left.
\<close>

definition to_receive :: "'d port_ops \<Rightarrow> 'd \<Rightarrow> bytes" where
  "to_receive D d = uart_waiting D d @ uart_coming D d"

definition tx_view :: "'r rbuf_ops \<Rightarrow> 'd port_ops \<Rightarrow> 'r machine_uart \<times> 'd \<Rightarrow> bytes" where
  "tx_view R D s = uart_line D (snd s) @ ringbuf_bytes R (mu_tx (fst s))"

definition served :: "'r rbuf_ops \<Rightarrow> 'd port_ops \<Rightarrow> 'r machine_uart \<times> 'd \<Rightarrow> 'r machine_uart \<times> 'd \<Rightarrow> bool" where
  "served R D s s' \<longleftrightarrow>
     (\<exists>k \<le> length (to_receive D (snd s)).
        to_receive D (snd s') = drop k (to_receive D (snd s)) \<and>
        ringbuf_bytes R (mu_rx (fst s')) = ringbuf_bytes R (mu_rx (fst s)) @
          take (min k (ringbuf_free R (mu_rx (fst s)))) (to_receive D (snd s)) \<and>
        ringbuf_free R (mu_rx (fst s')) = ringbuf_free R (mu_rx (fst s)) - k) \<and>
     tx_view R D s' = tx_view R D s \<and>
     (uart_tx_on D (snd s) \<longrightarrow> uart_tx_on D (snd s') \<or> ringbuf_bytes R (mu_tx (fst s')) = [] \<and> mu_tx_complete (fst s')) \<and>
     (\<not> uart_tx_on D (snd s) \<longrightarrow> \<not> uart_tx_on D (snd s')) \<and>
     (ringbuf_bytes R (mu_tx (fst s)) = [] \<and> mu_tx_complete (fst s) \<longrightarrow>
        ringbuf_bytes R (mu_tx (fst s')) = [] \<and> mu_tx_complete (fst s'))"

lemma served_refl: "served R D s s"
  by (auto simp: served_def intro: exI [of _ 0])

lemma served_trans:
  assumes "served R D s t" and "served R D t u"
  shows "served R D s u"
proof -
  let ?x = "to_receive D (snd s)" and ?b = "\<lambda>s. ringbuf_bytes R (mu_rx (fst s))" and ?f = "\<lambda>s. ringbuf_free R (mu_rx (fst s))"
  obtain k where k: "k \<le> length ?x" "to_receive D (snd t) = drop k ?x" "?b t = ?b s @ take (min k (?f s)) ?x" "?f t = ?f s - k"
    using assms(1) unfolding served_def by blast
  obtain j where j: "j \<le> length (drop k ?x)" "to_receive D (snd u) = drop j (drop k ?x)"
    "?b u = ?b t @ take (min j (?f t)) (drop k ?x)" "?f u = ?f t - j"
    using assms(2) unfolding served_def k(2) by blast
  have "take (min k (?f s)) ?x @ take (min j (?f s - k)) (drop k ?x) = take (min (k + j) (?f s)) ?x"
  proof (cases "k \<le> ?f s")
    case True
    then have "min (k + j) (?f s) = k + min j (?f s - k)" by simp
    then show ?thesis using True by (simp add: take_add)
  qed simp
  then have "k + j \<le> length ?x \<and> to_receive D (snd u) = drop (k + j) ?x \<and> ?b u = ?b s @ take (min (k + j) (?f s)) ?x \<and>
      ?f u = ?f s - (k + j)"
    using k j by (simp add: add.commute)
  moreover have "tx_view R D u = tx_view R D s" using assms by (simp add: served_def)
  moreover have "uart_tx_on D (snd s) \<longrightarrow> uart_tx_on D (snd u) \<or> ringbuf_bytes R (mu_tx (fst u)) = [] \<and> mu_tx_complete (fst u)"
    "\<not> uart_tx_on D (snd s) \<longrightarrow> \<not> uart_tx_on D (snd u)"
    "ringbuf_bytes R (mu_tx (fst s)) = [] \<and> mu_tx_complete (fst s) \<longrightarrow> ringbuf_bytes R (mu_tx (fst u)) = [] \<and> mu_tx_complete (fst u)"
    using assms unfolding served_def by metis+
  ultimately show ?thesis unfolding served_def by blast
qed

lemma moves_served: "moves D d d' \<Longrightarrow> served R D (self, d) (self, d')"
  by (auto simp: moves_def served_def to_receive_def tx_view_def intro: exI [of _ 0])

text \<open>What is left to do, leaving the device's own work aside.\<close>

definition round_left :: "'r rbuf_ops \<Rightarrow> 'd port_ops \<Rightarrow> 'r machine_uart \<times> 'd \<Rightarrow> nat" where
  "round_left R D s = length (to_receive D (snd s)) + length (ringbuf_bytes R (mu_tx (fst s))) + (if uart_tx_on D (snd s) then 1 else 0)"

lemma handler_rx_effect:
  assumes R: "rbuf_ok R" and D: "port_ok D" and w: "uart_irq_rx_ready D d" and e: "handler_rx R D (self, d) = (go, self', d')"
  shows "served R D (self, d) (self', d') \<and> round_left R D (self', d') < round_left R D (self, d)"
proof -
  let ?f = "ringbuf_free R (mu_rx self)" and ?w = "uart_waiting D d"
  define n where "n = (if min ?f 32 > 0 then min ?f 32 else 1)"
  obtain rc data d1 where f: "uart_fifo_read D n d = ((rc, data), d1)" by (metis prod.exhaust)
  have n: "n > 0" by (simp add: n_def)
  note r = port_okD(8) [OF D w n f]
  have x: "to_receive D d1 = drop (nat rc) (to_receive D d)" "nat rc \<le> length (to_receive D d)"
    "take (nat rc) data = take (nat rc) (to_receive D d)" "0 < nat rc"
    using r by (auto simp: to_receive_def)
  show ?thesis
  proof (cases "?f = 0")
    case True
    then have "self' = self" "d' = d1" using e f w by (auto simp: handler_rx_def Let_def n_def)
    then show ?thesis
      using r x True by (auto simp: served_def tx_view_def round_left_def intro: exI [of _ "nat rc"])
  next
    case False
    have "self' = self\<lparr>mu_rx := ringbuf_put_bytes R (take (nat rc) data) (mu_rx self)\<rparr>" "d' = d1"
      using e f w r False by (auto simp: handler_rx_def Let_def n_def split: if_splits)
    moreover have m: "min (nat rc) ?f = nat rc" "length (take (nat rc) (to_receive D d)) = nat rc" "nat rc \<le> ?f"
      using r x False by (auto simp: n_def)
    moreover have "ringbuf_bytes R (ringbuf_put_bytes R (take (nat rc) (to_receive D d)) (mu_rx self)) =
        ringbuf_bytes R (mu_rx self) @ take (nat rc) (to_receive D d)"
      "ringbuf_free R (ringbuf_put_bytes R (take (nat rc) (to_receive D d)) (mu_rx self)) = ?f - nat rc"
      using R m(2,3) by (auto simp: rbuf_ok_def)
    ultimately show ?thesis
      using r x by (auto simp: served_def tx_view_def round_left_def intro!: exI [of _ "nat rc"])
  qed
qed

text \<open>A round of sending makes progress, or it gives the device nothing to do, which was busy or had sending switched off.\<close>

lemma handler_tx_effect:
  assumes R: "rbuf_ok R" and D: "port_ok D" and e: "handler_tx R D (self, d) = (self', d')"
  shows "served R D (self, d) (self', d') \<and>
    (round_left R D (self', d') < round_left R D (self, d) \<or>
     round_left R D (self', d') = round_left R D (self, d) \<and> uart_unsettled D d' \<le> uart_unsettled D d \<and>
       (uart_unsettled D d = 0 \<longrightarrow> \<not> uart_tx_on D d))"
proof (cases "uart_irq_tx_ready D d > 0")
  case False
  then show ?thesis using e port_okD(6) [OF D, of d] by (auto simp: handler_tx_def Let_def served_refl)
next
  case room: True
  let ?b = "ringbuf_bytes R (mu_tx self)"
  have av: "ringbuf_avail R (mu_tx self) = length ?b" using R by (simp add: rbuf_ok_def)
  show ?thesis
  proof (cases "?b = []")
    case empty: True
    show ?thesis
    proof (cases "uart_irq_tx_complete D d")
      case True
      then have "self' = self\<lparr>mu_tx_complete := True\<rparr>" "d' = uart_irq_tx_disable D d"
        using e room empty av by (auto simp: handler_tx_def Let_def)
      then show ?thesis
        using port_okD(10) [OF D, of d] empty
        by (auto simp: served_def to_receive_def tx_view_def round_left_def intro: exI [of _ 0])
    next
      case False
      then have "self' = self" "d' = d" using e room empty av by (auto simp: handler_tx_def Let_def)
      then show ?thesis using False port_okD(6) [OF D, of d] served_refl by auto
    qed
  next
    case False
    define n where "n = min (min (nat (uart_irq_tx_ready D d)) 32) (length ?b)"
    obtain data tx where g: "ringbuf_get_bytes R n (mu_tx self) = (data, tx)" by fastforce
    have n: "0 < n" "n \<le> length ?b" "int n \<le> uart_irq_tx_ready D d" using room False by (auto simp: n_def)
    have dt: "data = take n ?b" "ringbuf_bytes R tx = drop n ?b"
      using R n(2) g unfolding rbuf_ok_def by (metis fst_conv snd_conv)+
    have "self' = self\<lparr>mu_tx := tx\<rparr>" "d' = uart_fifo_fill D data d"
      using e room False av g by (auto simp: handler_tx_def Let_def n_def)
    moreover have "int (length data) \<le> uart_irq_tx_ready D d" using n dt by simp
    note port_okD(9) [OF D this]
    ultimately show ?thesis
      using dt n False by (auto simp: served_def to_receive_def tx_view_def round_left_def intro: exI [of _ 0])
  qed
qed

lemma handler_returns:
  assumes R: "rbuf_ok R" and D: "port_ok D"
  shows "\<exists>s'. handler_rounds R D s = Some s' \<and> served R D s s' \<and> \<not> uart_irq_is_pending D (snd s')"
proof (induction s rule: wf_induct [OF wf_measures [of "[round_left R D, \<lambda>s. uart_unsettled D (snd s)]"]])
  case (1 s)
  define d where "d = uart_irq_update D (snd s)"
  define self where "self = fst s"
  have s: "s = (self, snd s)" by (simp add: self_def)
  have upd: "served R D s (self, d)"
    using moves_served [OF port_okD(2) [OF D, of "snd s"], of R self] s by (simp add: d_def)
  have left: "round_left R D (self, d) = round_left R D s"
    using port_okD(2) [OF D, of "snd s"] by (auto simp: round_left_def moves_def to_receive_def d_def self_def)
  show ?case
  proof (cases "uart_irq_is_pending D d")
    case False
    then have "handler_rounds R D s = Some (self, d)"
      by (simp add: handler_rounds.simps [of R D s] self_def d_def)
    then show ?thesis using upd False by auto
  next
    case True
    obtain go self1 d1 where rx: "handler_rx R D (self, d) = (go, self1, d1)" by (metis prod.exhaust)
    obtain self2 d2 where tx: "handler_tx R D (self1, d1) = (self2, d2)" by fastforce
    let ?t = "if go then (self2, d2) else (self1, d1)"
    have run: "handler_rounds R D s = handler_rounds R D ?t"
      using True rx tx by (simp add: handler_rounds.simps [of R D s] self_def d_def Let_def)
    note txe = handler_tx_effect [OF R D tx]
    have step: "served R D (self, d) ?t \<and>
        (round_left R D ?t < round_left R D s \<or>
         round_left R D ?t = round_left R D s \<and> uart_unsettled D (snd ?t) < uart_unsettled D (snd s))"
    proof (cases "uart_irq_rx_ready D d")
      case True
      note rxe = handler_rx_effect [OF R D True rx]
      have "served R D (self, d) ?t" using rxe txe served_trans by auto
      moreover have "round_left R D ?t < round_left R D s" using rxe txe left by auto
      ultimately show ?thesis by simp
    next
      case False
      then have g: "go" "self1 = self" "d1 = d" using rx by (simp_all add: handler_rx_def)
      have settle: "uart_unsettled D d < uart_unsettled D (snd s)" if "uart_unsettled D d = 0 \<longrightarrow> \<not> uart_tx_on D d"
      proof -
        have "uart_unsettled D d \<noteq> 0" using that port_okD(5) [OF D, of d] True False by auto
        then have "0 < uart_unsettled D (snd s)" using port_okD(4) [OF D, of "snd s"] by (auto simp: d_def)
        then show ?thesis using port_okD(3) [OF D] by (simp add: d_def)
      qed
      then show ?thesis using txe left g by (auto intro: le_less_trans)
    qed
    then have "(?t, s) \<in> measures [round_left R D, \<lambda>s. uart_unsettled D (snd s)]" by auto
    then obtain s' where "handler_rounds R D ?t = Some s'" "served R D ?t s'" "\<not> uart_irq_is_pending D (snd s')"
      using 1 by blast
    then show ?thesis using run served_trans [OF served_trans [OF upd conjunct1 [OF step]]] by auto
  qed
qed

text \<open>
  Claim C35. The handler returns, with no interrupt pending.  Of the bytes that were waiting in the device or
  arrived meanwhile it has read the first \<open>k\<close>, in order; the receive buffer has taken them as far as it had
  room, the others are dropped.  The line has carried the bytes that were to be sent in order, each once.  When
  the sending interrupt was on, it is on still, or there is nothing left to send and the port says so.
\<close>

theorem machine_uart_handler_returns:
  assumes "rbuf_ok R" and "port_ok D"
  shows "\<exists>self' d' k. uart_interrupt_handler R D (self, d) = Some (self', d') \<and> \<not> uart_irq_is_pending D d' \<and>
    k \<le> length (to_receive D d) \<and> to_receive D d' = drop k (to_receive D d) \<and>
    ringbuf_bytes R (mu_rx self') =
      ringbuf_bytes R (mu_rx self) @ take (min k (ringbuf_free R (mu_rx self))) (to_receive D d) \<and>
    uart_line D d' @ ringbuf_bytes R (mu_tx self') = uart_line D d @ ringbuf_bytes R (mu_tx self) \<and>
    (uart_tx_on D d \<longrightarrow> uart_tx_on D d' \<or> mp_machine_uart_txdone R self')"
proof -
  obtain s' where s': "uart_interrupt_handler R D (self, d) = Some s'" "served R D (self, hal_signal_event D d) s'"
      "\<not> uart_irq_is_pending D (snd s')"
    using handler_returns [OF assms, of "(self, hal_signal_event D d)"] by (auto simp: uart_interrupt_handler_def)
  from served_trans [OF moves_served [OF port_okD(1) [OF assms(2)]] s'(2)]
  have v: "served R D (self, d) s'" .
  then obtain k where "k \<le> length (to_receive D d)" "to_receive D (snd s') = drop k (to_receive D d)"
    "ringbuf_bytes R (mu_rx (fst s')) = ringbuf_bytes R (mu_rx self) @ take (min k (ringbuf_free R (mu_rx self))) (to_receive D d)"
    by (auto simp: served_def)
  moreover have "uart_tx_on D d \<longrightarrow> uart_tx_on D (snd s') \<or> mp_machine_uart_txdone R (fst s')"
    using v assms(1) by (auto simp: served_def mp_machine_uart_txdone_def rbuf_ok_def)
  moreover have "tx_view R D s' = tx_view R D (self, d)" using v by (simp add: served_def)
  ultimately show ?thesis
    using s' by (intro exI [of _ "fst s'"] exI [of _ "snd s'"] exI [of _ k]) (simp add: tx_view_def)
qed

text \<open>A buffer as its contents and its room, and a port.\<close>

definition ex_rbuf :: "(bytes \<times> nat) rbuf_ops" where
  "ex_rbuf = \<lparr>ringbuf_bytes = fst, ringbuf_avail = (\<lambda>(b, f). length b), ringbuf_free = snd,
     ringbuf_alloc = (\<lambda>n. ([], nat n)), ringbuf_get_bytes = (\<lambda>n (b, f). (take n b, (drop n b, f + n))),
     ringbuf_put_bytes = (\<lambda>bs (b, f). if length bs \<le> f then (b @ bs, f - length bs) else (b, f))\<rparr>"

text \<open>
  A port with a sending FIFO of two bytes.  With each update one byte arrives and one leaves the FIFO; with the FIFO full there
  is no room, and sending is complete when it is empty.
\<close>

record ex_dev =
  xd_coming :: bytes
  xd_waiting :: bytes
  xd_fifo :: bytes
  xd_sent :: bytes
  xd_on :: bool

definition ex_port :: "ex_dev port_ops" where
  "ex_port = \<lparr>uart_configure = (\<lambda>_ d. (0, d)), uart_irq_rx_enable = id, uart_irq_rx_disable = id,
     uart_irq_tx_enable = (\<lambda>d. d\<lparr>xd_on := True\<rparr>), uart_irq_tx_disable = (\<lambda>d. d\<lparr>xd_on := False\<rparr>),
     uart_irq_update = (\<lambda>d. d\<lparr>xd_coming := drop 1 (xd_coming d), xd_waiting := xd_waiting d @ take 1 (xd_coming d),
       xd_fifo := drop 1 (xd_fifo d), xd_sent := xd_sent d @ take 1 (xd_fifo d)\<rparr>),
     uart_irq_is_pending = (\<lambda>d. xd_waiting d \<noteq> [] \<or> xd_on d), uart_irq_rx_ready = (\<lambda>d. xd_waiting d \<noteq> []),
     uart_irq_tx_ready = (\<lambda>d. if xd_on d then 2 - int (length (xd_fifo d)) else 0), uart_irq_tx_complete = (\<lambda>d. xd_fifo d = []),
     uart_fifo_read = (\<lambda>n d. ((int (min n (length (xd_waiting d))), take n (xd_waiting d)), d\<lparr>xd_waiting := drop (min n (length (xd_waiting d))) (xd_waiting d)\<rparr>)),
     uart_fifo_fill = (\<lambda>bs d. d\<lparr>xd_fifo := xd_fifo d @ bs\<rparr>), uart_poll_out = (\<lambda>b d. d\<lparr>xd_fifo := xd_fifo d @ [b]\<rparr>),
     hal_signal_event = id, uart_line = (\<lambda>d. xd_sent d @ xd_fifo d), uart_waiting = xd_waiting, uart_coming = xd_coming,
     uart_tx_on = xd_on, uart_unsettled = (\<lambda>d. length (xd_fifo d))\<rparr>"

lemma ex_rbuf_ok: "rbuf_ok ex_rbuf" by (auto simp: rbuf_ok_def ex_rbuf_def)

lemma ex_port_ok: "port_ok ex_port"
  unfolding port_ok_def Let_def by (auto simp: ex_port_def moves_def)

theorem machine_uart_handler_returns_witness:
  "\<exists>self' d' k. uart_interrupt_handler ex_rbuf ex_port
     (\<lparr>mu_timeout = 0, mu_timeout_char = 0, mu_rx = ([1], 1), mu_tx = ([7, 8, 9], 0), mu_tx_complete = False\<rparr>,
      \<lparr>xd_coming = [4], xd_waiting = [2, 3], xd_fifo = [5, 6], xd_sent = [], xd_on = True\<rparr>) = Some (self', d') \<and>
     k \<le> 3 \<and> fst (mu_rx self') = [1] @ take (min k 1) [2, 3, 4] \<and> xd_sent d' @ xd_fifo d' @ fst (mu_tx self') = [5, 6, 7, 8, 9]"
proof -
  let ?self = "\<lparr>mu_timeout = 0, mu_timeout_char = 0, mu_rx = ([1], 1), mu_tx = ([7, 8, 9], 0), mu_tx_complete = False\<rparr> :: (bytes \<times> nat) machine_uart"
    and ?d = "\<lparr>xd_coming = [4], xd_waiting = [2, 3], xd_fifo = [5, 6], xd_sent = [], xd_on = True\<rparr>"
  have v: "to_receive ex_port ?d = [2, 3, 4]" "ringbuf_bytes ex_rbuf r = fst r" "ringbuf_free ex_rbuf r = snd r"
    "uart_line ex_port d = xd_sent d @ xd_fifo d" for r d
    by (simp_all add: to_receive_def ex_port_def ex_rbuf_def)
  from machine_uart_handler_returns [OF ex_rbuf_ok ex_port_ok, of ?self ?d] obtain self' d' k
    where "uart_interrupt_handler ex_rbuf ex_port (?self, ?d) = Some (self', d')" "k \<le> length (to_receive ex_port ?d)"
      "ringbuf_bytes ex_rbuf (mu_rx self') =
        ringbuf_bytes ex_rbuf (mu_rx ?self) @ take (min k (ringbuf_free ex_rbuf (mu_rx ?self))) (to_receive ex_port ?d)"
      "uart_line ex_port d' @ ringbuf_bytes ex_rbuf (mu_tx self') = uart_line ex_port ?d @ ringbuf_bytes ex_rbuf (mu_tx ?self)"
    by blast
  then show ?thesis
    unfolding v by (intro exI [of _ self'] exI [of _ d'] exI [of _ k]) simp
qed

section \<open>Reading and writing keep the order\<close>

text \<open>During a pause received bytes may be added to the buffer.\<close>

definition pause_ok :: "'r rbuf_ops \<Rightarrow> ('r machine_uart \<times> 'd \<Rightarrow> 'r machine_uart \<times> 'd) \<Rightarrow> bool" where
  "pause_ok R pause \<longleftrightarrow>
     (\<forall>s. \<exists>new. ringbuf_bytes R (mu_rx (fst (pause s))) = ringbuf_bytes R (mu_rx (fst s)) @ new)"

lemma store_at_props:
  assumes "n + length data \<le> length buffer"
  shows "length (store_at n data buffer) = length buffer"
    "take (n + length data) (store_at n data buffer) = take n buffer @ data"
    "drop (n + length data) (store_at n data buffer) = drop (n + length data) buffer"
  using assms by (simp_all add: store_at_def)

definition reads_on :: "'r rbuf_ops \<Rightarrow> nat \<Rightarrow> bytes \<Rightarrow> 'r machine_uart \<times> 'd \<Rightarrow> nat \<times> bytes \<times> 'r machine_uart \<times> 'd \<Rightarrow> bool" where
  "reads_on R n buffer s result \<longleftrightarrow>
     (case result of (n', buffer', s') \<Rightarrow>
        n \<le> n' \<and> n' \<le> length buffer \<and> length buffer' = length buffer \<and> drop n' buffer' = drop n' buffer \<and>
        (\<exists>new. take n buffer @ ringbuf_bytes R (mu_rx (fst s)) @ new = take n' buffer' @ ringbuf_bytes R (mu_rx (fst s'))))"

declare read_loop.simps [simp del]

lemma reads_on_more:
  assumes "reads_on R (n + k) (store_at n data buffer) s1 result"
    and "length data = k" "n + k \<le> length buffer"
    and "ringbuf_bytes R (mu_rx (fst s)) = data @ ringbuf_bytes R (mu_rx (fst s1))"
  shows "reads_on R n buffer s result"
proof -
  obtain n' buffer' s' where r: "result = (n', buffer', s')" by (metis prod.exhaust)
  have len: "length (store_at n data buffer) = length buffer" and pre: "take (n + k) (store_at n data buffer) = take n buffer @ data"
    and post: "drop (n + k) (store_at n data buffer) = drop (n + k) buffer"
    using store_at_props [of n data buffer] assms(2,3) by simp_all
  have "drop n' (store_at n data buffer) = drop n' buffer" if "n + k \<le> n'"
    using arg_cong [OF post, of "drop (n' - (n + k))"] that by simp
  then show ?thesis
    using assms(1,4) len pre by (auto simp: reads_on_def r)
qed

lemma reads_on_pause:
  assumes "reads_on R n buffer (pause s) result" "pause_ok R pause"
  shows "reads_on R n buffer s result"
proof -
  obtain new where "ringbuf_bytes R (mu_rx (fst (pause s))) = ringbuf_bytes R (mu_rx (fst s)) @ new"
    using assms(2) unfolding pause_ok_def by blast
  then show ?thesis using assms(1) by (auto simp: reads_on_def)
qed

lemma reads_on_stop: "n \<le> length buffer \<Longrightarrow> reads_on R n buffer s (n, buffer, s)"
  by (simp add: reads_on_def)

lemma read_loop_reads_on:
  "rbuf_ok R \<Longrightarrow> pause_ok R pause \<Longrightarrow> sz = length buffer \<Longrightarrow> n \<le> sz \<Longrightarrow>
   reads_on R n buffer s (read_loop R pause sz e w n buffer s)"
proof (induction R pause sz e w n buffer s rule: read_loop.induct)
  case (1 R pause sz e w n buffer s)
  let ?rx = "ringbuf_bytes R (mu_rx (fst s))"
  define k where "k = min (ringbuf_avail R (mu_rx (fst s))) (sz - n)"
  show ?case
  proof (cases "k > 0")
    case True
    obtain data rx where g: "ringbuf_get_bytes R k (mu_rx (fst s)) = (data, rx)" by fastforce
    have k: "k \<le> length ?rx" "n + k \<le> length buffer" using 1 by (auto simp: k_def rbuf_ok_def)
    have d: "data = take k ?rx" "ringbuf_bytes R rx = drop k ?rx"
      using 1(3) k(1) g unfolding rbuf_ok_def by (metis fst_conv snd_conv)+
    have len: "length data = k" and all: "?rx = data @ ringbuf_bytes R rx" using d k by simp_all
    let ?b = "store_at n data buffer" and ?s = "((fst s)\<lparr>mu_rx := rx\<rparr>, snd s)"
    have lb: "length ?b = length buffer" using store_at_props(1) [of n data buffer] len k by simp
    show ?thesis
    proof (cases "0 < unat (mu_timeout_char (fst s)) \<and> n + k < sz")
      case go: True
      have "reads_on R (n + k) ?b ?s (read_loop R pause sz 0 (unat (mu_timeout_char (fst s))) (n + k) ?b ?s)"
        using 1(1) [OF k_def True g [symmetric] refl refl refl refl] 1(3-) go lb by simp
      then have "reads_on R n buffer s (read_loop R pause sz 0 (unat (mu_timeout_char (fst s))) (n + k) ?b ?s)"
        by (rule reads_on_more [OF _ len k(2)]) (simp add: all)
      then show ?thesis
        using True g go by (subst read_loop.simps) (simp add: Let_def k_def [symmetric])
    next
      case stop: False
      have "reads_on R n buffer s (n + k, ?b, ?s)"
        by (rule reads_on_more [OF reads_on_stop len k(2)]) (use lb k all in simp_all)
      then show ?thesis
        using True g stop by (subst read_loop.simps) (auto simp: Let_def k_def [symmetric])
    qed
  next
    case False
    show ?thesis
    proof (cases "Suc e < w \<and> n < sz")
      case go: True
      have "reads_on R n buffer (pause s) (read_loop R pause sz (Suc e) w n buffer (pause s))"
        using 1(2) [OF k_def False refl refl] 1(3-) go by simp
      then show ?thesis
        using False go reads_on_pause [OF _ 1(4)] by (subst read_loop.simps) (simp add: Let_def k_def [symmetric])
    next
      case stop: False
      then have "read_loop R pause sz e w n buffer s = (n, buffer, pause s)"
        using False by (subst read_loop.simps) (auto simp: Let_def simp flip: k_def)
      then show ?thesis
        using reads_on_pause [OF reads_on_stop 1(4), of n buffer s] 1(5,6) by simp
    qed
  qed
qed

text \<open>
  Claim C36. Reading stays inside the caller's buffer and touches nothing of it behind the bytes it counts;
  these, followed by what is left in the receive buffer, are the bytes that were there and those that arrived
  meanwhile, in order.
\<close>

theorem machine_uart_read_in_order:
  assumes "rbuf_ok R" and "pause_ok R k_msleep"
    and "mp_machine_uart_read R k_msleep buffer s = (n, buffer', s')"
  shows "n \<le> length buffer \<and> length buffer' = length buffer \<and> drop n buffer' = drop n buffer \<and>
    (\<exists>new. ringbuf_bytes R (mu_rx (fst s)) @ new = take n buffer' @ ringbuf_bytes R (mu_rx (fst s')))"
  using read_loop_reads_on [OF assms(1,2) refl, of 0 buffer s 0 "unat (mu_timeout (fst s))"] assms(3)
  by (simp add: mp_machine_uart_read_def reads_on_def)

text \<open>What is written follows what was sent before, in order, also when it is more than the buffer holds.\<close>

lemma fold_poll_out:
  assumes "\<And>b d. uart_line D (uart_poll_out D b d) = uart_line D d @ [b]"
  shows "uart_line D (fold (uart_poll_out D) bs d) = uart_line D d @ bs"
  by (induction bs arbitrary: d) (simp_all add: assms)

lemma wait_txdone_done:
  assumes "wait_txdone R pause s = Some t"
  shows "mp_machine_uart_txdone R (fst t)"
  by (rule wait_txdone.raw_induct [where P = "\<lambda>R p s t. mp_machine_uart_txdone R (fst t)", OF _ assms])
     (auto split: if_splits)

lemma machine_uart_write_in_order:
  assumes R: "rbuf_ok R"
    and D: "\<And>b d. uart_line D (uart_poll_out D b d) = uart_line D d @ [b]" "\<And>d. uart_line D (uart_irq_tx_enable D d) = uart_line D d"
    and e: "mp_machine_uart_write R D pause buffer s = Some (n, s')"
  shows "\<exists>t. wait_txdone R pause s = Some t \<and> n = length buffer \<and> tx_view R D s' = tx_view R D t @ buffer \<and>
    ringbuf_bytes R (mu_tx (fst t)) = []"
proof -
  obtain self d where t: "wait_txdone R pause s = Some (self, d)"
    using e by (auto simp: mp_machine_uart_write_def bind_eq_Some_conv)
  define k where "k = (if length buffer > ringbuf_free R (mu_tx self) then length buffer - ringbuf_free R (mu_tx self) else 0)"
  have empty: "ringbuf_bytes R (mu_tx self) = []"
    using wait_txdone_done [OF t] R by (simp add: mp_machine_uart_txdone_def rbuf_ok_def)
  have "ringbuf_bytes R (ringbuf_put_bytes R (drop k buffer) (mu_tx self)) = drop k buffer"
    using R empty unfolding rbuf_ok_def by (auto simp: k_def)
  then show ?thesis
    using e t empty fold_poll_out [of D, OF D(1)] D(2)
    by (auto simp: mp_machine_uart_write_def Let_def tx_view_def k_def)
qed

theorem machine_uart_read_in_order_witness:
  "\<exists>n b s'. mp_machine_uart_read ex_rbuf (\<lambda>s. s) [0, 0]
      (\<lparr>mu_timeout = 5, mu_timeout_char = 0, mu_rx = ([1, 2, 3], 1), mu_tx = ([], 4), mu_tx_complete = True\<rparr>, ([] :: u8 list)) =
      (n, b, s') \<and> n \<le> 2 \<and> (\<exists>new. [1, 2, 3] @ new = take n b @ fst (mu_rx (fst s')))"
proof -
  let ?s = "(\<lparr>mu_timeout = 5, mu_timeout_char = 0, mu_rx = ([1, 2, 3], 1), mu_tx = ([], 4), mu_tx_complete = True\<rparr>, ([] :: u8 list))"
  obtain n b s' where r: "mp_machine_uart_read ex_rbuf (\<lambda>s. s) [0, 0] ?s = (n, b, s')" by (metis prod.exhaust)
  have "pause_ok ex_rbuf (\<lambda>s :: (bytes \<times> nat) machine_uart \<times> u8 list. s)" by (simp add: pause_ok_def)
  from machine_uart_read_in_order [OF ex_rbuf_ok this r] show ?thesis using r by (auto simp: ex_rbuf_def)
qed

end
