(* ===== verification/Console.thy ===== *)
theory Console
  imports Machine_Pins Mp_Thread
begin

text \<open>
  What Python programs see of the board: the characters of the console
  (\<open>app/micropython/src/zephyr_getchar.c\<close>, \<open>app/micropython/uart_core.c\<close>), waiting and pins for the
  interpreter (\<open>app/micropython/mphalport.c\<close> and its header).

  The kernel, its terminal driver and the interpreter's pending callbacks are parameters.  \<open>None\<close> is
  undefined behaviour or a call that does not return.
\<close>

section \<open>Characters from the console\<close>

definition UART_BUFSIZE :: u16 where "UART_BUFSIZE = 512"

text \<open>The buffer with its indices; keyboard interrupts asked for and characters dropped are counted.\<close>

record console =
  uart_ringbuf :: bytes
  i_get :: u16
  i_put :: u16
  kbd_interrupts :: nat
  dropped :: nat

definition console_start :: console where
  "console_start = \<lparr>uart_ringbuf = replicate 512 0, i_get = 0, i_put = 0, kbd_interrupts = 0, dropped = 0\<rparr>"

definition console_irq_input_hook :: "int \<Rightarrow> u8 \<Rightarrow> console \<Rightarrow> console option" where
  "console_irq_input_hook mp_interrupt_char ch s =
     (let i_next = (ucast (i_put s) + 1 :: u32) AND ucast (UART_BUFSIZE - 1)
      in if i_next = ucast (i_get s) then Some (s\<lparr>dropped := Suc (dropped s)\<rparr>)
         else if uint ch = mp_interrupt_char then Some (s\<lparr>kbd_interrupts := Suc (kbd_interrupts s)\<rparr>)
         else do {
           ring \<leftarrow> wr (uart_ringbuf s) (unat (i_put s)) ch;
           Some (s\<lparr>uart_ringbuf := ring, i_put := ucast i_next\<rparr>)
         })"

definition zephyr_getchar_check :: "console \<Rightarrow> bool" where
  "zephyr_getchar_check s \<longleftrightarrow> i_get s \<noteq> i_put s"

definition zephyr_getchar :: "console \<Rightarrow> (int \<times> console) option" where
  "zephyr_getchar s =
     (if i_get s \<noteq> i_put s then do {
        c \<leftarrow> rd (uart_ringbuf s) (unat (i_get s));
        Some (uint c, s\<lparr>i_get := (i_get s + 1) AND (UART_BUFSIZE - 1)\<rparr>)
      } else Some (-1, s))"

section \<open>Standard input and output\<close>

text \<open>The other way to the characters is the kernel's terminal; its calls are parameters.\<close>

record 't tty_ops =
  tty_ready :: bool
  tty_irq_driven :: bool
  tty_init :: "'t \<Rightarrow> int \<times> 't"
  tty_set_tx_buf :: "nat \<Rightarrow> 't \<Rightarrow> 't"
  tty_set_rx_buf :: "nat \<Rightarrow> 't \<Rightarrow> 't"
  tty_set_rx_timeout :: "int \<Rightarrow> 't \<Rightarrow> 't"
  tty_set_tx_timeout :: "int \<Rightarrow> 't \<Rightarrow> 't"
  tty_write :: "bytes \<Rightarrow> 't \<Rightarrow> int \<times> 't"
  tty_read :: "'t \<Rightarrow> (int \<times> u8) \<times> 't"

definition mp_console_init :: "'t tty_ops \<Rightarrow> nat \<Rightarrow> nat \<Rightarrow> 't \<Rightarrow> int \<times> 't" where
  "mp_console_init T getchar_bufsize putchar_bufsize t =
     (if \<not> tty_ready T then (- ENODEV, t)
      else
        (let (ret, t) = tty_init T t
         in if ret \<noteq> 0 then (ret, t)
            else if getchar_bufsize + putchar_bufsize \<noteq> 0 \<and> \<not> tty_irq_driven T then (- ENOTSUP, t)
            else (0, tty_set_tx_timeout T 2 (tty_set_rx_timeout T 0
                       (tty_set_rx_buf T getchar_bufsize (tty_set_tx_buf T putchar_bufsize t))))))"

definition mp_console_putchar :: "'t tty_ops \<Rightarrow> u8 \<Rightarrow> 't \<Rightarrow> int \<times> 't" where
  "mp_console_putchar T c t = tty_write T [c] t"

definition mp_console_getchar :: "'t tty_ops \<Rightarrow> 't \<Rightarrow> (int \<times> 't) option" where
  "mp_console_getchar T t = (case tty_read T t of ((res, c), t) \<Rightarrow> Some (if res < 0 then res else uint c, t))"

text \<open>Reading a character waits for it, with either way to get one; events happen in the pauses.\<close>

partial_function (option) mp_hal_stdin_rx_chr ::
  "('s \<Rightarrow> (int \<times> 's) option) \<Rightarrow> ('s \<Rightarrow> 's) \<Rightarrow> 's \<Rightarrow> (int \<times> 's) option" where
  "mp_hal_stdin_rx_chr getchar wait_1ms s =
     Option.bind (getchar s) (\<lambda>(chr, s).
       if chr \<ge> 0 then Some (chr, s) else mp_hal_stdin_rx_chr getchar wait_1ms (wait_1ms s))"

definition mp_hal_stdio_poll :: "bool \<Rightarrow> console \<Rightarrow> bool \<Rightarrow> bool \<Rightarrow> bool \<times> bool" where
  "mp_hal_stdio_poll console_subsys s poll_rd poll_wr =
     (poll_rd \<and> (console_subsys \<or> zephyr_getchar_check s), poll_wr)"

text \<open>Writing a string, again and again for a character that is refused; or straight to the line.\<close>

partial_function (option) put_until :: "'t tty_ops \<Rightarrow> ('t \<Rightarrow> 't) \<Rightarrow> u8 \<Rightarrow> 't \<Rightarrow> 't option" where
  "put_until T wait_1ms c t =
     (case mp_console_putchar T c t of (r, t) \<Rightarrow>
        if r = -1 then put_until T wait_1ms c (wait_1ms t) else Some t)"

primrec mp_hal_stdout_tx_strn :: "'t tty_ops \<Rightarrow> ('t \<Rightarrow> 't) \<Rightarrow> bytes \<Rightarrow> 't \<Rightarrow> 't option" where
  "mp_hal_stdout_tx_strn T wait_1ms [] t = Some t"
| "mp_hal_stdout_tx_strn T wait_1ms (c # cs) t =
     Option.bind (put_until T wait_1ms c t) (mp_hal_stdout_tx_strn T wait_1ms cs)"

definition stdout_poll_out :: "(u8 \<Rightarrow> 'd \<Rightarrow> 'd) \<Rightarrow> bytes \<Rightarrow> 'd \<Rightarrow> 'd" where
  "stdout_poll_out uart_poll_out str d = fold uart_poll_out str d"

section \<open>Waiting\<close>

text \<open>
  The count of the interpreter's lock, the states of the two poll events, and the rest of the world.
  Polling, and what other threads do until a lock is free, may change the count.
\<close>

record 'w wait_state =
  ws_gil :: nat
  ws_signaled :: bool
  ws_sem :: bool
  ws_rest :: 'w

record 'w wait_api =
  mp_handle_pending :: "'w \<Rightarrow> mp_exc option \<times> 'w"
  mp_hal_ticks_ms :: "'w \<Rightarrow> u32"
  k_poll :: "bool \<Rightarrow> u32 option \<Rightarrow> nat \<times> 'w \<Rightarrow> (bool \<times> bool) \<times> nat \<times> 'w"
  until_lock_free :: "nat \<times> 'w \<Rightarrow> nat \<times> 'w"

definition gil_exit :: "'w wait_state \<Rightarrow> 'w wait_state" where
  "gil_exit s = s\<lparr>ws_gil := mp_thread_mutex_unlock (ws_gil s)\<rparr>"

definition gil_enter :: "'w wait_api \<Rightarrow> 'w wait_state \<Rightarrow> 'w wait_state option" where
  "gil_enter K s =
     (case until_lock_free K (ws_gil s, ws_rest s) of (g, w) \<Rightarrow>
        map_option (\<lambda>(_, g). s\<lparr>ws_gil := g, ws_rest := w\<rparr>) (mp_thread_mutex_lock True g))"

text \<open>A round: callbacks, which may raise, then the lock is released, then the wait.\<close>

definition wait_begin :: "'w wait_api \<Rightarrow> 'w wait_state \<Rightarrow> mp_exc option \<times> 'w wait_state" where
  "wait_begin K s =
     (let (exc, w) = mp_handle_pending K (ws_rest s); s = s\<lparr>ws_rest := w\<rparr>
      in (exc, if exc = None then gil_exit s else s))"

text \<open>The rest of a round: \<open>Inl\<close> is the return of the function, \<open>Inr\<close> the next round.\<close>

definition wait_poll ::
  "'w wait_api \<Rightarrow> bool \<Rightarrow> bool \<Rightarrow> u32 \<Rightarrow> u32 \<Rightarrow> 'w wait_state \<Rightarrow> ('w wait_state + 'w wait_state) option" where
  "wait_poll K exit_on_event sem timeout_ms t0 s =
     (let dt = mp_hal_ticks_ms K (ws_rest s) - t0;
          wait = (if timeout_ms = -1 then None else Some (if timeout_ms > dt then timeout_ms - dt else 0));
          ((sig, avail), g, w) = k_poll K sem wait (ws_gil s, ws_rest s);
          s = s\<lparr>ws_gil := g, ws_rest := w, ws_signaled := ws_signaled s \<or> sig, ws_sem := ws_sem s \<or> avail\<rparr>;
          fin = (\<lambda>s. if mp_hal_ticks_ms K (ws_rest s) - t0 \<ge> timeout_ms then map_option Inl (gil_enter K s) else Some (Inr s))
      in if ws_signaled s then
           (let s = s\<lparr>ws_signaled := False\<rparr>
            in if exit_on_event then map_option Inl (gil_enter K s) else fin s)
         else if sem \<and> ws_sem s then map_option Inl (gil_enter K (s\<lparr>ws_sem := False\<rparr>))
         else fin s)"

partial_function (option) wait_rounds ::
  "'w wait_api \<Rightarrow> bool \<Rightarrow> bool \<Rightarrow> u32 \<Rightarrow> u32 \<Rightarrow> 'w wait_state \<Rightarrow> (mp_exc option \<times> 'w wait_state) option" where
  "wait_rounds K exit_on_event sem timeout_ms t0 s =
     (case wait_begin K s of (exc, s) \<Rightarrow>
        if exc \<noteq> None then Some (exc, s)
        else Option.bind (wait_poll K exit_on_event sem timeout_ms t0 s) (\<lambda>r.
          case r of Inl s \<Rightarrow> Some (None, s) | Inr s \<Rightarrow> wait_rounds K exit_on_event sem timeout_ms t0 s))"

definition mp_hal_wait_event ::
  "'w wait_api \<Rightarrow> bool \<Rightarrow> bool \<Rightarrow> u32 \<Rightarrow> 'w wait_state \<Rightarrow> (mp_exc option \<times> 'w wait_state) option" where
  "mp_hal_wait_event K exit_on_event sem timeout_ms s =
     wait_rounds K exit_on_event sem timeout_ms (mp_hal_ticks_ms K (ws_rest s)) (if sem then s\<lparr>ws_sem := False\<rparr> else s)"

definition mp_hal_delay_ms :: "'w wait_api \<Rightarrow> u32 \<Rightarrow> 'w wait_state \<Rightarrow> (mp_exc option \<times> 'w wait_state) option" where
  "mp_hal_delay_ms K delay s = mp_hal_wait_event K False False delay s"

definition wait_for_event :: "'w wait_api \<Rightarrow> int \<Rightarrow> 'w wait_state \<Rightarrow> (mp_exc option \<times> 'w wait_state) option" where
  "wait_for_event K timeout_ms s =
     mp_hal_wait_event K True False (if timeout_ms < 0 then -1 else word_of_int timeout_ms) s"

section \<open>Pins for the interpreter\<close>

definition mp_hal_get_pin_obj :: "nat mp_arg \<Rightarrow> mp_exc + nat" where
  "mp_hal_get_pin_obj pin_in = (case pin_in of Mp_Self i \<Rightarrow> Inr i | Mp_Val _ \<Rightarrow> Inl (ValueError ''invalid pin''))"

definition mp_hal_pin_name :: "pin_obj \<Rightarrow> u32" where "mp_hal_pin_name pin = po_pin pin"

definition mp_hal_pin_input :: "'w gpio_api \<Rightarrow> pin_obj \<Rightarrow> 'w \<Rightarrow> 'w" where
  "mp_hal_pin_input G pin w = snd (gpio_pin_configure G (po_port pin) (po_pin pin) (GPIO_INPUT G) w)"

definition mp_hal_pin_output :: "'w gpio_api \<Rightarrow> pin_obj \<Rightarrow> 'w \<Rightarrow> 'w" where
  "mp_hal_pin_output G pin w =
     (let (ret, w) = gpio_pin_configure G (po_port pin) (po_pin pin) (GPIO_OUTPUT G OR GPIO_INPUT G) w
      in if ret = - ENOTSUP then snd (gpio_pin_configure G (po_port pin) (po_pin pin) (GPIO_OUTPUT G) w) else w)"

definition mp_hal_pin_open_drain :: "'w gpio_api \<Rightarrow> u32 \<Rightarrow> pin_obj \<Rightarrow> 'w \<Rightarrow> 'w" where
  "mp_hal_pin_open_drain G GPIO_OPEN_DRAIN pin w =
     snd (gpio_pin_configure G (po_port pin) (po_pin pin) (GPIO_OUTPUT G OR GPIO_INPUT G OR GPIO_OPEN_DRAIN) w)"

definition mp_hal_pin_read :: "'w gpio_api \<Rightarrow> pin_obj \<Rightarrow> 'w \<Rightarrow> int" where
  "mp_hal_pin_read G pin w = gpio_pin_get_raw G (po_port pin) (po_pin pin) w"

definition mp_hal_pin_write :: "'w gpio_api \<Rightarrow> pin_obj \<Rightarrow> int \<Rightarrow> 'w \<Rightarrow> 'w" where
  "mp_hal_pin_write G pin v w = snd (gpio_pin_set_raw G (po_port pin) (po_pin pin) v w)"

definition mp_hal_pin_od_low :: "'w gpio_api \<Rightarrow> pin_obj \<Rightarrow> 'w \<Rightarrow> 'w" where
  "mp_hal_pin_od_low G pin w = snd (gpio_pin_set_raw G (po_port pin) (po_pin pin) 0 w)"

definition mp_hal_pin_od_high :: "'w gpio_api \<Rightarrow> pin_obj \<Rightarrow> 'w \<Rightarrow> 'w" where
  "mp_hal_pin_od_high G pin w = snd (gpio_pin_set_raw G (po_port pin) (po_pin pin) 1 w)"

section \<open>The console is a queue of at most 511 characters\<close>

definition console_len :: "console \<Rightarrow> nat" where
  "console_len s = (unat (i_put s) + 512 - unat (i_get s)) mod 512"

definition console_queue :: "console \<Rightarrow> bytes" where
  "console_queue s = map (\<lambda>j. uart_ringbuf s ! ((unat (i_get s) + j) mod 512)) [0..<console_len s]"

definition console_ok :: "console \<Rightarrow> bool" where
  "console_ok s \<longleftrightarrow> length (uart_ringbuf s) = 512 \<and> unat (i_get s) < 512 \<and> unat (i_put s) < 512"

lemma bufsize_mask: "UART_BUFSIZE - 1 = mask 9" "(ucast (UART_BUFSIZE - 1 :: u16) :: u32) = mask 9"
  by (simp_all add: UART_BUFSIZE_def mask_eq_exp_minus_1)

lemma unat_and_mask9: "unat (x AND mask 9 :: 'a::len word) = unat x mod 512"
proof -
  have "x AND mask 9 = take_bit 9 x" by (simp add: take_bit_eq_mask)
  then show ?thesis by (simp only: unsigned_take_bit_eq) (simp add: take_bit_eq_mod)
qed

lemma put_step:
  assumes "unat p < 512"
  shows "unat ((ucast (p :: u16) + 1 :: u32) AND ucast (UART_BUFSIZE - 1)) = Suc (unat p) mod 512"
proof -
  have "unat (ucast p :: u32) = unat p" by (simp add: unsigned_ucast_eq take_bit_nat_eq_self_iff) (use assms in linarith)
  then have "unat (ucast p + 1 :: u32) = Suc (unat p)" using assms by (simp add: unat_word_ariths)
  then show ?thesis by (simp only: bufsize_mask(2) unat_and_mask9)
qed

lemma get_step:
  assumes "unat (g :: u16) < 512"
  shows "unat ((g + 1) AND (UART_BUFSIZE - 1)) = Suc (unat g) mod 512"
proof -
  have "unat (g + 1) = Suc (unat g)" using assms by (simp add: unat_word_ariths)
  then show ?thesis by (simp only: bufsize_mask unat_and_mask9)
qed

text \<open>Arithmetic of indices modulo 512.\<close>

lemma ring_mods:
  fixes p g :: nat
  assumes "p < 512" "g < 512"
  shows "(p + 512 - g) mod 512 = (if g \<le> p then p - g else p + 512 - g)"
    "Suc p mod 512 = (if p = 511 then 0 else Suc p)"
    "j < 512 \<Longrightarrow> (g + j) mod 512 = (if g + j < 512 then g + j else g + j - 512)"
proof -
  show "(p + 512 - g) mod 512 = (if g \<le> p then p - g else p + 512 - g)"
  proof (cases "g \<le> p")
    case True
    then have "p + 512 - g = (p - g) + 512" by simp
    then show ?thesis using True assms(1) by (simp only: mod_add_self2) simp
  qed (use assms in simp)
  show "Suc p mod 512 = (if p = 511 then 0 else Suc p)" using assms by simp
  show "j < 512 \<Longrightarrow> (g + j) mod 512 = (if g + j < 512 then g + j else g + j - 512)"
    using assms by (auto simp: le_mod_geq)
qed

lemma ring_full: "p < 512 \<Longrightarrow> g < 512 \<Longrightarrow> Suc p mod 512 = g \<longleftrightarrow> (p + 512 - g) mod 512 = (511 :: nat)"
  by (simp only: ring_mods) (auto split: if_splits)

lemma ring_last: "p < 512 \<Longrightarrow> g < 512 \<Longrightarrow> (g + (p + 512 - g) mod 512) mod 512 = (p :: nat)"
  by (subst ring_mods(3) [of p]) (auto simp: ring_mods(1))

lemma ring_other: "p < 512 \<Longrightarrow> g < 512 \<Longrightarrow> j < (p + 512 - g) mod 512 \<Longrightarrow> (g + j) mod 512 \<noteq> (p :: nat)"
  by (subst ring_mods(3) [of p]) (auto simp: ring_mods(1) split: if_splits)

lemma ring_grow: "p < 512 \<Longrightarrow> g < 512 \<Longrightarrow> (p + 512 - g) mod 512 \<noteq> 511 \<Longrightarrow>
  (Suc p mod 512 + 512 - g) mod 512 = Suc ((p + 512 - g) mod 512)" for p g :: nat
  using ring_mods(1) [of "Suc p mod 512" g] by (simp add: ring_mods(1)) (auto simp: ring_mods(2) split: if_splits)

lemma ring_shrink: "p < 512 \<Longrightarrow> g < 512 \<Longrightarrow> p \<noteq> g \<Longrightarrow>
  (p + 512 - g) mod 512 = Suc ((p + 512 - Suc g mod 512) mod 512)" for p g :: nat
  using ring_mods(1) [of p "Suc g mod 512"] by (simp add: ring_mods(1)) (auto simp: ring_mods(2) split: if_splits)

lemma ring_empty: "p < 512 \<Longrightarrow> g < 512 \<Longrightarrow> (p + 512 - g) mod 512 = 0 \<longleftrightarrow> p = g" for p g :: nat
  by (auto simp: ring_mods(1) split: if_splits)

lemma length_console_queue [simp]: "length (console_queue s) = console_len s"
  by (simp add: console_queue_def)

lemma console_empty: "console_ok s \<Longrightarrow> console_queue s = [] \<longleftrightarrow> i_get s = i_put s"
  using ring_empty [of "unat (i_put s)" "unat (i_get s)"]
  by (auto simp: console_ok_def console_len_def simp flip: length_0_conv intro: word_eq_unatI)

text \<open>Handing out a character, and what the code does instead of adding one.\<close>

lemma zephyr_getchar_head:
  assumes ok: "console_ok s" and q: "console_queue s = c # cs"
  shows "\<exists>s'. zephyr_getchar s = Some (uint c, s') \<and> console_ok s' \<and> console_queue s' = cs \<and>
    kbd_interrupts s' = kbd_interrupts s \<and> dropped s' = dropped s"
proof -
  let ?g = "unat (i_get s)" and ?p = "unat (i_put s)"
  let ?s = "s\<lparr>i_get := (i_get s + 1) AND (UART_BUFSIZE - 1)\<rparr>"
  have ne: "i_get s \<noteq> i_put s" using console_empty [OF ok] q by auto
  have b: "?g < 512" "?p < 512" "length (uart_ringbuf s) = 512" using ok by (simp_all add: console_ok_def)
  have pg: "?p \<noteq> ?g" using ne word_eq_unatI by fastforce
  have g': "unat (i_get ?s) = Suc ?g mod 512" using get_step [OF b(1)] by simp
  have len: "console_len s = Suc (console_len ?s)"
    using ring_shrink [OF b(2,1) pg] g' by (simp add: console_len_def)
  have "console_queue s = (uart_ringbuf s ! ?g) # console_queue ?s"
    using b by (simp add: console_queue_def len get_step upt_conv_Cons map_Suc_upt [symmetric] mod_add_left_eq del: upt_Suc)
  then have "c = uart_ringbuf s ! ?g" "cs = console_queue ?s" using q by simp_all
  moreover have "zephyr_getchar s = Some (uint (uart_ringbuf s ! ?g), ?s)"
    using ne b by (simp add: zephyr_getchar_def rd_def)
  moreover have "console_ok ?s" using b g' by (simp add: console_ok_def)
  ultimately show ?thesis by auto
qed

lemma console_hook_cases:
  assumes ok: "console_ok s"
  shows "\<exists>s'. console_irq_input_hook intr ch s = Some s' \<and> console_ok s' \<and>
    (if length (console_queue s) = 511
     then console_queue s' = console_queue s \<and> kbd_interrupts s' = kbd_interrupts s \<and> dropped s' = Suc (dropped s)
     else if uint ch = intr
     then console_queue s' = console_queue s \<and> kbd_interrupts s' = Suc (kbd_interrupts s) \<and> dropped s' = dropped s
     else console_queue s' = console_queue s @ [ch] \<and> kbd_interrupts s' = kbd_interrupts s \<and> dropped s' = dropped s)"
proof -
  let ?g = "unat (i_get s)" and ?p = "unat (i_put s)"
  define i_next where "i_next = (ucast (i_put s) + 1 :: u32) AND ucast (UART_BUFSIZE - 1)"
  have b: "?g < 512" "?p < 512" "length (uart_ringbuf s) = 512" using ok by (simp_all add: console_ok_def)
  have nx: "unat i_next = Suc ?p mod 512" unfolding i_next_def by (rule put_step [OF b(2)])
  have ug: "unat (ucast (i_get s) :: u32) = ?g"
    by (simp add: unsigned_ucast_eq take_bit_nat_eq_self_iff) (use b in linarith)
  have full: "i_next = ucast (i_get s) \<longleftrightarrow> length (console_queue s) = 511"
    using ring_full [OF b(2,1)] nx ug by (metis console_len_def length_console_queue word_eq_unatI)
  have same: "console_queue (s\<lparr>dropped := n\<rparr>) = console_queue s" "console_queue (s\<lparr>kbd_interrupts := n\<rparr>) = console_queue s"
    "console_ok (s\<lparr>dropped := n\<rparr>)" "console_ok (s\<lparr>kbd_interrupts := n\<rparr>)" for n
    using ok by (simp_all add: console_queue_def console_len_def console_ok_def)
  define t where "t = s\<lparr>uart_ringbuf := (uart_ringbuf s)[?p := ch], i_put := ucast i_next\<rparr>"
  have t: "unat (i_put t) = Suc ?p mod 512" "unat (i_get t) = ?g" "length (uart_ringbuf t) = 512"
    using nx b by (simp_all add: t_def unsigned_ucast_eq take_bit_nat_eq_self_iff)
  have add: "console_queue t = console_queue s @ [ch]" if n: "console_len s \<noteq> 511"
  proof -
    have len: "console_len t = Suc (console_len s)"
      using ring_grow [OF b(2,1)] n t by (simp add: console_len_def)
    have "uart_ringbuf t ! ((?g + j) mod 512) = uart_ringbuf s ! ((?g + j) mod 512)" if "j < console_len s" for j
      using ring_other [OF b(2,1), of j] that by (simp add: t_def console_len_def)
    moreover have "uart_ringbuf t ! ((?g + console_len s) mod 512) = ch"
      using ring_last [OF b(2,1)] b by (simp add: t_def console_len_def)
    ultimately show ?thesis by (simp add: console_queue_def len t(2))
  qed
  have run: "console_irq_input_hook intr ch s =
      (if console_len s = 511 then Some (s\<lparr>dropped := Suc (dropped s)\<rparr>)
       else if uint ch = intr then Some (s\<lparr>kbd_interrupts := Suc (kbd_interrupts s)\<rparr>) else Some t)"
    using full b by (simp add: console_irq_input_hook_def i_next_def [symmetric] wr_def t_def Let_def)
  have "console_ok t" using t b by (simp add: console_ok_def)
  then show ?thesis using run same add by (simp add: t_def)
qed

text \<open>What happens to the console: characters arrive and are taken.\<close>

datatype console_event = Key u8 | Take

type_synonym console_view = "bytes \<times> nat \<times> nat"

definition console_view :: "console \<Rightarrow> console_view" where
  "console_view s = (console_queue s, kbd_interrupts s, dropped s)"

primrec console_run :: "int \<Rightarrow> console_event list \<Rightarrow> console \<Rightarrow> (int list \<times> console) option" where
  "console_run intr [] s = Some ([], s)"
| "console_run intr (e # es) s =
     (case e of
        Key ch \<Rightarrow> Option.bind (console_irq_input_hook intr ch s) (console_run intr es)
      | Take \<Rightarrow> Option.bind (zephyr_getchar s) (\<lambda>(c, s).
          map_option (\<lambda>(cs, s). (c # cs, s)) (console_run intr es s)))"

text \<open>The queue that is meant: 511 characters, and the interrupt character is not one of them.\<close>

primrec queue_run :: "int \<Rightarrow> console_event list \<Rightarrow> console_view \<Rightarrow> int list \<times> console_view" where
  "queue_run intr [] v = ([], v)"
| "queue_run intr (e # es) v =
     (case (e, v) of
        (Key ch, q, kbd, lost) \<Rightarrow>
          queue_run intr es
            (if length q = 511 then (q, kbd, Suc lost)
             else if uint ch = intr then (q, Suc kbd, lost) else (q @ [ch], kbd, lost))
      | (Take, q, kbd, lost) \<Rightarrow>
          (case q of
             [] \<Rightarrow> (case queue_run intr es (q, kbd, lost) of (cs, v) \<Rightarrow> (-1 # cs, v))
           | c # q \<Rightarrow> (case queue_run intr es (q, kbd, lost) of (cs, v) \<Rightarrow> (uint c # cs, v))))"

lemma zephyr_getchar_none: "console_ok s \<Longrightarrow> console_queue s = [] \<Longrightarrow> zephyr_getchar s = Some (-1, s)"
  by (simp add: console_empty zephyr_getchar_def)

lemma console_start_view: "console_ok console_start" "console_view console_start = ([], 0, 0)"
  by (simp_all add: console_ok_def console_view_def console_queue_def console_len_def console_start_def)

text \<open>
  Claim C37. Whatever characters arrive and are taken in whatever order, the console hands out what a queue
  of at most 511 characters hands out, and counts the same keyboard interrupts and lost characters.  When the
  queue is full the interrupt character is lost like the others.
\<close>

theorem console_refines_queue:
  assumes "console_ok s"
  shows "\<exists>s'. console_run intr es s = Some (fst (queue_run intr es (console_view s)), s') \<and> console_ok s' \<and>
    console_view s' = snd (queue_run intr es (console_view s))"
  using assms
proof (induction es arbitrary: s)
  case (Cons e es)
  show ?case
  proof (cases e)
    case (Key ch)
    obtain s1 where "console_irq_input_hook intr ch s = Some s1" "console_ok s1"
      "console_view s1 = (if length (console_queue s) = 511 then (console_queue s, kbd_interrupts s, Suc (dropped s))
         else if uint ch = intr then (console_queue s, Suc (kbd_interrupts s), dropped s)
         else (console_queue s @ [ch], kbd_interrupts s, dropped s))"
      using console_hook_cases [OF Cons.prems, of intr ch] by (fastforce simp: console_view_def simp del: length_console_queue)
    with Cons.IH [of s1] show ?thesis
      by (simp add: Key console_view_def [of s] del: length_console_queue)
  next
    case Take
    show ?thesis
    proof (cases "console_queue s")
      case Nil
      with Cons.IH [OF Cons.prems] show ?thesis
        using zephyr_getchar_none [OF Cons.prems] by (auto simp: Take console_view_def [of s] split: prod.splits)
    next
      case (Cons c cs)
      obtain s1 where "zephyr_getchar s = Some (uint c, s1)" "console_ok s1" "console_view s1 = (cs, kbd_interrupts s, dropped s)"
        using zephyr_getchar_head [OF Cons.prems Cons] by (auto simp: console_view_def)
      with Cons.IH [of s1] Cons show ?thesis
        by (auto simp: Take console_view_def [of s] split: prod.splits)
    qed
  qed
qed simp

section \<open>A reader that waits\<close>

text \<open>What a source of characters promises to the reader on top of it.\<close>

locale char_source =
  fixes getchar :: "'s \<Rightarrow> (int \<times> 's) option" and queue :: "'s \<Rightarrow> bytes" and ok :: "'s \<Rightarrow> bool"
  assumes get_none: "ok s \<Longrightarrow> queue s = [] \<Longrightarrow> getchar s = Some (-1, s)"
    and get_head: "ok s \<Longrightarrow> queue s = c # cs \<Longrightarrow> \<exists>s'. getchar s = Some (uint c, s') \<and> ok s' \<and> queue s' = cs"
begin

lemma rx_chr_now:
  assumes "ok s" "queue s = c # cs"
  shows "\<exists>s'. mp_hal_stdin_rx_chr getchar pause s = Some (uint c, s') \<and> ok s' \<and> queue s' = cs"
  using get_head [OF assms] by (subst mp_hal_stdin_rx_chr.simps) auto

lemma rx_chr_later:
  assumes "\<And>s. ok s \<Longrightarrow> ok (pause s)" and "ok s"
    and "\<And>k. k < n \<Longrightarrow> queue ((pause ^^ k) s) = []" and "queue ((pause ^^ n) s) = c # cs"
  shows "\<exists>s'. mp_hal_stdin_rx_chr getchar pause s = Some (uint c, s') \<and> ok s' \<and> queue s' = cs"
  using assms(2-)
proof (induction n arbitrary: s)
  case 0
  then show ?case using rx_chr_now by simp
next
  case (Suc n)
  have "queue s = []" using Suc.prems(2) [of 0] by simp
  then have "mp_hal_stdin_rx_chr getchar pause s = mp_hal_stdin_rx_chr getchar pause (pause s)"
    using get_none [OF Suc.prems(1)] by (subst mp_hal_stdin_rx_chr.simps) simp
  moreover have "queue ((pause ^^ k) (pause s)) = []" if "k < n" for k
    using Suc.prems(2) [of "Suc k"] that by (simp add: funpow_swap1)
  ultimately show ?case
    using Suc.IH [of "pause s"] Suc.prems(1,3) assms(1) by (simp add: funpow_swap1)
qed

end

interpretation con: char_source zephyr_getchar console_queue console_ok
proof
  show "console_ok s \<Longrightarrow> console_queue s = [] \<Longrightarrow> zephyr_getchar s = Some (-1, s)" for s
    by (rule zephyr_getchar_none)
  show "\<exists>s'. zephyr_getchar s = Some (uint c, s') \<and> console_ok s' \<and> console_queue s' = cs"
    if "console_ok s" "console_queue s = c # cs" for s c cs
    using zephyr_getchar_head [OF that] by blast
qed

text \<open>
  Reading from the console returns as soon as a character arrives, with the first that did, and
  leaves the others in the queue.
\<close>

lemma console_read_waits:
  assumes "\<And>s. console_ok s \<Longrightarrow> console_ok (pause s)" and "console_ok s"
    and "\<And>k. k < n \<Longrightarrow> console_queue ((pause ^^ k) s) = []" and "console_queue ((pause ^^ n) s) = c # cs"
  shows "\<exists>s'. mp_hal_stdin_rx_chr zephyr_getchar pause s = Some (uint c, s') \<and> console_ok s' \<and> console_queue s' = cs"
  by (rule con.rx_chr_later) (use assms in auto)

theorem console_refines_queue_witness:
  "\<exists>s'. console_run 3 [Key 65, Key 3, Take, Take] console_start = Some ([65, -1], s') \<and> console_view s' = ([], 1, 0)"
  using console_refines_queue [OF console_start_view(1), of 3 "[Key 65, Key 3, Take, Take]"] console_start_view(2)
  by (auto simp del: console_run.simps)

text \<open>A key is pressed in every pause.\<close>

lemma console_read_waits_witness:
  "\<exists>s'. mp_hal_stdin_rx_chr zephyr_getchar (\<lambda>s. case console_irq_input_hook 3 65 s of Some s \<Rightarrow> s | None \<Rightarrow> s) console_start =
     Some (65, s') \<and> console_queue s' = []"
proof -
  let ?pause = "\<lambda>s. case console_irq_input_hook 3 65 s of Some s \<Rightarrow> s | None \<Rightarrow> s"
  have ok: "console_ok (?pause s)" if "console_ok s" for s
    using console_hook_cases [OF that, of 3 65] by auto
  have q: "console_queue console_start = []" using console_start_view(2) by (simp add: console_view_def)
  have "console_queue (?pause console_start) = [65]"
    using console_hook_cases [OF console_start_view(1), of 3 65] q by auto
  then show ?thesis
    using console_read_waits [of ?pause console_start 1 65 "[]", OF ok console_start_view(1)] q by auto
qed

section \<open>Waiting and the interpreter's lock\<close>

lemma wait_poll_returns:
  assumes "wait_poll K False False timeout_ms t0 s = Some (Inl s')"
  shows "\<exists>w g. timeout_ms \<le> mp_hal_ticks_ms K w - t0 \<and> until_lock_free K (g, w) = (Suc (ws_gil s'), ws_rest s')"
proof -
  obtain wait sig avail g w where k: "k_poll K False wait (ws_gil s, ws_rest s) = ((sig, avail), g, w)"
    "wait = (if timeout_ms = -1 then None else Some (if timeout_ms > mp_hal_ticks_ms K (ws_rest s) - t0
       then timeout_ms - (mp_hal_ticks_ms K (ws_rest s) - t0) else 0))"
    by (metis prod.exhaust)
  have late: "timeout_ms \<le> mp_hal_ticks_ms K w - t0"
    using assms k(1) unfolding k(2) by (auto simp: wait_poll_def Let_def split: if_splits)
  obtain n v where u: "until_lock_free K (g, w) = (n, v)" by fastforce
  then have "n = Suc (ws_gil s')" "v = ws_rest s'"
    using assms k(1) unfolding k(2)
    by (auto simp: wait_poll_def Let_def gil_enter_def mp_thread_mutex_lock_def split: if_splits)
  then show ?thesis using late u by auto
qed

text \<open>A delay does not end before its time, whatever events come in between, and then the lock is taken.\<close>

lemma delay_not_shorter:
  assumes "mp_hal_delay_ms K delay s = Some (None, s')"
  shows "\<exists>w g. delay \<le> mp_hal_ticks_ms K w - mp_hal_ticks_ms K (ws_rest s) \<and>
    until_lock_free K (g, w) = (Suc (ws_gil s'), ws_rest s')"
proof -
  define t0 where "t0 = mp_hal_ticks_ms K (ws_rest s)"
  have r: "wait_rounds K False False delay t0 s = Some (None, s')"
    using assms by (simp add: mp_hal_delay_ms_def mp_hal_wait_event_def t0_def)
  have "\<not> False \<longrightarrow> \<not> False \<longrightarrow> fst (None :: mp_exc option, s') = None \<longrightarrow>
      (\<exists>w g. delay \<le> mp_hal_ticks_ms K w - t0 \<and>
         until_lock_free K (g, w) = (Suc (ws_gil (snd (None :: mp_exc option, s'))), ws_rest (snd (None :: mp_exc option, s'))))"
  proof (rule wait_rounds.raw_induct [OF _ r, where P = "\<lambda>K ex sem delay t0 s r. \<not> ex \<longrightarrow> \<not> sem \<longrightarrow> fst r = None \<longrightarrow>
      (\<exists>w g. delay \<le> mp_hal_ticks_ms K w - t0 \<and> until_lock_free K (g, w) = (Suc (ws_gil (snd r)), ws_rest (snd r)))"], intro impI)
    fix rounds K ex sem delay t0 s r
    assume IH: "\<And>K ex sem delay t0 s r. rounds K ex sem delay t0 s = Some r \<Longrightarrow> \<not> ex \<longrightarrow> \<not> sem \<longrightarrow> fst r = None \<longrightarrow>
        (\<exists>w g. delay \<le> mp_hal_ticks_ms K w - t0 \<and> until_lock_free K (g, w) = (Suc (ws_gil (snd r)), ws_rest (snd r)))"
      and e: "(case wait_begin K s of (exc, s) \<Rightarrow> if exc \<noteq> None then Some (exc, s)
        else Option.bind (wait_poll K ex sem delay t0 s) (\<lambda>r. case r of Inl s \<Rightarrow> Some (None, s) | Inr s \<Rightarrow> rounds K ex sem delay t0 s)) = Some r"
      and n: "\<not> ex" "\<not> sem" "fst r = None"
    obtain exc s1 where b: "wait_begin K s = (exc, s1)" by fastforce
    then have "exc = None" using e n(3) unfolding b by (auto split: if_splits)
    then obtain q where q: "wait_poll K ex sem delay t0 s1 = Some q"
      and c: "(case q of Inl s \<Rightarrow> Some (None, s) | Inr s \<Rightarrow> rounds K ex sem delay t0 s) = Some r"
      using e b by (auto simp: bind_eq_Some_conv)
    show "\<exists>w g. delay \<le> mp_hal_ticks_ms K w - t0 \<and> until_lock_free K (g, w) = (Suc (ws_gil (snd r)), ws_rest (snd r))"
    proof (cases q)
      case (Inl s2)
      then have "snd r = s2" using c by auto
      then show ?thesis using wait_poll_returns [of K delay t0 s1 s2] q Inl n by simp
    next
      case (Inr s2)
      then show ?thesis using IH [of K ex sem delay t0 s2 r] c n by simp
    qed
  qed
  then show ?thesis by (simp add: t0_def)
qed

text \<open>
  Claim C38. A delay gives up the interpreter's lock for another thread: when an event comes before the time is
  over and meanwhile another thread has taken the lock, the next round runs the callbacks without the lock and
  then releases it a second time, so that it is free although the other thread is still inside.
\<close>

theorem delay_frees_lock_of_other:
  assumes "wait_begin K s = (None, s1)"
    and "\<And>wait. k_poll K False wait (ws_gil s1, ws_rest s1) = ((True, avail), 0, w)"
    and "mp_hal_ticks_ms K w - t0 < timeout_ms"
    and "mp_handle_pending K w = (None, w')"
  shows "\<exists>s2 s3. wait_poll K False False timeout_ms t0 s1 = Some (Inr s2) \<and> ws_gil s2 = 0 \<and>
    wait_begin K s2 = (None, s3) \<and> ws_gil s3 = 1 \<and>
    wait_rounds K False False timeout_ms t0 s = wait_rounds K False False timeout_ms t0 s2"
proof -
  define s2 where "s2 = s1\<lparr>ws_gil := 0, ws_rest := w, ws_signaled := False, ws_sem := ws_sem s1 \<or> avail\<rparr>"
  have p: "wait_poll K False False timeout_ms t0 s1 = Some (Inr s2)"
    using assms(2,3) by (simp add: wait_poll_def Let_def s2_def not_le)
  moreover have "wait_begin K s2 = (None, gil_exit (s2\<lparr>ws_rest := w'\<rparr>))"
    using assms(4) by (simp add: wait_begin_def s2_def)
  moreover have "ws_gil (gil_exit (s2\<lparr>ws_rest := w'\<rparr>)) = 1"
    by (simp add: gil_exit_def s2_def mp_thread_mutex_unlock_def)
  moreover have "wait_rounds K False False timeout_ms t0 s = wait_rounds K False False timeout_ms t0 s2"
    by (subst wait_rounds.simps) (simp add: assms(1) p)
  moreover have "ws_gil s2 = 0" by (simp add: s2_def)
  ultimately show ?thesis by blast
qed

text \<open>Polling takes a millisecond, an event is always there, and another thread takes the lock at once.\<close>

definition busy_board :: "u32 wait_api" where
  "busy_board = \<lparr>mp_handle_pending = (\<lambda>w. (None, w)), mp_hal_ticks_ms = (\<lambda>w. w),
     k_poll = (\<lambda>sem wait (g, w). ((True, False), 0, w + 1)), until_lock_free = (\<lambda>(g, w). (1, w))\<rparr>"

theorem delay_frees_lock_of_other_witness:
  "\<exists>s2 s3. wait_poll busy_board False False 10 0 \<lparr>ws_gil = 1, ws_signaled = False, ws_sem = False, ws_rest = 0\<rparr> = Some (Inr s2) \<and>
    ws_gil s2 = 0 \<and> wait_begin busy_board s2 = (None, s3) \<and> ws_gil s3 = 1"
  using delay_frees_lock_of_other [of busy_board "\<lparr>ws_gil = 0, ws_signaled = False, ws_sem = False, ws_rest = 0\<rparr>"
      "\<lparr>ws_gil = 1, ws_signaled = False, ws_sem = False, ws_rest = 0\<rparr>" False 1 0 10 1]
  by (auto simp: busy_board_def wait_begin_def gil_exit_def mp_thread_mutex_unlock_def)

end
