(* ===== verification/Mp_Main.thy ===== *)
theory Mp_Main
  imports Console App_Uart
begin

text \<open>
  The interpreter as a program: its sessions from one soft reset to the next
  (\<open>app/micropython/main.c\<close>), and the shell command that runs it on the shell's own line
  (\<open>app/micropython/shellcmd.c\<close> and \<open>modules/micropython/src/mphalport.c\<close>).

  Running scripts and the prompt, and the setting up and clearing of the interpreter, are parameters;
  what happens to pins and threads at the end of a session is the model's.
\<close>

section \<open>Sessions\<close>

record ('w, 'k) py_state =
  py_pins :: "'w pin_state"
  py_threads :: mp_threads
  py_kernel :: 'k

record ('w, 'k) py_runtime =
  rt_setup :: "('w, 'k) py_state \<Rightarrow> ('w, 'k) py_state"
  rt_frozen_boot :: "('w, 'k) py_state \<Rightarrow> ('w, 'k) py_state"
  rt_file_if_exists :: "string \<Rightarrow> ('w, 'k) py_state \<Rightarrow> u32 \<times> ('w, 'k) py_state"
  rt_raw_mode :: "('w, 'k) py_state \<Rightarrow> bool"
  rt_raw_repl :: "('w, 'k) py_state \<Rightarrow> u32 \<times> ('w, 'k) py_state"
  rt_friendly_repl :: "('w, 'k) py_state \<Rightarrow> u32 \<times> ('w, 'k) py_state"
  rt_bluetooth_deinit :: "'w \<Rightarrow> 'w"
  rt_i2c_target_deinit_all :: "'w \<Rightarrow> 'w"
  rt_sweep_all :: "'w \<Rightarrow> 'w"
  rt_deinit :: "'w \<Rightarrow> 'w"
  rt_forced_exit :: u32

definition on_world :: "('w \<Rightarrow> 'w) \<Rightarrow> ('w, 'k) py_state \<Rightarrow> ('w, 'k) py_state" where
  "on_world f s = s\<lparr>py_pins := (py_pins s)\<lparr>ps_world := f (ps_world (py_pins s))\<rparr>\<rparr>"

text \<open>The scripts: \<open>main.py\<close> runs only after \<open>boot.py\<close> ended well, and not in raw mode.  The
  result is whether a script asked for the reset.\<close>

definition run_scripts :: "('w, 'k) py_runtime \<Rightarrow> ('w, 'k) py_state \<Rightarrow> bool \<times> ('w, 'k) py_state" where
  "run_scripts P s =
     (let (ret, s) = rt_file_if_exists P ''boot.py'' s
      in if ret AND rt_forced_exit P \<noteq> 0 then (True, s)
         else if \<not> rt_raw_mode P s \<and> ret \<noteq> 0 then
           (let (ret, s) = rt_file_if_exists P ''main.py'' s in (ret AND rt_forced_exit P \<noteq> 0, s))
         else (False, s))"

partial_function (option) run_repl :: "('w, 'k) py_runtime \<Rightarrow> ('w, 'k) py_state \<Rightarrow> ('w, 'k) py_state option" where
  "run_repl P s =
     (case (if rt_raw_mode P s then rt_raw_repl P s else rt_friendly_repl P s) of (ret, s) \<Rightarrow>
        if ret \<noteq> 0 then Some s else run_repl P s)"

definition soft_reset_exit ::
  "('w, 'k) py_runtime \<Rightarrow> 'w gpio_api \<Rightarrow> 'k kernel \<Rightarrow> tid \<Rightarrow> ('w, 'k) py_state \<Rightarrow> ('w, 'k) py_state option" where
  "soft_reset_exit P G K cur s = do {
     let s = on_world (rt_bluetooth_deinit P) s;
     let s = s\<lparr>py_pins := machine_pin_deinit G (py_pins s)\<rparr>;
     let s = on_world (rt_i2c_target_deinit_all P) s;
     (ths, k) \<leftarrow> mp_thread_deinit K cur (py_threads s) (py_kernel s);
     (_, ths) \<leftarrow> mp_thread_gc_others K cur ths k;
     Some (on_world (rt_deinit P) (on_world (rt_sweep_all P) (s\<lparr>py_threads := ths, py_kernel := k\<rparr>)))
   }"

definition session ::
  "('w, 'k) py_runtime \<Rightarrow> 'w gpio_api \<Rightarrow> 'k kernel \<Rightarrow> tid \<Rightarrow> ('w, 'k) py_state \<Rightarrow> ('w, 'k) py_state option" where
  "session P G K cur s =
     (case run_scripts P (rt_frozen_boot P (rt_setup P s)) of (forced, s) \<Rightarrow>
        Option.bind (if forced then Some s else run_repl P s) (soft_reset_exit P G K cur))"

text \<open>The program makes its thread known once and then runs one session after the other.\<close>

primrec sessions ::
  "nat \<Rightarrow> ('w, 'k) py_runtime \<Rightarrow> 'w gpio_api \<Rightarrow> 'k kernel \<Rightarrow> tid \<Rightarrow> ('w, 'k) py_state \<Rightarrow> ('w, 'k) py_state option" where
  "sessions 0 P G K cur s = Some s"
| "sessions (Suc n) P G K cur s = Option.bind (session P G K cur s) (sessions n P G K cur)"

definition real_main ::
  "nat \<Rightarrow> ('w, 'k) py_runtime \<Rightarrow> 'w gpio_api \<Rightarrow> 'k kernel \<Rightarrow> tid \<Rightarrow> u32 \<Rightarrow> u32 \<Rightarrow> nat \<Rightarrow> ('w, 'k) py_state \<Rightarrow>
   ('w, 'k) py_state option" where
  "real_main n P G K cur main_state stack stack_size s =
     (let (ths, k) = mp_thread_init K cur main_state stack (stack_size div 4) (py_threads s) (py_kernel s)
      in sessions n P G K cur (s\<lparr>py_threads := ths, py_kernel := k\<rparr>))"

text \<open>However a session ends, no interrupt of a pin is left registered, and the first thread is kept.\<close>

lemma on_world_frame [simp]:
  "ps_irq_list (py_pins (on_world f s)) = ps_irq_list (py_pins s)" "py_threads (on_world f s) = py_threads s"
  by (simp_all add: on_world_def)

lemma on_world_world [simp]: "ps_world (py_pins (on_world f s)) = f (ps_world (py_pins s))"
  by (simp add: on_world_def)

lemma soft_reset_exit_no_irq:
  assumes "soft_reset_exit P G K cur s = Some s'"
  shows "ps_irq_list (py_pins s') = []"
  using assms
  by (auto simp: soft_reset_exit_def bind_eq_Some_conv Let_def machine_pin_deinit_def
      simp flip: on_world_def split: prod.splits)

lemma session_leaves_no_irq:
  assumes "session P G K cur s = Some s'"
  shows "ps_irq_list (py_pins s') = []"
  using assms by (auto simp: session_def bind_eq_Some_conv dest: soft_reset_exit_no_irq split: prod.splits)

section \<open>On the shell's line\<close>

text \<open>Characters come from the shell through a ring buffer; the shell works during the pauses.\<close>

partial_function (option) shell_stdin_rx_chr :: "'r ring_ops \<Rightarrow> ('r \<Rightarrow> 'r) \<Rightarrow> 'r \<Rightarrow> (int \<times> 'r) option" where
  "shell_stdin_rx_chr R process_and_sleep rb =
     (case rb_get R 1 rb of (data, rb) \<Rightarrow>
        if data \<noteq> [] then Some (uint (hd data), rb) else shell_stdin_rx_chr R process_and_sleep (process_and_sleep rb))"

definition shell_stdout_tx_strn :: "(bytes \<Rightarrow> 'w \<Rightarrow> 'w) \<Rightarrow> bytes \<Rightarrow> 'w \<Rightarrow> nat \<times> 'w" where
  "shell_stdout_tx_strn z_shell_write str w = (length str, z_shell_write str w)"

definition shell_stdio_poll :: "bool \<Rightarrow> bool \<Rightarrow> bool \<times> bool" where
  "shell_stdio_poll poll_rd poll_wr = (poll_rd, poll_wr)"

text \<open>What the shell receives goes to the buffer; the result is whether something had no room.\<close>

definition bypass_cb :: "'r ring_ops \<Rightarrow> bytes \<Rightarrow> 'r \<Rightarrow> bool \<times> 'r" where
  "bypass_cb R data rb = (let (n, rb) = rb_put R data rb in (n < length data, rb))"

text \<open>
  The command.  With a shared heap both the heap and the buffer are allocated for the time it runs.  The
  end is that of a session, after the shell has its line back.
\<close>

record ('w, 'k) shell_api =
  shared_alloc :: "nat \<Rightarrow> 'w \<Rightarrow> u32 option \<times> 'w"
  shared_free :: "u32 \<Rightarrow> 'w \<Rightarrow> 'w"
  heap_size :: nat
  ring_size :: nat
  ring_init :: "u32 \<Rightarrow> 'w \<Rightarrow> 'w"
  own_heap :: u32
  own_ring :: u32
  interpreter_start :: "u32 \<Rightarrow> 'w \<Rightarrow> 'w"
  set_bypass :: "bool \<Rightarrow> 'w \<Rightarrow> 'w"
  shell_unlock :: "'w \<Rightarrow> 'w"
  run_prompt :: "('w, 'k) py_state \<Rightarrow> ('w, 'k) py_state"
  run_file :: "string \<Rightarrow> ('w, 'k) py_state \<Rightarrow> ('w, 'k) py_state"

text \<open>From the interpreter's start on the heap to the shell's unlocking: a prompt or one file.\<close>

definition python_run :: "('w, 'k) shell_api \<Rightarrow> u32 \<Rightarrow> string list \<Rightarrow> ('w, 'k) py_state \<Rightarrow> ('w, 'k) py_state" where
  "python_run S heap argv s =
     (let s = on_world (set_bypass S True) (on_world (interpreter_start S heap) s);
          s = (case argv of [_] \<Rightarrow> run_prompt S s | [_, file] \<Rightarrow> run_file S file s | _ \<Rightarrow> s)
      in on_world (shell_unlock S) (on_world (set_bypass S False) s))"

definition python_body ::
  "('w, 'k) shell_api \<Rightarrow> ('w, 'k) py_runtime \<Rightarrow> 'w gpio_api \<Rightarrow> 'k kernel \<Rightarrow> tid \<Rightarrow> u32 \<Rightarrow> u32 \<Rightarrow> nat \<Rightarrow> u32 \<Rightarrow>
   string list \<Rightarrow> ('w, 'k) py_state \<Rightarrow> ('w, 'k) py_state option" where
  "python_body S P G K cur main_state stack stack_size heap argv s =
     (let (ths, k) = mp_thread_init K cur main_state stack (stack_size div 4) (py_threads s) (py_kernel s);
          s = s\<lparr>py_threads := ths, py_kernel := k\<rparr>
      in soft_reset_exit P G K cur (python_run S heap argv s))"

definition shell_python ::
  "('w, 'k) shell_api \<Rightarrow> ('w, 'k) py_runtime \<Rightarrow> 'w gpio_api \<Rightarrow> 'k kernel \<Rightarrow> tid \<Rightarrow> u32 \<Rightarrow> u32 \<Rightarrow> nat \<Rightarrow> bool \<Rightarrow>
   string list \<Rightarrow> ('w, 'k) py_state \<Rightarrow> (int \<times> ('w, 'k) py_state) option" where
  "shell_python S P G K cur main_state stack stack_size shared argv s =
     (if length argv > 2 then Some (- EINVAL, s)
      else if \<not> shared then
        map_option (\<lambda>s. (0, s))
          (python_body S P G K cur main_state stack stack_size (own_heap S) argv (on_world (ring_init S (own_ring S)) s))
      else
        (let (r, w) = shared_alloc S (heap_size S) (ps_world (py_pins s)); s = on_world (\<lambda>_. w) s
         in case r of
              None \<Rightarrow> Some (-1, s)
            | Some heap \<Rightarrow>
                (let (r, w) = shared_alloc S (ring_size S) (ps_world (py_pins s)); s = on_world (\<lambda>_. w) s
                 in case r of
                      None \<Rightarrow> Some (-1, on_world (shared_free S heap) s)
                    | Some rx_rb \<Rightarrow>
                        map_option (\<lambda>s. (0, on_world (shared_free S heap) (on_world (shared_free S rx_rb) s)))
                          (python_body S P G K cur main_state stack stack_size heap argv (on_world (ring_init S rx_rb) s)))))"

text \<open>The module's own command has neither threads nor devices to take down.\<close>

definition cmd_python ::
  "('w, 'k) shell_api \<Rightarrow> ('w, 'k) py_runtime \<Rightarrow> string list \<Rightarrow> ('w, 'k) py_state \<Rightarrow> int \<times> ('w, 'k) py_state" where
  "cmd_python S P argv s =
     (if length argv > 2 then (- EINVAL, s)
      else (0, on_world (rt_deinit P) (on_world (rt_sweep_all P)
             (python_run S (own_heap S) argv (on_world (ring_init S (own_ring S)) s)))))"

text \<open>Whatever way the command ends, it has given back what it took from the shared heap; and where the
  interpreter has run, no interrupt of a pin is left registered.\<close>

lemma shell_python_no_leak:
  assumes alloc: "\<And>n w. case shared_alloc S n w of (None, w') \<Rightarrow> live w' = live w
      | (Some p, w') \<Rightarrow> p \<notin> live w \<and> live w' = insert p (live w)"
    and free: "\<And>p w. live (shared_free S p w) = live w - {p}"
    and ring: "\<And>p w. live (ring_init S p w) = live w"
    and run: "\<And>heap s s'. python_body S P G K cur main_state stack stack_size heap argv s = Some s' \<Longrightarrow>
      live (ps_world (py_pins s')) = live (ps_world (py_pins s))"
    and "shell_python S P G K cur main_state stack stack_size shared argv s = Some (ret, s')"
  shows "live (ps_world (py_pins s')) = live (ps_world (py_pins s)) \<and> (ret = 0 \<longrightarrow> ps_irq_list (py_pins s') = [])"
proof -
  have ok: "shared_alloc S n w = (None, w') \<Longrightarrow> live w' = live w"
    "shared_alloc S n w = (Some p, w') \<Longrightarrow> p \<notin> live w \<and> live w' = insert p (live w)" for n w p w'
    using alloc [where n = n and w = w] by auto
  have irq: "ps_irq_list (py_pins s') = []"
    if "python_body S P G K cur main_state stack stack_size heap argv s = Some s'" for heap s s'
    using that by (auto simp: python_body_def case_prod_unfold Let_def dest: soft_reset_exit_no_irq)
  obtain r1 w1 where a1: "shared_alloc S (heap_size S) (ps_world (py_pins s)) = (r1, w1)"
    by fastforce
  obtain r2 w2 where a2: "shared_alloc S (ring_size S) w1 = (r2, w2)"
    by fastforce
  note d = assms(5) [unfolded shell_python_def Let_def]
  consider "length argv > 2" | "length argv \<le> 2" "\<not> shared" | "length argv \<le> 2" shared "r1 = None"
    | heap where "length argv \<le> 2" shared "r1 = Some heap" "r2 = None"
    | heap ring where "length argv \<le> 2" shared "r1 = Some heap" "r2 = Some ring"
    by (metis linorder_not_less option.exhaust)
  then show ?thesis
  proof cases
    case 1
    with d show ?thesis by (auto simp: EINVAL_def)
  next
    case 2
    with d show ?thesis by (auto simp: ring dest: run irq)
  next
    case 3
    with d show ?thesis by (auto simp: a1 ok(1) [OF a1 [unfolded 3]])
  next
    case 4
    with d show ?thesis
      using ok(2) [OF a1 [unfolded 4]] ok(1) [OF a2 [unfolded 4]] by (auto simp: a1 a2 free)
  next
    case (5 heap rx)
    with d obtain s1 where "python_body S P G K cur main_state stack stack_size heap argv
        (on_world (ring_init S rx) (on_world (\<lambda>_. w2) (on_world (\<lambda>_. w1) s))) = Some s1"
      and "s' = on_world (shared_free S heap) (on_world (shared_free S rx) s1)"
      by (auto simp: a1 a2)
    then show ?thesis
      using run irq ok(2) [OF a1 [unfolded 5(3)]] ok(2) [OF a2 [unfolded 5(4)]]
      by (auto simp: free ring)
  qed
qed

section \<open>Files for the interpreter\<close>

datatype import_stat = MP_IMPORT_STAT_NO_EXIST | MP_IMPORT_STAT_FILE | MP_IMPORT_STAT_DIR

datatype dirent_type = FS_DIR_ENTRY_FILE | FS_DIR_ENTRY_DIR | FS_DIR_ENTRY_OTHER

definition mp_import_stat :: "(bytes \<Rightarrow> int \<times> dirent_type) \<Rightarrow> bytes \<Rightarrow> import_stat" where
  "mp_import_stat fs_stat path =
     (let (ret, kind) = fs_stat path
      in if ret < 0 then MP_IMPORT_STAT_NO_EXIST
         else if kind = FS_DIR_ENTRY_FILE then MP_IMPORT_STAT_FILE
         else if kind = FS_DIR_ENTRY_DIR then MP_IMPORT_STAT_DIR
         else MP_IMPORT_STAT_NO_EXIST)"

definition ENOENT_py :: int where "ENOENT_py = 2"

text \<open>The next byte of an open file, or \<open>None\<close> at its end.\<close>

definition file_readbyte :: "('f \<Rightarrow> (int \<times> u8) \<times> 'f) \<Rightarrow> 'f \<Rightarrow> (mp_exc + u8 option) \<times> 'f" where
  "file_readbyte fs_read file =
     (let ((ret, val), file) = fs_read file
      in (if ret < 0 then Inl (OSError EIO) else if ret = 0 then Inr None else Inr (Some val), file))"

definition file_close :: "('f \<Rightarrow> int) \<Rightarrow> 'f \<Rightarrow> mp_exc + unit" where
  "file_close fs_close file = (if fs_close file \<noteq> 0 then Inl (OSError EIO) else Inr ())"

definition mp_lexer_new_from_file :: "(bytes \<Rightarrow> int \<times> 'f) \<Rightarrow> bytes \<Rightarrow> mp_exc + 'f" where
  "mp_lexer_new_from_file fs_open filename =
     (let (ret, file) = fs_open filename in if ret \<noteq> 0 then Inl (OSError ENOENT_py) else Inr file)"

end
