(* ===== verification/Board_Drivers.thy ===== *)
theory Board_Drivers
  imports Machine_Devices
begin

text \<open>
  Small drivers and set-up code: the board as an I2C device of others
  (\<open>app/micropython/machine_i2c_target.c\<close>), the USB device of the interpreter
  (\<open>app/micropython/src/usbd.c\<close>), the blinking lamp (\<open>drivers/blink/gpio_led.c\<close>), the example sensor
  (\<open>drivers/sensor/example_sensor/example_sensor.c\<close>), the custom library (\<open>lib/custom/custom.c\<close>) and the
  clock and backup memory of the application (\<open>app/src/main.c\<close>).

  Drivers, stacks and the interpreter's part of the I2C device (its memory and events) are parameters.
\<close>

section \<open>The board as an I2C device\<close>

datatype target_state = STATE_IDLE | STATE_WRITING | STATE_READING

record i2c_target =
  tg_dev :: "dev option"
  tg_address :: u16
  tg_state :: target_state
  tg_byte :: u8

text \<open>The memory behind the device: a byte written to it is taken from the object, a byte read is put there.\<close>

record 'm target_mem =
  data_addr_match :: "bool \<Rightarrow> 'm \<Rightarrow> 'm"
  data_write_request :: "u8 \<Rightarrow> 'm \<Rightarrow> 'm"
  data_read_request :: "'m \<Rightarrow> u8 option \<times> 'm"
  data_stop :: "'m \<Rightarrow> 'm"
  data_init :: "mp_obj \<Rightarrow> int \<Rightarrow> 'm \<Rightarrow> 'm"

definition i2c_target_write_requested :: "'m target_mem \<Rightarrow> i2c_target \<times> 'm \<Rightarrow> int \<times> i2c_target \<times> 'm" where
  "i2c_target_write_requested M s = (0, (fst s)\<lparr>tg_state := STATE_WRITING\<rparr>, data_addr_match M False (snd s))"

definition i2c_target_write_received :: "'m target_mem \<Rightarrow> u8 \<Rightarrow> i2c_target \<times> 'm \<Rightarrow> int \<times> i2c_target \<times> 'm" where
  "i2c_target_write_received M val s = (0, (fst s)\<lparr>tg_byte := val\<rparr>, data_write_request M val (snd s))"

definition target_read_request :: "'m target_mem \<Rightarrow> i2c_target \<times> 'm \<Rightarrow> i2c_target \<times> 'm" where
  "target_read_request M s =
     (case data_read_request M (snd s) of
        (None, m) \<Rightarrow> (fst s, m) | (Some b, m) \<Rightarrow> ((fst s)\<lparr>tg_byte := b\<rparr>, m))"

text \<open>The two read callbacks give the bus a byte.\<close>

definition i2c_target_read_requested :: "'m target_mem \<Rightarrow> i2c_target \<times> 'm \<Rightarrow> u8 \<times> i2c_target \<times> 'm" where
  "i2c_target_read_requested M s =
     (let s = (if tg_state (fst s) \<noteq> STATE_READING then
                 (let s = target_read_request M (fst s, data_addr_match M True (snd s))
                  in ((fst s)\<lparr>tg_state := STATE_READING\<rparr>, snd s))
               else s)
      in (tg_byte (fst s), s))"

definition i2c_target_read_processed :: "'m target_mem \<Rightarrow> i2c_target \<times> 'm \<Rightarrow> u8 \<times> i2c_target \<times> 'm" where
  "i2c_target_read_processed M s = (let s = target_read_request M s in (tg_byte (fst s), s))"

definition i2c_target_stop :: "'m target_mem \<Rightarrow> i2c_target \<times> 'm \<Rightarrow> int \<times> i2c_target \<times> 'm" where
  "i2c_target_stop M s =
     (let m = (if tg_state (fst s) = STATE_IDLE then data_addr_match M False (snd s) else snd s)
      in (0, (fst s)\<lparr>tg_state := STATE_IDLE\<rparr>, data_stop M m))"

definition mp_machine_i2c_target_read_bytes :: "i2c_target \<Rightarrow> bytes \<Rightarrow> (nat \<times> bytes) option" where
  "mp_machine_i2c_target_read_bytes self buf = map_option (Pair 1) (wr buf 0 (tg_byte self))"

definition mp_machine_i2c_target_write_bytes :: "i2c_target \<Rightarrow> bytes \<Rightarrow> (nat \<times> i2c_target) option" where
  "mp_machine_i2c_target_write_bytes self buf = map_option (\<lambda>b. (1, self\<lparr>tg_byte := b\<rparr>)) (rd buf 0)"

text \<open>There is one object; it stays with its first device until it is taken down.\<close>

definition mp_machine_i2c_target_make_new ::
  "device_api \<Rightarrow> 'm target_mem \<Rightarrow> (dev \<Rightarrow> 'w \<Rightarrow> int \<times> 'w) \<Rightarrow> mp_obj \<Rightarrow> int \<Rightarrow> mp_obj \<Rightarrow> int \<Rightarrow> i2c_target \<times> 'm \<Rightarrow> 'w \<Rightarrow>
   (mp_exc + unit) \<times> (i2c_target \<times> 'm) \<times> 'w" where
  "mp_machine_i2c_target_make_new D M i2c_target_register ident addr mem mem_addrsize s w =
     (case zephyr_device_find D ident of
        Inl e \<Rightarrow> (Inl e, s, w)
      | Inr d \<Rightarrow>
          if \<not> (tg_dev (fst s) = None \<or> tg_dev (fst s) = Some d)
          then (Inl (ValueError ''only one I2CTarget supported''), s, w)
          else
            (let s = ((fst s)\<lparr>tg_dev := Some d, tg_address := word_of_int addr, tg_state := STATE_IDLE\<rparr>,
                      data_init M mem mem_addrsize (snd s));
                 (ret, w) = i2c_target_register d w
             in (if ret < 0 then Inl (OSError (- ret)) else Inr (), s, w)))"

definition mp_machine_i2c_target_deinit :: "(dev option \<Rightarrow> 'w \<Rightarrow> 'w) \<Rightarrow> i2c_target \<Rightarrow> 'w \<Rightarrow> i2c_target \<times> 'w" where
  "mp_machine_i2c_target_deinit i2c_target_unregister self w = (self\<lparr>tg_dev := None\<rparr>, i2c_target_unregister (tg_dev self) w)"

text \<open>
  The two sequences of callbacks with which drivers read: one request and then the bytes processed one after
  the other; or a request for each byte, after which the next one is fetched ahead.  In the first every answer
  goes to the bus, in the second only those to the requests.
\<close>

primrec read_processed_n :: "'m target_mem \<Rightarrow> nat \<Rightarrow> i2c_target \<times> 'm \<Rightarrow> bytes \<times> i2c_target \<times> 'm" where
  "read_processed_n M 0 s = ([], s)"
| "read_processed_n M (Suc n) s =
     (case i2c_target_read_processed M s of (b, s) \<Rightarrow> case read_processed_n M n s of (bs, s) \<Rightarrow> (b # bs, s))"

definition read_once_requested :: "'m target_mem \<Rightarrow> nat \<Rightarrow> i2c_target \<times> 'm \<Rightarrow> bytes \<times> i2c_target \<times> 'm" where
  "read_once_requested M n s =
     (case i2c_target_read_requested M s of (b, s) \<Rightarrow> case read_processed_n M n s of (bs, s) \<Rightarrow> (b # bs, s))"

primrec read_each_requested :: "'m target_mem \<Rightarrow> nat \<Rightarrow> i2c_target \<times> 'm \<Rightarrow> bytes \<times> i2c_target \<times> 'm" where
  "read_each_requested M 0 s = ([], s)"
| "read_each_requested M (Suc n) s =
     (case i2c_target_read_requested M s of (b, s) \<Rightarrow>
        case i2c_target_read_processed M s of (_, s) \<Rightarrow>
          case read_each_requested M n s of (bs, s) \<Rightarrow> (b # bs, s))"

section \<open>The USB device of the interpreter\<close>

datatype usb_descriptor = MP_LANG | MP_MFR | MP_PRODUCT | MP_SN
datatype usb_speed = USBD_SPEED_FS | USBD_SPEED_HS

record 'w usbd_api =
  usbd_add_descriptor :: "usb_descriptor \<Rightarrow> 'w \<Rightarrow> int \<times> 'w"
  usbd_caps_speed :: "'w \<Rightarrow> usb_speed"
  usbd_add_configuration :: "usb_speed \<Rightarrow> 'w \<Rightarrow> int \<times> 'w"
  usbd_register_all_classes :: "usb_speed \<Rightarrow> 'w \<Rightarrow> int \<times> 'w"
  usbd_device_set_code_triple :: "usb_speed \<Rightarrow> nat \<times> nat \<times> nat \<Rightarrow> 'w \<Rightarrow> 'w"
  usbd_msg_register_cb :: "nat \<Rightarrow> 'w \<Rightarrow> int \<times> 'w"
  usbd_init :: "'w \<Rightarrow> int \<times> 'w"
  usbd_enable :: "'w \<Rightarrow> int \<times> 'w"
  usb_multi_interface :: bool
  USB_BCC_MISCELLANEOUS :: nat

text \<open>Steps one after the other until one fails; \<open>False\<close> is the failure.\<close>

primrec until_error :: "('w \<Rightarrow> int \<times> 'w) list \<Rightarrow> 'w \<Rightarrow> bool \<times> 'w" where
  "until_error [] w = (True, w)"
| "until_error (f # fs) w = (case f w of (err, w) \<Rightarrow> if err \<noteq> 0 then (False, w) else until_error fs w)"

definition mp_fix_code_triple :: "'w usbd_api \<Rightarrow> usb_speed \<Rightarrow> 'w \<Rightarrow> 'w" where
  "mp_fix_code_triple U speed w =
     usbd_device_set_code_triple U speed (if usb_multi_interface U then (USB_BCC_MISCELLANEOUS U, 2, 1) else (0, 0, 0)) w"

definition usb_speed_steps :: "'w usbd_api \<Rightarrow> usb_speed \<Rightarrow> ('w \<Rightarrow> int \<times> 'w) list" where
  "usb_speed_steps U speed =
     [usbd_add_configuration U speed, usbd_register_all_classes U speed, \<lambda>w. (0, mp_fix_code_triple U speed w)]"

definition mp_usbd_init_device :: "'w usbd_api \<Rightarrow> nat option \<Rightarrow> 'w \<Rightarrow> bool \<times> 'w" where
  "mp_usbd_init_device U msg_cb w =
     (case until_error (map (usbd_add_descriptor U) [MP_LANG, MP_MFR, MP_PRODUCT, MP_SN]) w of
        (False, w) \<Rightarrow> (False, w)
      | (True, w) \<Rightarrow>
          until_error
            ((if usbd_caps_speed U w = USBD_SPEED_HS then usb_speed_steps U USBD_SPEED_HS else []) @
             usb_speed_steps U USBD_SPEED_FS @
             (case msg_cb of None \<Rightarrow> [] | Some cb \<Rightarrow> [usbd_msg_register_cb U cb]) @ [usbd_init U]) w)"

definition mp_usbd_init :: "'w usbd_api \<Rightarrow> 'w \<Rightarrow> int \<times> 'w" where
  "mp_usbd_init U w =
     (case mp_usbd_init_device U None w of
        (False, w) \<Rightarrow> (- ENODEV, w)
      | (True, w) \<Rightarrow> (let (err, w) = usbd_enable U w in if err \<noteq> 0 then (err, w) else (0, w)))"

section \<open>The blinking lamp\<close>

text \<open>The lamp and the period of the running timer.\<close>

record 'w led_api =
  led_ready :: bool
  led_configure :: "'w \<Rightarrow> int \<times> 'w"
  led_set :: "bool \<Rightarrow> 'w \<Rightarrow> int \<times> 'w"
  led_toggle :: "'w \<Rightarrow> int \<times> 'w"

type_synonym 'w blink = "u32 option \<times> 'w"

definition blink_gpio_led_on_timer_expire :: "'w led_api \<Rightarrow> 'w blink \<Rightarrow> 'w blink" where
  "blink_gpio_led_on_timer_expire L s = (fst s, snd (led_toggle L (snd s)))"

definition blink_gpio_led_set_period_ms :: "'w led_api \<Rightarrow> u32 \<Rightarrow> 'w blink \<Rightarrow> int \<times> 'w blink" where
  "blink_gpio_led_set_period_ms L period_ms s =
     (if period_ms = 0 then (let (ret, w) = led_set L False (snd s) in (ret, None, w))
      else (0, Some period_ms, snd s))"

definition blink_gpio_led_init :: "'w led_api \<Rightarrow> u32 \<Rightarrow> 'w blink \<Rightarrow> int \<times> 'w blink" where
  "blink_gpio_led_init L config_period_ms s =
     (if \<not> led_ready L then (- ENODEV, s)
      else
        (let (ret, w) = led_configure L (snd s)
         in if ret < 0 then (ret, fst s, w)
            else (0, if config_period_ms > 0 then Some config_period_ms else None, w)))"

text \<open>The table of the driver, and the calls of \<open>include/app/drivers/blink.h\<close> that go through it.\<close>

record 'w blink_driver_api =
  set_period_ms :: "u32 \<Rightarrow> 'w blink \<Rightarrow> int \<times> 'w blink"

definition blink_gpio_led_api :: "'w led_api \<Rightarrow> 'w blink_driver_api" where
  "blink_gpio_led_api L = \<lparr>set_period_ms = blink_gpio_led_set_period_ms L\<rparr>"

definition blink_set_period_ms :: "'w blink_driver_api \<Rightarrow> u32 \<Rightarrow> 'w blink \<Rightarrow> int \<times> 'w blink" where
  "blink_set_period_ms dev period_ms s = set_period_ms dev period_ms s"

definition blink_off :: "'w blink_driver_api \<Rightarrow> 'w blink \<Rightarrow> int \<times> 'w blink" where
  "blink_off dev s = blink_set_period_ms dev 0 s"

text \<open>Switching off stops the timer and darkens the lamp, whatever the timer was doing.\<close>

lemma blink_off_dark: "blink_off (blink_gpio_led_api L) s = (let (ret, w) = led_set L False (snd s) in (ret, None, w))"
  by (simp add: blink_off_def blink_set_period_ms_def blink_gpio_led_api_def blink_gpio_led_set_period_ms_def)

section \<open>The example sensor\<close>

definition example_sensor_sample_fetch :: "('w \<Rightarrow> int) \<Rightarrow> int \<Rightarrow> 'w \<Rightarrow> int \<times> int" where
  "example_sensor_sample_fetch gpio_pin_get state w = (0, gpio_pin_get w)"

text \<open>The value keeps its fraction, which is not set.\<close>

definition example_sensor_channel_get :: "int \<Rightarrow> int \<Rightarrow> int \<Rightarrow> sensor_value \<Rightarrow> int \<times> sensor_value" where
  "example_sensor_channel_get SENSOR_CHAN_PROX state chan val =
     (if chan \<noteq> SENSOR_CHAN_PROX then (- ENOTSUP, val) else (0, (state, snd val)))"

definition example_sensor_init :: "bool \<Rightarrow> ('w \<Rightarrow> int \<times> 'w) \<Rightarrow> 'w \<Rightarrow> int \<times> 'w" where
  "example_sensor_init ready configure w =
     (if \<not> ready then (- ENODEV, w) else (let (ret, w) = configure w in if ret < 0 then (ret, w) else (0, w)))"

section \<open>The custom library\<close>

definition custom_get_value :: "int \<Rightarrow> int \<Rightarrow> int" where
  "custom_get_value CONFIG_CUSTOM_GET_VALUE_DEFAULT val = (if val \<noteq> 0 then val else CONFIG_CUSTOM_GET_VALUE_DEFAULT)"

section \<open>Clock and backup memory of the application\<close>

record rtc_time =
  tm_year :: int
  tm_mon :: int
  tm_mday :: int
  tm_hour :: int
  tm_min :: int
  tm_sec :: int
  tm_wday :: int
  tm_isdst :: int

text \<open>\<open>mktime\<close> finds the day of the week of a date at midnight.\<close>

definition set_date_time ::
  "(int \<Rightarrow> int \<Rightarrow> int \<Rightarrow> int \<times> int) \<Rightarrow> (rtc_time \<Rightarrow> 'w \<Rightarrow> int \<times> 'w) \<Rightarrow> 'w \<Rightarrow> int \<times> 'w" where
  "set_date_time mktime rtc_set_time w =
     (let (wday, isdst) = mktime (2026 - 1900) 0 1
      in rtc_set_time \<lparr>tm_year = 2026 - 1900, tm_mon = 0, tm_mday = 1, tm_hour = 0, tm_min = 0, tm_sec = 0,
           tm_wday = wday, tm_isdst = isdst\<rparr> w)"

text \<open>What is logged: the date with the year in full and months from 1.\<close>

definition get_date_time :: "('w \<Rightarrow> int \<times> rtc_time) \<Rightarrow> 'w \<Rightarrow> int + (int \<times> int \<times> int) \<times> int \<times> int \<times> int" where
  "get_date_time rtc_get_time w =
     (let (ret, tm) = rtc_get_time w
      in if ret < 0 then Inl ret
         else Inr ((tm_year tm + 1900, tm_mon tm + 1, tm_mday tm), tm_hour tm, tm_min tm, tm_sec tm))"

definition MAGIC_VALUE :: u32 where "MAGIC_VALUE = 0xA500FF5A"

definition check_backup :: "u32 \<Rightarrow> bool \<times> u32" where
  "check_backup magic = (if magic = MAGIC_VALUE then (True, magic) else (False, MAGIC_VALUE))"

section \<open>Properties\<close>

lemma read_each_running:
  assumes "tg_state (fst s) = STATE_READING"
  shows "read_each_requested M (Suc n) s =
    (case read_processed_n M n s of (bs, s') \<Rightarrow> (tg_byte (fst s) # bs, snd (i2c_target_read_processed M s')))"
  using assms
proof (induction n arbitrary: s)
  case 0
  then show ?case by (simp add: i2c_target_read_requested_def split: prod.splits)
next
  case (Suc n)
  obtain b s1 where p: "i2c_target_read_processed M s = (b, s1)" by (metis prod.exhaust)
  then have r: "tg_state (fst s1) = STATE_READING" "b = tg_byte (fst s1)"
    using Suc.prems by (auto simp: i2c_target_read_processed_def target_read_request_def Let_def split: prod.splits option.splits)
  have "read_each_requested M (Suc (Suc n)) s = (case read_each_requested M (Suc n) s1 of (bs, s') \<Rightarrow> (tg_byte (fst s) # bs, s'))"
    using Suc.prems p by (subst read_each_requested.simps) (simp add: i2c_target_read_requested_def del: read_each_requested.simps)
  then show ?case
    unfolding Suc.IH [OF r(1)] using p r(2) by (simp split: prod.splits)
qed

text \<open>
  Claim C39. Both sequences of callbacks give the bus the same bytes: a driver that requests every byte reads
  what a driver reads that requests the first and has the others processed, and is one byte ahead in the end.
\<close>

theorem i2c_target_sequences_agree:
  "read_each_requested M (Suc n) s =
    (case read_once_requested M n s of (bs, s') \<Rightarrow> (bs, snd (i2c_target_read_processed M s')))"
proof -
  obtain b s1 where q: "i2c_target_read_requested M s = (b, s1)" by (metis prod.exhaust)
  have r: "tg_state (fst s1) = STATE_READING" "b = tg_byte (fst s1)"
    using q by (auto simp: i2c_target_read_requested_def target_read_request_def Let_def split: prod.splits option.splits if_splits)
  then have again: "i2c_target_read_requested M s1 = (b, s1)" by (simp add: i2c_target_read_requested_def)
  have "read_each_requested M (Suc n) s = read_each_requested M (Suc n) s1"
    by (simp add: q again)
  then show ?thesis
    unfolding read_each_running [OF r(1)] using q r(2) by (simp add: read_once_requested_def split: prod.splits)
qed

end
