(* ===== verification/App_Main.thy ===== *)
theory App_Main
  imports App_Server Huflash Board_Drivers
begin

text \<open>
  The application's start and end (\<open>app/src/main.c\<close>): the order of the calls of \<open>main\<close>, from the
  memory pool to the lamp, and \<open>deinit_app\<close>.  The two servers run over drivers with states of their own,
  and take their memory from the pool.  \<open>None\<close> is undefined behaviour or a wait that does not end.
\<close>

section \<open>Start\<close>

record app_data =
  app_connected :: bool
  hup_uart :: "hup_server option"
  hup_udp :: "hup_server option"

definition app_static :: app_data where
  "app_static = \<lparr>app_connected = False, hup_uart = None, hup_udp = None\<rparr>"

text \<open>What the board and its configuration give.\<close>

record 'w app_env =
  ae_hu_app :: bool
  ae_dtcm :: "(addr \<times> addr) option"
  ae_ipv4 :: bool
  ae_conn_mgr :: bool
  ae_register_events :: "'w \<Rightarrow> 'w"
  ae_remove_events :: "'w \<Rightarrow> 'w"
  ae_init_vlan :: "'w \<Rightarrow> 'w"
  ae_init_tunnel :: "'w \<Rightarrow> 'w"
  ae_bbram :: "'w bbram_api"
  ae_usb :: "'w usb_api"
  ae_dtr_sem :: nat
  ae_hu_cfg :: hu_config
  ae_boot :: "'w boot_api"
  ae_ethernet :: bool
  ae_rtc :: bool
  ae_vbat :: bool
  ae_mktime :: "int \<Rightarrow> int \<Rightarrow> int \<Rightarrow> int \<times> int"
  ae_rtc_set_time :: "rtc_time \<Rightarrow> 'w \<Rightarrow> int \<times> 'w"
  ae_backup_ready :: bool
  ae_led_ready :: bool
  ae_led_configure :: "'w \<Rightarrow> int \<times> 'w"
  ae_led_toggle :: "'w \<Rightarrow> int \<times> 'w"

definition init_app :: "'w app_env \<Rightarrow> 'w \<Rightarrow> (int \<times> 'w) option" where
  "init_app E w =
     (if \<not> ae_hu_app E then Some (0, w)
      else
        (let w = (if ae_ipv4 E
                  then ae_init_tunnel E (ae_init_vlan E (if ae_conn_mgr E then ae_register_events E w else w)) else w);
             (_, _, w) = init_bbram (ae_bbram E) w
         in init_app_usb (ae_usb E) (ae_dtr_sem E) w))"

text \<open>The servers: UDP when there is a network, then the serial line.\<close>

definition start_servers ::
  "u32 \<Rightarrow> u32 \<Rightarrow> bool \<Rightarrow> ('u, 'w) app_api \<Rightarrow> ('d, 'w) app_api \<Rightarrow> app_data \<Rightarrow> pool \<Rightarrow> 'u \<Rightarrow> 'd \<Rightarrow> (app_data \<times> pool \<times> 'u \<times> 'd) option" where
  "start_servers sz_handle sz_hup ethernet udp_server uart_interrupt app s u d = do {
     (app, s, u) \<leftarrow>
       (if ethernet then
          map_option (\<lambda>(h, s, u). (app\<lparr>hup_udp := h\<rparr>, s, u)) (init_hup_server sz_handle sz_hup udp_server True s u)
        else Some (app, s, u));
     (h, s, d) \<leftarrow> init_hup_server sz_handle sz_hup uart_interrupt True s d;
     Some (app\<lparr>hup_uart := h\<rparr>, s, u, d)
   }"

definition deinit_app ::
  "'w app_env \<Rightarrow> ('u, 'w) app_api \<Rightarrow> ('d, 'w) app_api \<Rightarrow> app_data \<Rightarrow> pool \<Rightarrow> 'u \<Rightarrow> 'd \<Rightarrow> 'w \<Rightarrow> (pool \<times> 'u \<times> 'd \<times> 'w) option" where
  "deinit_app E udp_server uart_interrupt app s u d w =
     (if \<not> ae_hu_app E then Some (s, u, d, w)
      else do {
        (s, d) \<leftarrow> deinit_hup_server (hup_uart app) (Some uart_interrupt) s d;
        (s, u) \<leftarrow> deinit_hup_server (hup_udp app) (Some udp_server) s u;
        Some (s, u, d, if ae_conn_mgr E then ae_remove_events E w else w)
      })"

text \<open>The clock is set when it has no battery; what is logged has no effect.\<close>

definition start_clock :: "'w app_env \<Rightarrow> 'w \<Rightarrow> 'w" where
  "start_clock E w = (if ae_rtc E \<and> \<not> ae_vbat E then snd (set_date_time (ae_mktime E) (ae_rtc_set_time E) w) else w)"

definition start_led :: "'w app_env \<Rightarrow> 'w \<Rightarrow> int \<times> 'w" where
  "start_led E w =
     (if \<not> ae_led_ready E then (-1, w)
      else (let (rc, w) = ae_led_configure E w in if rc < 0 then (-1, w) else (1, w)))"

text \<open>Everything before the endless loop: the active slot (255 when it is not known), the application's data, the
  backup word, the state of the lamp.\<close>

definition main_start ::
  "u32 \<Rightarrow> u32 \<Rightarrow> 'w app_env \<Rightarrow> ('u, 'w) app_api \<Rightarrow> ('d, 'w) app_api \<Rightarrow> u32 \<Rightarrow> pool \<Rightarrow> 'u \<Rightarrow> 'd \<Rightarrow> 'w \<Rightarrow>
   (u8 \<times> app_data \<times> u32 \<times> int \<times> pool \<times> 'u \<times> 'd \<times> 'w) option" where
  "main_start sz_handle sz_hup E udp_server uart_interrupt backup s u d w = do {
     s \<leftarrow> (case ae_dtcm E of None \<Rightarrow> Some s | Some (p, q) \<Rightarrow> palloc_init p q s);
     (_, w) \<leftarrow> init_app E w;
     let partition_id = (if ae_hu_app E then snd (bootloader_active_slot (ae_hu_cfg E) (ae_boot E) 0xff w) else 0xff);
     (app, s, u, d) \<leftarrow>
       (if ae_hu_app E then start_servers sz_handle sz_hup (ae_ethernet E) udp_server uart_interrupt app_static s u d
        else Some (app_static, s, u, d));
     let w = (if ae_hu_app E then start_clock E w else w);
     let backup = (if ae_backup_ready E then snd (check_backup backup) else backup);
     let (led_state, w) = start_led E w;
     Some (partition_id, app, backup, led_state, s, u, d, w)
   }"

text \<open>The loop: each round with its pause; it sleeps for ever when the lamp failed.\<close>

primrec main_loop :: "nat \<Rightarrow> 'w app_env \<Rightarrow> int \<Rightarrow> 'w \<Rightarrow> nat option list \<times> int \<times> 'w" where
  "main_loop 0 E led_state w = ([], led_state, w)"
| "main_loop (Suc n) E led_state w =
     (case led_round (ae_led_toggle E) led_state w of (led_state, pause, w) \<Rightarrow>
        case main_loop n E led_state w of (ps, r) \<Rightarrow> (pause # ps, r))"

section \<open>Starting and ending together\<close>

text \<open>What starting one server adds to the live blocks, so that ending it takes it away again.\<close>

definition server_blocks :: "hup_server option \<Rightarrow> blk set \<Rightarrow> bool" where
  "server_blocks h X \<longleftrightarrow>
     (case h of
        None \<Rightarrow> X = {}
      | Some h \<Rightarrow> \<exists>b c. X = {b, c} \<and> b \<noteq> c \<and> hs_addr h = fst b + sizeof_link_t \<and> hs_hup h = fst c + sizeof_link_t)"

lemma server_started:
  assumes "pool_ok s al" "palloc_request sz_handle" "palloc_request sz_hup" "api_deinit api = Some f"
  obtains h s' d' X where "init_hup_server sz_handle sz_hup api True s d = Some (h, s', d')"
    "server_blocks h X" "X \<inter> al = {}" "pool_ok s' (X \<union> al)"
    "\<And>t e. pool_ok t (X \<union> al) \<Longrightarrow> \<exists>t' e'. deinit_hup_server h (Some api) t e = Some (t', e') \<and> pool_ok t' al"
proof -
  obtain h s' d' where r: "init_hup_server sz_handle sz_hup api True s d = Some (h, s', d')"
    and c: "case h of
       None \<Rightarrow> pool_ok s' al
     | Some h \<Rightarrow> \<exists>b c. hs_addr h = fst b + sizeof_link_t \<and> hs_hup h = fst c + sizeof_link_t \<and>
         usable b \<inter> usable c = {} \<and> b \<noteq> c \<and> b \<notin> al \<and> c \<notin> al \<and> pool_ok s' (insert c (insert b al)) \<and>
         (\<forall>t e. pool_ok t (insert c (insert b al)) \<longrightarrow>
            (\<exists>t'. deinit_hup_server (Some h) (Some api) t e = Some (t', f e) \<and> pool_ok t' al))"
    using hup_server_no_leak [OF assms, of d] by blast
  show thesis
  proof (cases h)
    case None
    then show thesis
      using r c by (intro that [of h s' d' "{}"]) (auto simp: server_blocks_def deinit_hup_server_def)
  next
    case (Some k)
    then obtain b c where bc: "hs_addr k = fst b + sizeof_link_t" "hs_hup k = fst c + sizeof_link_t" "b \<noteq> c" "b \<notin> al" "c \<notin> al"
      "pool_ok s' (insert c (insert b al))"
      "\<And>t e. pool_ok t (insert c (insert b al)) \<Longrightarrow> \<exists>t'. deinit_hup_server (Some k) (Some api) t e = Some (t', f e) \<and> pool_ok t' al"
      using c unfolding Some option.case by blast
    have u: "{b, c} \<union> al = insert c (insert b al)" by auto
    show thesis
    proof (rule that [OF r])
      show "server_blocks h {b, c}" using Some bc(1-3) by (simp only: server_blocks_def option.case) blast
      show "{b, c} \<inter> al = {}" using bc by simp
      show "pool_ok s' ({b, c} \<union> al)" unfolding u by (rule bc(6))
      show "\<exists>t' e'. deinit_hup_server h (Some api) t e = Some (t', e') \<and> pool_ok t' al" if "pool_ok t ({b, c} \<union> al)" for t e
        using bc(7) that Some unfolding u by blast
    qed
  qed
qed

text \<open>
  Claim C40. The application's two servers, started one after the other, hold two blocks of the pool each, all
  disjoint from each other and from what was live before, unless one could not start; and ending the
  application gives exactly these back, whatever was allocated and released in between.
\<close>

theorem app_servers_no_leak:
  assumes "pool_ok s al" and "palloc_request sz_handle" and "palloc_request sz_hup"
    and "api_deinit udp = Some f" and "api_deinit uart = Some g" and "ae_hu_app E"
  shows "\<exists>app s' u' d' X Y.
    start_servers sz_handle sz_hup (ae_ethernet E) udp uart app_static s u d = Some (app, s', u', d') \<and>
    server_blocks (hup_udp app) X \<and> server_blocks (hup_uart app) Y \<and> X \<inter> al = {} \<and> Y \<inter> (X \<union> al) = {} \<and>
    pool_ok s' (Y \<union> (X \<union> al)) \<and>
    (\<forall>t u d w. pool_ok t (Y \<union> (X \<union> al)) \<longrightarrow>
       (\<exists>t' r. deinit_app E udp uart app t u d w = Some (t', r) \<and> pool_ok t' al))"
proof -
  obtain hu s1 u1 X where U: "(if ae_ethernet E then
        map_option (\<lambda>(h, s, u). (app_static\<lparr>hup_udp := h\<rparr>, s, u)) (init_hup_server sz_handle sz_hup udp True s u)
      else Some (app_static, s, u)) = Some (app_static\<lparr>hup_udp := hu\<rparr>, s1, u1)"
    "server_blocks hu X" "X \<inter> al = {}" "pool_ok s1 (X \<union> al)"
    "\<And>t e. pool_ok t (X \<union> al) \<Longrightarrow> \<exists>t' e'. deinit_hup_server hu (Some udp) t e = Some (t', e') \<and> pool_ok t' al"
  proof (cases "ae_ethernet E")
    case True
    then show ?thesis
      by (rule_tac server_started [OF assms(1-4), of u]) (rule that, simp_all)
  next
    case False
    then show ?thesis
      using assms(1) by (intro that [of None s u "{}"]) (auto simp: server_blocks_def deinit_hup_server_def app_static_def)
  qed
  obtain hd s2 d2 Y where D: "init_hup_server sz_handle sz_hup uart True s1 d = Some (hd, s2, d2)"
    "server_blocks hd Y" "Y \<inter> (X \<union> al) = {}" "pool_ok s2 (Y \<union> (X \<union> al))"
    "\<And>t e. pool_ok t (Y \<union> (X \<union> al)) \<Longrightarrow> \<exists>t' e'. deinit_hup_server hd (Some uart) t e = Some (t', e') \<and> pool_ok t' (X \<union> al)"
    by (rule server_started [OF U(4) assms(2,3,5), of d]) blast
  let ?app = "app_static\<lparr>hup_udp := hu, hup_uart := hd\<rparr>"
  have start: "start_servers sz_handle sz_hup (ae_ethernet E) udp uart app_static s u d = Some (?app, s2, u1, d2)"
    using U(1) D(1) by (simp add: start_servers_def)
  have "\<exists>t' r. deinit_app E udp uart ?app t u d w = Some (t', r) \<and> pool_ok t' al"
    if live: "pool_ok t (Y \<union> (X \<union> al))" for t u d w
  proof -
    obtain t1 d1 where t1: "deinit_hup_server hd (Some uart) t d = Some (t1, d1)" "pool_ok t1 (X \<union> al)"
      using D(5) [OF live] by blast
    obtain t2 u1 where "deinit_hup_server hu (Some udp) t1 u = Some (t2, u1)" "pool_ok t2 al"
      using U(5) [OF t1(2)] by blast
    with t1 assms(6) show ?thesis by (simp add: deinit_app_def)
  qed
  then show ?thesis
    using start U(2,3) D(2-4) by (intro exI [of _ ?app] exI [of _ s2] exI [of _ u1] exI [of _ d2] exI [of _ X] exI [of _ Y]) simp
qed

text \<open>A board with a network, without a clock; everything succeeds.\<close>

definition ex_board :: "unit app_env" where
  "ex_board = \<lparr>ae_hu_app = True, ae_dtcm = None, ae_ipv4 = True, ae_conn_mgr = True, ae_register_events = (\<lambda>w. w),
     ae_remove_events = (\<lambda>w. w), ae_init_vlan = (\<lambda>w. w), ae_init_tunnel = (\<lambda>w. w),
     ae_bbram = \<lparr>bb_ready = False, bb_read = (\<lambda>w. (0, 0)), bb_write = (\<lambda>b w. (0, w))\<rparr>,
     ae_usb = \<lparr>usb_present = True, usb_vbus = False, usb_enable = (\<lambda>w. (0, w)), usb_disable = (\<lambda>w. (0, w)),
       usb_dtr = (\<lambda>w. True), usb_line = (\<lambda>n w. (0, w)), usb_ready = True, usb_wait_dtr = True\<rparr>,
     ae_dtr_sem = 1, ae_hu_cfg = \<lparr>retention_info = False, output_settings = False, flash_has_ex_op = False\<rparr>,
     ae_boot = \<lparr>settings_runtime_get = (\<lambda>w. (0, None)), blinfo_lookup = (\<lambda>w. (0, None))\<rparr>,
     ae_ethernet = True, ae_rtc = False, ae_vbat = False, ae_mktime = (\<lambda>y m d. (4, 0)), ae_rtc_set_time = (\<lambda>t w. (0, w)),
     ae_backup_ready = True, ae_led_ready = True, ae_led_configure = (\<lambda>w. (0, w)), ae_led_toggle = (\<lambda>w. (0, w))\<rparr>"

theorem app_servers_no_leak_witness:
  "\<exists>app s' u' d' t r live. start_servers 20 20 True counting_driver counting_driver app_static pool_ex 0 0 = Some (app, s', u', d') \<and>
    pool_ok s' live \<and> deinit_app ex_board counting_driver counting_driver app s' u' d' () = Some (t, r) \<and> pool_ok t {}"
proof -
  have ok: "pool_ok pool_ex {}" using pool_ex_inv by (auto simp: pool_ok_def)
  have "palloc_request 20" by (simp add: palloc_request_def)
  from app_servers_no_leak [OF ok this this, of counting_driver Suc counting_driver Suc ex_board 0 0]
  obtain app s' u' d' X Y where
    "start_servers 20 20 True counting_driver counting_driver app_static pool_ex 0 0 = Some (app, s', u', d')"
    and live: "pool_ok s' (Y \<union> (X \<union> {}))"
    and down: "\<forall>t u d w. pool_ok t (Y \<union> (X \<union> {})) \<longrightarrow>
       (\<exists>t' r. deinit_app ex_board counting_driver counting_driver app t u d w = Some (t', r) \<and> pool_ok t' {})"
    by (auto simp: counting_driver_def ex_board_def)
  moreover obtain t r where "deinit_app ex_board counting_driver counting_driver app s' u' d' () = Some (t, r)" "pool_ok t {}"
    using down live by blast
  ultimately show ?thesis by blast
qed

end
