(* ===== verification/Camera.thy ===== *)
theory Camera
  imports Sdkz_Prelude
begin

text \<open>
  The camera preview, after \<open>app/src/camera.c\<close>: the video driver is asked for a format, given two
  buffers, and each filled buffer is taken from it, shown and given back.  The line that would make this
  function a thread is commented out.

  The video driver, the display and the graphics library are a parameter over a state \<open>'w\<close>, and
  \<open>camera_ok\<close> says what a driver promises about the buffers it holds.  Every way out of the function
  returns 0; the model keeps which one it was.
\<close>

section \<open>Data\<close>

datatype sel_target = VIDEO_SEL_TGT_NONE | VIDEO_SEL_TGT_CROP | VIDEO_SEL_TGT_COMPOSE

record video_selection =
  sel_target :: sel_target
  sel_left :: int
  sel_top :: int
  sel_width :: u32
  sel_height :: u32

record video_format =
  fmt_pixelformat :: u32
  fmt_width :: u32
  fmt_height :: u32
  fmt_pitch :: u32
  fmt_size :: u32

datatype ctrl_id = VIDEO_CID_HFLIP | VIDEO_CID_VFLIP

text \<open>The image that the library shows: its size in pixels and bytes, and the address of its data.\<close>

record lv_img =
  img_w :: u32
  img_h :: u32
  img_data_size :: u32
  img_data :: u32

text \<open>A buffer is known by its address; null is 0.\<close>

type_synonym vbuf = u32

record 'w camera_api =
  display_ready :: "'w \<Rightarrow> bool"
  video_ready :: "'w \<Rightarrow> bool"
  video_get_caps :: "'w \<Rightarrow> int \<times> 'w"
  video_get_format :: "'w \<Rightarrow> (int \<times> video_format) \<times> 'w"
  video_set_format :: "video_format \<Rightarrow> 'w \<Rightarrow> (int \<times> video_format) \<times> 'w"
  video_get_selection :: "video_selection \<Rightarrow> 'w \<Rightarrow> (int \<times> video_selection) \<times> 'w"
  video_set_selection :: "video_selection \<Rightarrow> 'w \<Rightarrow> (int \<times> video_selection) \<times> 'w"
  video_alloc :: "u32 \<Rightarrow> 'w \<Rightarrow> vbuf \<times> 'w"
  vbuf_set_type :: "vbuf \<Rightarrow> 'w \<Rightarrow> 'w"
  vbuf_memory :: "vbuf \<Rightarrow> u32"
  video_enqueue :: "vbuf \<Rightarrow> 'w \<Rightarrow> int \<times> 'w"
  video_dequeue :: "'w \<Rightarrow> (int \<times> vbuf) \<times> 'w"
  video_set_ctrl :: "ctrl_id \<Rightarrow> int \<Rightarrow> 'w \<Rightarrow> 'w"
  video_stream_start :: "'w \<Rightarrow> int \<times> 'w"
  display_blanking_off :: "'w \<Rightarrow> int \<times> 'w"
  lv_img_create :: "'w \<Rightarrow> 'w"
  lv_show :: "lv_img \<Rightarrow> 'w \<Rightarrow> 'w"

text \<open>The configuration; without a crop the first selection is left out.\<close>

record camera_config =
  cfg_crop :: "(int \<times> int \<times> u32 \<times> u32) option"
  cfg_width :: u32
  cfg_height :: u32
  cfg_hflip :: bool
  cfg_vflip :: bool
  lv_color_size :: u32

datatype camera_end =
    Display_not_ready | Camera_not_ready | No_caps | No_format | Crop_refused | No_crop | Compose_refused
  | Format_refused | No_buffer | Not_started | Blanking_stays | Not_dequeued | Not_requeued

definition VIDEO_PIX_FMT_RGB565 :: u32 where "VIDEO_PIX_FMT_RGB565 = 0x50424752"
definition ENOSYS :: int where "ENOSYS = 88"

section \<open>Setting the format\<close>

definition set_crop ::
  "'w camera_api \<Rightarrow> camera_config \<Rightarrow> video_selection \<Rightarrow> 'w \<Rightarrow> (camera_end + video_selection) \<times> 'w" where
  "set_crop A C sel w =
     (case cfg_crop C of
        None \<Rightarrow> (Inr sel, w)
      | Some (x, y, width, height) \<Rightarrow>
          (let sel = sel\<lparr>sel_target := VIDEO_SEL_TGT_CROP, sel_left := x, sel_top := y,
                 sel_width := width, sel_height := height\<rparr>;
               ((err, sel), w) = video_set_selection A sel w
           in (if err \<noteq> 0 then Inl Crop_refused else Inr sel, w)))"

text \<open>Composing is asked for when the driver knows its crop and it differs from the format.\<close>

definition set_compose ::
  "'w camera_api \<Rightarrow> video_format \<Rightarrow> video_selection \<Rightarrow> 'w \<Rightarrow> (camera_end + unit) \<times> 'w" where
  "set_compose A fmt sel w =
     (let ((err, sel), w) = video_get_selection A (sel\<lparr>sel_target := VIDEO_SEL_TGT_CROP\<rparr>) w
      in if err < 0 \<and> err \<noteq> - ENOSYS then (Inl No_crop, w)
         else if err = 0 \<and> (sel_width sel \<noteq> fmt_width fmt \<or> sel_height sel \<noteq> fmt_height fmt) then
           (let sel = sel\<lparr>sel_target := VIDEO_SEL_TGT_COMPOSE, sel_left := 0, sel_top := 0,
                  sel_width := fmt_width fmt, sel_height := fmt_height fmt\<rparr>;
                ((err, _), w) = video_set_selection A sel w
            in (if err < 0 \<and> err \<noteq> - ENOSYS then Inl Compose_refused else Inr (), w))
         else (Inr (), w))"

definition camera_format :: "'w camera_api \<Rightarrow> camera_config \<Rightarrow> 'w \<Rightarrow> (camera_end + video_format) \<times> 'w" where
  "camera_format A C w =
     (if \<not> display_ready A w then (Inl Display_not_ready, w)
      else if \<not> video_ready A w then (Inl Camera_not_ready, w)
      else
        (let (err, w) = video_get_caps A w
         in if err \<noteq> 0 then (Inl No_caps, w)
         else
        (let ((err, fmt), w) = video_get_format A w
         in if err \<noteq> 0 then (Inl No_format, w)
         else
        (case set_crop A C \<lparr>sel_target = VIDEO_SEL_TGT_NONE, sel_left = 0, sel_top = 0, sel_width = 0, sel_height = 0\<rparr> w of
           (Inl e, w) \<Rightarrow> (Inl e, w)
         | (Inr sel, w) \<Rightarrow>
             (let fmt = fmt\<lparr>fmt_width := cfg_width C, fmt_height := cfg_height C, fmt_pixelformat := VIDEO_PIX_FMT_RGB565\<rparr>
              in case set_compose A fmt sel w of
                   (Inl e, w) \<Rightarrow> (Inl e, w)
                 | (Inr _, w) \<Rightarrow>
                     (let ((err, fmt), w) = video_set_format A fmt w
                      in (if err \<noteq> 0 then Inl Format_refused else Inr fmt, w)))))))"

section \<open>Buffers and capture\<close>

text \<open>Two buffers; what enqueueing answers is not looked at here, and neither are the controls' answers.\<close>

primrec camera_buffers :: "nat \<Rightarrow> 'w camera_api \<Rightarrow> video_format \<Rightarrow> vbuf list \<Rightarrow> 'w \<Rightarrow> (camera_end + vbuf list) \<times> 'w" where
  "camera_buffers 0 A fmt bufs w = (Inr bufs, w)"
| "camera_buffers (Suc i) A fmt bufs w =
     (let (b, w) = video_alloc A (fmt_size fmt) w
      in if b = 0 then (Inl No_buffer, w)
         else (let (_, w) = video_enqueue A b (vbuf_set_type A b w) in camera_buffers i A fmt (bufs @ [b]) w))"

definition camera_start :: "'w camera_api \<Rightarrow> camera_config \<Rightarrow> 'w \<Rightarrow> (camera_end + unit) \<times> 'w" where
  "camera_start A C w =
     (let w = (if cfg_hflip C then video_set_ctrl A VIDEO_CID_HFLIP 1 w else w);
          w = (if cfg_vflip C then video_set_ctrl A VIDEO_CID_VFLIP 1 w else w);
          (err, w) = video_stream_start A w
      in if err \<noteq> 0 then (Inl Not_started, w)
         else (let (err, w) = display_blanking_off A w
               in (if err < 0 \<and> err \<noteq> - ENOSYS then Inl Blanking_stays else Inr (), w)))"

text \<open>The image is described once, over the memory of the first buffer.\<close>

definition camera_image :: "'w camera_api \<Rightarrow> camera_config \<Rightarrow> vbuf list \<Rightarrow> lv_img" where
  "camera_image A C bufs =
     \<lparr>img_w = cfg_width C, img_h = cfg_height C, img_data_size = cfg_width C * cfg_height C * lv_color_size C,
      img_data = vbuf_memory A (hd bufs)\<rparr>"

text \<open>One frame, and a number of them: the code stops only for an error.\<close>

definition camera_frame :: "'w camera_api \<Rightarrow> lv_img \<Rightarrow> 'w \<Rightarrow> camera_end option \<times> 'w" where
  "camera_frame A video_img w =
     (let ((err, vbuf), w) = video_dequeue A w
      in if err \<noteq> 0 then (Some Not_dequeued, w)
         else (let (err, w) = video_enqueue A vbuf (lv_show A video_img w)
               in (if err \<noteq> 0 then Some Not_requeued else None, w)))"

primrec camera_frames :: "nat \<Rightarrow> 'w camera_api \<Rightarrow> lv_img \<Rightarrow> 'w \<Rightarrow> camera_end option \<times> 'w" where
  "camera_frames 0 A video_img w = (None, w)"
| "camera_frames (Suc n) A video_img w =
     (case camera_frame A video_img w of (Some e, w) \<Rightarrow> (Some e, w) | (None, w) \<Rightarrow> camera_frames n A video_img w)"

text \<open>The function up to the end of frame \<open>n\<close>.\<close>

definition camera_main :: "nat \<Rightarrow> 'w camera_api \<Rightarrow> camera_config \<Rightarrow> 'w \<Rightarrow> camera_end option \<times> 'w" where
  "camera_main n A C w =
     (case camera_format A C w of
        (Inl e, w) \<Rightarrow> (Some e, w)
      | (Inr fmt, w) \<Rightarrow>
     (case camera_buffers 2 A fmt [] w of
        (Inl e, w) \<Rightarrow> (Some e, w)
      | (Inr bufs, w) \<Rightarrow>
     (case camera_start A C w of
        (Inl e, w) \<Rightarrow> (Some e, w)
      | (Inr _, w) \<Rightarrow> camera_frames n A (camera_image A C bufs) (lv_img_create A w))))"

section \<open>The buffers go round\<close>

text \<open>
  A driver fills the buffers it holds in the order in which it got them, and hands out the oldest; nothing
  else changes what it holds.
\<close>

definition camera_ok :: "'w camera_api \<Rightarrow> ('w \<Rightarrow> vbuf list) \<Rightarrow> bool" where
  "camera_ok A held \<longleftrightarrow>
     (\<forall>b w. case video_enqueue A b w of (err, w') \<Rightarrow> held w' = (if err = 0 then held w @ [b] else held w)) \<and>
     (\<forall>w. case video_dequeue A w of ((err, b), w') \<Rightarrow> if err = 0 then held w = b # held w' else held w' = held w) \<and>
     (\<forall>i w. held (lv_show A i w) = held w)"

lemma frame_ended:
  assumes ok: "camera_ok A held" and f: "camera_frame A img w = (r, w')"
  shows "r = None \<Longrightarrow> held w' = rotate1 (held w)"
    and "r = Some e \<Longrightarrow> held w' = (if e = Not_requeued then tl (held w) else held w)"
proof -
  obtain err b w1 where d: "video_dequeue A w = ((err, b), w1)"
    by (metis prod.exhaust_sel)
  obtain err2 w2 where q: "video_enqueue A b (lv_show A img w1) = (err2, w2)"
    by fastforce
  have h1: "if err = 0 then held w = b # held w1 else held w1 = held w"
    using ok d unfolding camera_ok_def by (metis (mono_tags, lifting) case_prod_conv)
  have h2: "held w2 = (if err2 = 0 then held w1 @ [b] else held w1)"
    using ok q unfolding camera_ok_def by (metis (mono_tags, lifting) case_prod_conv)
  show "r = None \<Longrightarrow> held w' = rotate1 (held w)"
    and "r = Some e \<Longrightarrow> held w' = (if e = Not_requeued then tl (held w) else held w)"
    using f h1 h2 by (auto simp: camera_frame_def d q split: if_splits)
qed

text \<open>
  While frames are shown no buffer is lost: the driver holds the same ones, in turn.  When the function ends,
  it has lost one only if the driver refused to take it back.
\<close>

lemma camera_frames_turn:
  assumes "camera_ok A held" and "camera_frames n A img w = (r, w')"
  shows "case r of None \<Rightarrow> held w' = rotate n (held w)
    | Some e \<Rightarrow> \<exists>k<n. held w' = (if e = Not_requeued then tl (rotate k (held w)) else rotate k (held w))"
  using assms(2)
proof (induction n arbitrary: w)
  case (Suc n)
  obtain r1 w1 where f: "camera_frame A img w = (r1, w1)" by fastforce
  show ?case
  proof (cases r1)
    case None
    then have h: "held w1 = rotate1 (held w)"
      using frame_ended(1) [OF assms(1) f] by simp
    have "case r of None \<Rightarrow> held w' = rotate n (held w1)
      | Some e \<Rightarrow> \<exists>k<n. held w' = (if e = Not_requeued then tl (rotate k (held w1)) else rotate k (held w1))"
      using Suc None by (simp add: f)
    moreover have "rotate k (held w1) = rotate (Suc k) (held w)" for k
      by (simp add: h rotate1_rotate_swap)
    ultimately show ?thesis
      by (fastforce split: option.splits)
  next
    case (Some e)
    then show ?thesis
      using Suc.prems frame_ended(2) [OF assms(1) f] by (fastforce simp: f)
  qed
qed simp

text \<open>
  After an odd number of frames the buffer taken from the driver is the second one, but the image shown is
  that of the first, which the driver then holds and may be filling.
\<close>

lemma camera_shows_drivers_buffer:
  assumes ok: "camera_ok A held" and "held w = [b0, b1]" and "odd n"
    and "camera_frames n A (camera_image A C [b0, b1]) w = (None, w')"
    and d: "video_dequeue A w' = ((0, b), w'')"
  shows "b = b1 \<and> held w'' = [b0] \<and> img_data (camera_image A C [b0, b1]) = vbuf_memory A b0"
proof -
  have "held w' = rotate n [b0, b1]"
    using camera_frames_turn [OF ok assms(4)] assms(2) by simp
  also have "\<dots> = rotate (n mod length [b0, b1]) [b0, b1]"
    by (rule rotate_conv_mod)
  also have "n mod length [b0, b1] = 1"
    using assms(3) by (simp add: odd_iff_mod_2_eq_one flip: numeral_2_eq_2)
  also have "rotate 1 [b0, b1] = [b1, b0]"
    by simp
  finally have "held w' = [b1, b0]" .
  moreover have "held w' = b # held w''"
    using ok d unfolding camera_ok_def by (metis (mono_tags, lifting) case_prod_conv)
  ultimately show ?thesis
    by (simp add: camera_image_def)
qed

text \<open>A driver as the list of buffers it holds; a buffer's memory follows it.\<close>

definition ex_camera :: "vbuf list camera_api" where
  "ex_camera =
     \<lparr>display_ready = (\<lambda>w. True), video_ready = (\<lambda>w. True), video_get_caps = (\<lambda>w. (0, w)),
      video_get_format = (\<lambda>w. ((0, \<lparr>fmt_pixelformat = 0, fmt_width = 640, fmt_height = 480, fmt_pitch = 1280, fmt_size = 614400\<rparr>), w)),
      video_set_format = (\<lambda>f w. ((0, f), w)), video_get_selection = (\<lambda>s w. ((- 88, s), w)),
      video_set_selection = (\<lambda>s w. ((- 88, s), w)),
      video_alloc = (\<lambda>n w. (0x1000 * of_nat (length w + 1), w)), vbuf_set_type = (\<lambda>b w. w),
      vbuf_memory = (\<lambda>b. b + 16), video_enqueue = (\<lambda>b w. (0, w @ [b])),
      video_dequeue = (\<lambda>w. case w of [] \<Rightarrow> ((- 11, 0), []) | b # w \<Rightarrow> ((0, b), w)),
      video_set_ctrl = (\<lambda>c v w. w), video_stream_start = (\<lambda>w. (0, w)), display_blanking_off = (\<lambda>w. (0, w)),
      lv_img_create = (\<lambda>w. w), lv_show = (\<lambda>i w. w)\<rparr>"

lemma ex_camera_ok: "camera_ok ex_camera (\<lambda>w. w)"
  by (auto simp: camera_ok_def ex_camera_def split: list.splits)

lemma camera_main_runs:
  "camera_main 3 ex_camera \<lparr>cfg_crop = None, cfg_width = 320, cfg_height = 240, cfg_hflip = True, cfg_vflip = False,
     lv_color_size = 2\<rparr> [] = (None, [0x2000, 0x1000])"
proof -
  have "camera_buffers 2 ex_camera fmt [] [] = (Inr [0x1000, 0x2000], [0x1000, 0x2000])" for fmt
    unfolding numeral_2_eq_2 by (simp add: ex_camera_def)
  moreover have "camera_frames 3 ex_camera img [0x1000, 0x2000] = (None, [0x2000, 0x1000])" for img
    unfolding numeral_3_eq_3 by (simp add: camera_frame_def ex_camera_def)
  moreover have "lv_img_create ex_camera w = w" for w
    by (simp add: ex_camera_def)
  moreover have "camera_start ex_camera C w = (Inr (), w)" for C w
    by (simp add: camera_start_def ex_camera_def)
  moreover obtain f where "camera_format ex_camera \<lparr>cfg_crop = None, cfg_width = 320, cfg_height = 240, cfg_hflip = True,
      cfg_vflip = False, lv_color_size = 2\<rparr> [] = (Inr f, [])"
    by (simp add: camera_format_def set_crop_def set_compose_def ex_camera_def ENOSYS_def Let_def)
  ultimately show ?thesis
    by (simp add: camera_main_def)
qed

end
