(* ===== verification/Hu_System.thy ===== *)
theory Hu_System
  imports Huflash App_Server
begin

text \<open>
  The flash commands through all their layers: a driver hands bytes to the server's thread
  (\<open>App_Server\<close>), the receiver finds the frame and the command (\<open>Hupacket\<close>), the command works on
  the flash (\<open>Huflash\<close>), its data having been Ascii85 (\<open>Ascii85\<close>), and the answer goes back as a frame.

  The definitions of this theory are not code: they are what each command promises, as a function from the
  records of the request and the world to the status and the world in which the answer is sent.  The
  properties say that the code of the four files together does just that.
\<close>

section \<open>What the commands promise\<close>

text \<open>
  Which partition a request means.  Its own name, unless it asks for the \<open>inactive\<close> one and the build keeps
  the boot information: then the slot that is not running, where slot 0 and slot 1 are the two there are.  When
  the running slot cannot be read the name is looked up as it is.
\<close>

definition running_slot :: "'w hu_env \<Rightarrow> 'w \<Rightarrow> u8 option" where
  "running_slot env w =
     (let (rc, v) = (if output_settings (hu_cfg env) then settings_runtime_get (hu_boot env) w else blinfo_lookup (hu_boot env) w);
          known = (if output_settings (hu_cfg env) then rc = 1 else 0 \<le> rc)
      in if known then Some (case v of None \<Rightarrow> 0xff | Some slot \<Rightarrow> slot) else None)"

definition partition_meant :: "'w hu_env \<Rightarrow> bytes \<Rightarrow> 'w \<Rightarrow> bytes option" where
  "partition_meant env part w =
     (if part = lit ''inactive'' \<and> retention_info (hu_cfg env) then
        (case running_slot env w of
           None \<Rightarrow> Some part
         | Some slot \<Rightarrow> if slot = 0 then Some (lit ''slot1'') else if slot = 1 then Some (lit ''slot0'') else None)
      else Some part)"

text \<open>
  Opening: the area, or the status of the refusal.  A partition that is not in the table is invalid, one whose
  id is not 0 is refused with its id as the status, and only area 0 of the flash map is ever opened.
\<close>

definition opened :: "'w hu_env \<Rightarrow> bytes \<Rightarrow> 'w \<Rightarrow> (int + flash_area) \<times> 'w" where
  "opened env part w =
     (case Option.bind (partition_meant env part w) (map_of (map (\<lambda>p. (partition_name p, part_id p)) (hu_parts env))) of
        None \<Rightarrow> (Inl (- EINVAL), w)
      | Some n \<Rightarrow>
          if n \<noteq> 0 then (Inl (uint n), w)
          else (case flash_area_open (hu_flash env) 0 w of
                  ((rc, fa), w) \<Rightarrow>
                    if rc = 0 then (Inr (the fa), w)
                    else (Inl rc, case fa of None \<Rightarrow> w | Some a \<Rightarrow> flash_area_close (hu_flash env) a w)))"

definition erase_spec :: "'a flash_world_scheme hu_env \<Rightarrow> bytes \<Rightarrow> 'a flash_world_scheme \<Rightarrow> int \<times> 'a flash_world_scheme" where
  "erase_spec env part w =
     (case opened env part (w\<lparr>last_size := -1\<rparr>) of
        (Inl rc, w) \<Rightarrow> (rc, w)
      | (Inr fa, w) \<Rightarrow>
          (let (rc, w) = flash_area_erase (hu_flash env) fa 0 (fa_size fa) w
           in (rc, flash_area_close (hu_flash env) fa w)))"

text \<open>
  The data of a \<open>flash\<close> command: the bytes to write, or why they are refused.  A text of more than
  320 characters is refused for its size, whatever it stands for.
\<close>

definition flash_data :: "int \<Rightarrow> bytes \<Rightarrow> int + bytes" where
  "flash_data sz text =
     (if sz \<le> ASCII85_MAX_CHUNK_SIZE then Inl (- EINVAL)
      else if length text > 320 then Inl (- (ascii85_err_out_buf_too_small + ASCII85_ERROR_CODE_START + EASCII85))
      else case a85_decode text of
          Inl e \<Rightarrow> Inl (- (e + ASCII85_ERROR_CODE_START + EASCII85))
        | Inr bs \<Rightarrow> if int (length bs) = sz then Inr bs else Inl (- EDESZA85))"

definition flash_spec ::
  "'a flash_world_scheme hu_env \<Rightarrow> bytes \<Rightarrow> bytes \<Rightarrow> bytes \<Rightarrow> bytes \<Rightarrow> 'a flash_world_scheme \<Rightarrow> int \<times> 'a flash_world_scheme" where
  "flash_spec env part off len text w =
     (case opened env part w of
        (Inl rc, w) \<Rightarrow> (rc, w)
      | (Inr fa, w) \<Rightarrow>
          (let sz = strtol 16 len
           in case flash_data sz text of
                Inl rc \<Rightarrow> (rc, flash_area_close (hu_flash env) fa w)
              | Inr bs \<Rightarrow>
                  (let (rc, w) = flash_area_write (hu_flash env) fa (strtol 16 off) bs w;
                       w = (if rc = 0 \<and> last_size w \<noteq> sz then w\<lparr>last_size := sz\<rparr> else w)
                   in (rc, flash_area_close (hu_flash env) fa w))))"

text \<open>A successful opening gives an area.\<close>

definition open_ok :: "'w hu_env \<Rightarrow> bool" where
  "open_ok env \<longleftrightarrow> (\<forall>n w. fst (fst (flash_area_open (hu_flash env) n w)) = 0 \<longrightarrow>
     snd (fst (flash_area_open (hu_flash env) n w)) \<noteq> None)"

section \<open>An exchange of a request and its answer\<close>

definition answer_crc :: "'w hup_env \<Rightarrow> int \<Rightarrow> bytes option \<Rightarrow> bytes \<Rightarrow> bytes option \<Rightarrow> bytes list \<Rightarrow> bytes option \<Rightarrow> bytes option" where
  "answer_crc env rc i name s out c =
     (if c \<noteq> None then Some (crc_text env (frame_body i name s (env_itoa env rc 10 # out))) else None)"

text \<open>The request is a frame with a right checksum or none, and there is room for the answer.\<close>

definition exchange_ok ::
  "'w hup_env \<Rightarrow> int \<Rightarrow> bytes option \<Rightarrow> bytes \<Rightarrow> bytes option \<Rightarrow> bytes list \<Rightarrow> bytes option \<Rightarrow> bytes list \<Rightarrow> bool" where
  "exchange_ok env rc i name s recs c out \<longleftrightarrow>
     frame_ok i name s recs c \<and> crc_matches env (frame_body i name s recs) c \<and> \<bar>rc\<bar> < 2 ^ 31 \<and>
     frame_ok i name s (env_itoa env rc 10 # out) (answer_crc env rc i name s out c) \<and>
     length (response_bytes env rc i name s out (c \<noteq> None)) < RECV_BUFFER_SIZE"

text \<open>Any receiver that is given the bytes \<open>bs\<close> calls its handler for \<open>name\<close> with the status and records.\<close>

definition client_reads ::
  "'w hup_env \<Rightarrow> bytes \<Rightarrow> int \<Rightarrow> bytes option \<Rightarrow> bytes \<Rightarrow> bytes option \<Rightarrow> bytes list \<Rightarrow> bytes option \<Rightarrow> bool" where
  "client_reads env bs rc i name s out c \<longleftrightarrow>
     (\<forall>g resps cmds f v. hup_shape g \<longrightarrow> find_cmd resps name = Some f \<longrightarrow>
        (\<exists>g'. frame_view g' i name s (env_itoa env rc 10 # out) (answer_crc env rc i name s out c) \<and>
           process_hupacket env cmds resps bs g v = map_option (map_prod reset_hupacket id) (f g' v)))"

lemma exchange_client:
  fixes env :: "'w hup_env"
  assumes "exchange_ok env rc i name s recs c out"
  shows "client_reads env (response_bytes env rc i name s out (c \<noteq> None)) rc i name s out c"
proof -
  have st: "is_start (if rc = 0 then ACK_OF_RESPONSE else NAK_OF_RESPONSE)"
    "(if rc = 0 then ACK_OF_RESPONSE else NAK_OF_RESPONSE) \<noteq> ENQ_OF_COMMAND"
    by (simp_all add: is_start_def hup_marks)
  have f: "frame_ok i name s (env_itoa env rc 10 # out) (answer_crc env rc i name s out c)"
    using assms by (simp add: exchange_ok_def)
  have b: "response_bytes env rc i name s out (c \<noteq> None) =
      (if rc = 0 then ACK_OF_RESPONSE else NAK_OF_RESPONSE) # frame_body i name s (env_itoa env rc 10 # out) @
        crc_part (answer_crc env rc i name s out c) @ [END_OF_PACKET]"
    by (simp add: response_bytes_def answer_crc_def Let_def)
  show ?thesis
    unfolding client_reads_def b
  proof (intro allI impI)
    fix g and resps cmds :: "'w hup_cmd list" and fn v
    assume g: "hup_shape g" and fn: "find_cmd resps name = Some fn"
    from frame_dispatched [OF g st(1) f, of env cmds resps v] st(2) fn
    show "\<exists>g'. frame_view g' i name s (env_itoa env rc 10 # out) (answer_crc env rc i name s out c) \<and>
        process_hupacket env cmds resps ((if rc = 0 then ACK_OF_RESPONSE else NAK_OF_RESPONSE) #
          frame_body i name s (env_itoa env rc 10 # out) @ crc_part (answer_crc env rc i name s out c) @ [END_OF_PACKET]) g v =
        map_option (map_prod reset_hupacket id) (fn g' v)"
      by auto
  qed
qed

text \<open>The server on the bytes of one request is the command on any handle that shows the request.\<close>

lemma server_command:
  assumes "recvs api d cs d'" and "concat cs = ENQ_OF_COMMAND # frame_body i name s recs @ crc_part c @ [END_OF_PACKET]"
    and "hup_shape h" and "frame_ok i name s recs c" and "crc_matches env (frame_body i name s recs) c"
    and "find_cmd cmds name = Some f"
    and "\<And>h1. frame_view h1 i name s recs c \<Longrightarrow> length (tx_buffer h1) = RECV_BUFFER_SIZE \<Longrightarrow> \<exists>h2. f h1 w = Some (h2, w')"
  shows "\<exists>h'. hup_server_loop env cmds resps api h w d = Some (h', w', d')"
proof -
  obtain h1 where h1: "frame_view h1 i name s recs c" "tx_buffer h1 = tx_buffer h"
    "process_hupacket env cmds resps (concat cs) h w = map_option (map_prod reset_hupacket id) (f h1 w)"
    using frame_dispatched [OF assms(3) _ assms(4), of ENQ_OF_COMMAND env cmds resps w] assms(2,5,6)
    by (auto simp: is_start_def)
  moreover have "length (tx_buffer h1) = RECV_BUFFER_SIZE"
    using assms(3) h1(2) by (simp add: hup_shape_def)
  ultimately obtain h2 where "f h1 w = Some (h2, w')" using assms(7) by blast
  with h1(3) show ?thesis by (simp add: server_stream [OF assms(1)])
qed

section \<open>The commands do what they promise\<close>

lemma get_partition_id_map_of:
  "get_partition_id ps name =
     (case map_of (map (\<lambda>p. (partition_name p, part_id p)) ps) name of None \<Rightarrow> - EINVAL | Some n \<Rightarrow> uint n)"
  by (induction ps) auto

lemma partition_rc_meant:
  "partition_rc env part w =
     (case Option.bind (partition_meant env part w) (map_of (map (\<lambda>p. (partition_name p, part_id p)) (hu_parts env))) of
        None \<Rightarrow> - EINVAL | Some n \<Rightarrow> uint n)"
proof -
  have "bootloader_active_slot (hu_cfg env) (hu_boot env) j w = (rc, slot) \<Longrightarrow> retention_info (hu_cfg env) \<Longrightarrow>
      if rc = 0 then running_slot env w = Some slot else running_slot env w = None" for j rc slot
    by (auto simp: bootloader_active_slot_def running_slot_def EIO_def Let_def split: if_splits prod.splits)
  then show ?thesis
    by (cases "bootloader_active_slot (hu_cfg env) (hu_boot env) 0 w")
      (auto simp: partition_rc_def partition_meant_def get_partition_id_map_of split: if_splits)
qed

lemma opened_cases:
  assumes "open_ok env"
  obtains rc fa w1 where "open_flash_partition env part w = ((rc, fa), w1)" "rc \<noteq> 0"
      "opened env part w = (Inl rc, close_flash_partition env fa w1)"
    | fa w1 where "open_flash_partition env part w = ((0, Some fa), w1)" "opened env part w = (Inr fa, w1)"
proof (cases "partition_rc env part w = 0")
  case False
  then have "open_flash_partition env part w = ((partition_rc env part w, None), w)"
    by (simp add: open_flash_partition_def)
  moreover have "opened env part w = (Inl (partition_rc env part w), close_flash_partition env None w)"
    using False by (auto simp: opened_def partition_rc_meant close_flash_partition_def split: option.splits)
  ultimately show ?thesis using False that(1) by blast
next
  case True
  obtain rc fa w1 where o: "flash_area_open (hu_flash env) 0 w = ((rc, fa), w1)" by (metis prod.exhaust_sel)
  have f: "open_flash_partition env part w = ((rc, fa), w1)" using True o by (simp add: open_flash_partition_def)
  have id: "Option.bind (partition_meant env part w) (map_of (map (\<lambda>p. (partition_name p, part_id p)) (hu_parts env))) = Some 0"
    using True by (auto simp: partition_rc_meant EINVAL_def uint_0_iff split: option.splits)
  show ?thesis
  proof (cases "rc = 0")
    case True
    then have "fa \<noteq> None" using o assms [unfolded open_ok_def, rule_format, of 0 w] by auto
    then show ?thesis using that(2) [of "the fa" w1] o f id True by (auto simp: opened_def)
  next
    case False
    then show ?thesis using that(1) [OF f] o id by (simp add: opened_def close_flash_partition_def split: option.splits)
  qed
qed

lemma erase_command:
  assumes "frame_view h i name s [part] c" and "length (tx_buffer h) = RECV_BUFFER_SIZE" and "itoa_ok (hu_hup env)"
    and "open_ok env" and spec: "erase_spec env part w = (rc, w')" and "\<bar>rc\<bar> < 2 ^ 31"
    and "response_fits env rc i name s [part] (c \<noteq> None)"
  shows "\<exists>h'. hup_erase env h w = Some (h', snd (env_send (hu_hup env)
      (response_bytes (hu_hup env) rc i name s [part] (c \<noteq> None)) w'))"
proof -
  have a: "argc h = 2" "arg_str h 1 = Some part"
    using assms(1) frame_view_args [OF assms(1), of 0] by (simp_all add: frame_view_def)
  have fin: "\<exists>h'. finish env rc fa 1 h w1 = Some (h', snd (env_send (hu_hup env)
      (response_bytes (hu_hup env) rc i name s [part] (c \<noteq> None)) (close_flash_partition env fa w1)))" for fa w1
    using finish_sends [OF assms(1) _ assms(2,3,6), where k = 1] assms(7) by simp
  show ?thesis
  proof (rule opened_cases [OF assms(4), of part "w\<lparr>last_size := -1\<rparr>"])
    fix r fa w1
    assume "open_flash_partition env part (w\<lparr>last_size := -1\<rparr>) = ((r, fa), w1)" "r \<noteq> 0"
      "opened env part (w\<lparr>last_size := -1\<rparr>) = (Inl r, close_flash_partition env fa w1)"
    then show ?thesis using a spec fin [of fa w1] by (simp add: hup_erase_def erase_spec_def)
  next
    fix fa w1
    assume "open_flash_partition env part (w\<lparr>last_size := -1\<rparr>) = ((0, Some fa), w1)"
      "opened env part (w\<lparr>last_size := -1\<rparr>) = (Inr fa, w1)"
    then show ?thesis
      using a spec fin [of "Some fa"]
      by (auto simp: hup_erase_def erase_spec_def close_flash_partition_def split: prod.splits)
  qed
qed

lemma frame_view_tx [simp]: "frame_view (h\<lparr>tx_buffer := b\<rparr>) i name s recs c = frame_view h i name s recs c"
  by (simp add: frame_view_def points_def hstr_def split: option.splits)

lemma flash_data_refused: "flash_data sz text = Inl rc \<Longrightarrow> rc \<noteq> 0"
  using a85_decode_errors [of "text"]
  by (auto simp: flash_data_def ascii85_err_defs ASCII85_ERROR_CODE_START_def EASCII85_def ELASTERROR_def EDESZA85_def
      EINVAL_def split: if_splits sum.splits)

lemma flash_data_length: "flash_data sz text = Inr bs \<Longrightarrow> int (length bs) = sz"
  by (auto simp: flash_data_def split: if_splits sum.splits)

text \<open>The decoding of the code is that of the promise.\<close>

lemma flash_decode_data:
  assumes p: "rd (argv h) 4 = Some p" and d: "hstr h p = Some text" and tx: "length (tx_buffer h) = RECV_BUFFER_SIZE"
    and len: "length text < RECV_BUFFER_SIZE" and sz: "\<not> sz \<le> ASCII85_MAX_CHUNK_SIZE"
  shows "\<exists>tx. flash_decode sz h = Some (case flash_data sz text of Inl rc \<Rightarrow> rc | Inr _ \<Rightarrow> 0, h\<lparr>tx_buffer := tx\<rparr>) \<and>
    length tx = RECV_BUFFER_SIZE \<and> (\<forall>bs. flash_data sz text = Inr bs \<longrightarrow> take (nat sz) tx = bs)"
proof -
  let ?inp = "drop p (buffer h)" and ?n = "int (length text)"
  have sz': "0 < sz" using sz by (simp add: ASCII85_MAX_CHUNK_SIZE_def)
  have le: "?n \<le> int (length ?inp)" "1280 \<le> int (length (tx_buffer h))" "?n \<le> ascii85_in_length_max"
    using hstr_take [OF d] tx len by (simp_all add: RECV_BUFFER_SIZE_def ascii85_in_length_max_def)
  have mx: "ascii85_get_max_decoded_length ?n = 4 * ?n"
    using le(3) by (simp add: ascii85_get_max_decoded_length_def)
  note ks = ASCII85_MAX_CHUNK_SIZE_def ASCII85_ERROR_CODE_START_def EASCII85_def ELASTERROR_def EDESZA85_def ascii85_err_defs
  show ?thesis
  proof (cases "length text > 320")
    case True
    with decode_ascii85_err(2) [of ?n 1280 ?inp "tx_buffer h"] le(3) mx have
      "decode_ascii85 ?inp ?n (tx_buffer h) 1280 = Some (ascii85_err_out_buf_too_small, tx_buffer h)" by simp
    then show ?thesis
      using p d True sz tx by (intro exI [of _ "tx_buffer h"]) (simp add: flash_decode_def flash_data_def ks Let_def)
  next
    case False
    with decode_ascii85_ok [OF _ le(3,1) _ le(2)] mx hstr_take [OF d]
    have "decodes_to (decode_ascii85 ?inp ?n (tx_buffer h) 1280) 0 (tx_buffer h) (a85_decode text)" by simp
    then show ?thesis
      using p d False sz sz' tx a85_decode_errors [of "text"]
      by (cases "a85_decode text") (auto simp: decodes_to_iff flash_decode_def flash_data_def ks Let_def)
  qed
qed

lemma flash_command:
  assumes v: "frame_view h i name s [part, off, len, text] c" and tx: "length (tx_buffer h) = RECV_BUFFER_SIZE"
    and it: "itoa_ok (hu_hup env)" and op: "open_ok env" and short: "length text < RECV_BUFFER_SIZE"
    and spec: "flash_spec env part off len text w = (rc, w')" and rc: "\<bar>rc\<bar> < 2 ^ 31"
    and fit: "response_fits env rc i name s [part, off, len] (c \<noteq> None)"
  shows "\<exists>h'. hup_flash env h w = Some (h', snd (env_send (hu_hup env)
      (response_bytes (hu_hup env) rc i name s [part, off, len] (c \<noteq> None)) w'))"
proof -
  have a: "argc h = 5" "arg_str h 1 = Some part" "arg_str h 2 = Some off" "arg_str h 3 = Some len"
    "rd (argv h) 4 = Some (argv h ! 4)" "hstr h (argv h ! 4) = Some text"
    using v frame_view_args [OF v, of 0] frame_view_args [OF v, of 1] frame_view_args [OF v, of 2]
    by (auto simp: frame_view_def numeral_eq_Suc)
  have fin: "\<exists>h'. finish env rc fa 3 g w1 = Some (h', snd (env_send (hu_hup env)
      (response_bytes (hu_hup env) rc i name s [part, off, len] (c \<noteq> None)) (close_flash_partition env fa w1)))"
    if "g = h \<or> (\<exists>b. g = h\<lparr>tx_buffer := b\<rparr> \<and> length b = RECV_BUFFER_SIZE)" for fa g w1
  proof -
    have g: "frame_view g i name s [part, off, len, text] c" "length (tx_buffer g) = RECV_BUFFER_SIZE"
      using that v tx by auto
    have t: "take 3 [part, off, len, text] = [part, off, len]" by simp
    from finish_sends [OF g(1) _ g(2) it rc, of 3 fa w1] fit show ?thesis unfolding t by simp
  qed
  show ?thesis
  proof (rule opened_cases [OF op, of part w])
    fix r fa w1
    assume "open_flash_partition env part w = ((r, fa), w1)" "r \<noteq> 0"
      "opened env part w = (Inl r, close_flash_partition env fa w1)"
    then show ?thesis using a spec fin [of h fa w1] by (simp add: hup_flash_def flash_spec_def)
  next
    fix fa w1
    assume o: "open_flash_partition env part w = ((0, Some fa), w1)" "opened env part w = (Inr fa, w1)"
    show ?thesis
    proof (cases "strtol 16 len \<le> ASCII85_MAX_CHUNK_SIZE")
      case True
      then show ?thesis
        using a o spec fin [of h "Some fa" w1]
        by (simp add: hup_flash_def flash_spec_def flash_data_def close_flash_partition_def)
    next
      case False
      obtain b where b: "flash_decode (strtol 16 len) h =
          Some (case flash_data (strtol 16 len) text of Inl rc \<Rightarrow> rc | Inr _ \<Rightarrow> 0, h\<lparr>tx_buffer := b\<rparr>)"
        "length b = RECV_BUFFER_SIZE" "\<forall>bs. flash_data (strtol 16 len) text = Inr bs \<longrightarrow> take (nat (strtol 16 len)) b = bs"
        using flash_decode_data [OF a(5,6) tx short False] by blast
      show ?thesis
      proof (cases "flash_data (strtol 16 len) text")
        case (Inl e)
        then show ?thesis
          using a o spec False b flash_data_refused [OF Inl] fin [of "h\<lparr>tx_buffer := b\<rparr>" "Some fa" w1]
          by (auto simp: hup_flash_def flash_spec_def close_flash_partition_def)
      next
        case (Inr bs)
        obtain r w2 where wr: "flash_area_write (hu_flash env) fa (strtol 16 off) bs w1 = (r, w2)" by fastforce
        have "take (nat (strtol 16 len)) b = bs" using b(3) Inr by simp
        moreover from this have "strtol 16 len \<le> int (length b)"
          using flash_data_length [OF Inr] by (metis length_take min.cobounded1 of_nat_mono)
        moreover have "\<exists>h'. finish env rc (Some fa) 3 (h\<lparr>tx_buffer := b\<rparr>) w3 = Some (h', snd (env_send (hu_hup env)
            (response_bytes (hu_hup env) rc i name s [part, off, len] (c \<noteq> None)) (flash_area_close (hu_flash env) fa w3)))" for w3
          using fin [of "h\<lparr>tx_buffer := b\<rparr>" "Some fa" w3] b(2) by (auto simp: close_flash_partition_def)
        moreover have "rc = r \<and> w' = flash_area_close (hu_flash env) fa
            (if r = 0 \<and> last_size w2 \<noteq> strtol 16 len then w2\<lparr>last_size := strtol 16 len\<rparr> else w2)"
          using o(2) spec Inr wr by (auto simp: flash_spec_def Let_def)
        ultimately show ?thesis
          using a o(1) False b(1) Inr wr by (simp add: hup_flash_def Let_def)
      qed
    qed
  qed
qed

section \<open>Over the wire\<close>

lemma frame_record_short:
  assumes "frame_ok i name s recs c" and "t \<in> set recs"
  shows "length t < RECV_BUFFER_SIZE"
proof -
  have "length t \<le> length (marked RECORD_MARK recs)"
    using assms(2) by (induction recs) (auto simp: marked_def)
  then show ?thesis using assms(1) by (auto simp: frame_ok_def frame_body_def)
qed

lemma flash_cmds_find:
  "find_cmd (hup_flash_cmds env) (lit ''erase'') = Some (hup_erase env)"
  "find_cmd (hup_flash_cmds env) (lit ''flash'') = Some (hup_flash env)"
  by (simp_all add: hup_flash_cmds_def lit_def)

text \<open>A command that does what is promised does so through the server, and its answer is read.\<close>

lemma command_over_the_wire:
  fixes f :: "'w hup_fn"
  assumes "recvs api d cs d'" and "concat cs = ENQ_OF_COMMAND # frame_body i name s recs @ crc_part c @ [END_OF_PACKET]"
    and "hup_shape h" and "find_cmd cmds name = Some f"
    and x: "exchange_ok (hu_hup env) rc i name s recs c out"
    and f: "\<And>h1. frame_view h1 i name s recs c \<Longrightarrow> length (tx_buffer h1) = RECV_BUFFER_SIZE \<Longrightarrow>
      response_fits env rc i name s out (c \<noteq> None) \<Longrightarrow> \<bar>rc\<bar> < 2 ^ 31 \<Longrightarrow>
      \<exists>h2. f h1 w = Some (h2, snd (env_send (hu_hup env) (response_bytes (hu_hup env) rc i name s out (c \<noteq> None)) w'))"
  shows "(\<exists>h'. hup_server_loop (hu_hup env) cmds resps api h w d =
      Some (h', snd (env_send (hu_hup env) (response_bytes (hu_hup env) rc i name s out (c \<noteq> None)) w'), d')) \<and>
    client_reads (hu_hup env) (response_bytes (hu_hup env) rc i name s out (c \<noteq> None)) rc i name s out c"
proof -
  have "frame_ok i name s recs c" "crc_matches (hu_hup env) (frame_body i name s recs) c" "\<bar>rc\<bar> < 2 ^ 31"
    "response_fits env rc i name s out (c \<noteq> None)"
    using x by (simp_all add: exchange_ok_def response_fits_def)
  with server_command [OF assms(1-3) _ _ assms(4), of "hu_hup env" w _ resps] f exchange_client [OF x]
  show ?thesis by blast
qed

text \<open>
  Claim C1.  Erasing over the wire: when a driver hands the server the bytes of an \<open>erase\<close> request,
  however they are cut, the server does to the flash what \<open>erase_spec\<close> says (open the partition with id
  0, erase all of it in one call, close it; refuse any other) and sends one answer, from which every receiver
  reads the status and the name of the partition.
\<close>

theorem erase_over_the_wire:
  assumes "recvs api d cs d'"
    and "concat cs = ENQ_OF_COMMAND # frame_body i (lit ''erase'') s [part] @ crc_part c @ [END_OF_PACKET]"
    and "hup_shape h" and "itoa_ok (hu_hup env)" and "open_ok env"
    and "erase_spec env part w = (rc, w')"
    and "exchange_ok (hu_hup env) rc i (lit ''erase'') s [part] c [part]"
  shows "(\<exists>h'. hup_server_loop (hu_hup env) (hup_flash_cmds env) [] api h w d =
      Some (h', snd (env_send (hu_hup env) (response_bytes (hu_hup env) rc i (lit ''erase'') s [part] (c \<noteq> None)) w'), d')) \<and>
    client_reads (hu_hup env) (response_bytes (hu_hup env) rc i (lit ''erase'') s [part] (c \<noteq> None)) rc i (lit ''erase'') s [part] c"
  by (rule command_over_the_wire [OF assms(1-3) flash_cmds_find(1) assms(7)])
    (rule erase_command [OF _ _ assms(4-6)])

text \<open>
  Claim C2.  Writing over the wire: the server does to the flash what \<open>flash_spec\<close> says: it writes the
  bytes the Ascii85 data stand for at the offset, when they are as many as announced and more than 256 and the
  text is at most 320 characters long, and otherwise answers with the status of the first reason against it.
\<close>

theorem flash_over_the_wire:
  assumes "recvs api d cs d'"
    and "concat cs = ENQ_OF_COMMAND # frame_body i (lit ''flash'') s [part, off, len, dat] @ crc_part c @ [END_OF_PACKET]"
    and "hup_shape h" and "itoa_ok (hu_hup env)" and "open_ok env"
    and "flash_spec env part off len dat w = (rc, w')"
    and "exchange_ok (hu_hup env) rc i (lit ''flash'') s [part, off, len, dat] c [part, off, len]"
  shows "(\<exists>h'. hup_server_loop (hu_hup env) (hup_flash_cmds env) [] api h w d =
      Some (h', snd (env_send (hu_hup env) (response_bytes (hu_hup env) rc i (lit ''flash'') s [part, off, len] (c \<noteq> None)) w'), d')) \<and>
    client_reads (hu_hup env) (response_bytes (hu_hup env) rc i (lit ''flash'') s [part, off, len] (c \<noteq> None)) rc i
      (lit ''flash'') s [part, off, len] c"
proof -
  have "length dat < RECV_BUFFER_SIZE"
    using assms(7) frame_record_short [of i "lit ''flash''" s "[part, off, len, dat]" c dat] by (simp add: exchange_ok_def)
  then show ?thesis
    by (intro command_over_the_wire [OF assms(1-3) flash_cmds_find(2) assms(7)] flash_command [OF _ _ assms(4,5) _ assms(6)])
qed

section \<open>Two exchanges\<close>

text \<open>A driver that hands over its state one byte at a time and then fails.\<close>

definition byte_driver :: "(bytes, 'w) app_api" where
  "byte_driver = \<lparr>api_init = None, api_deinit = None,
     api_recv = \<lambda>n d w. (case d of [] \<Rightarrow> ((-1, []), [], w) | b # d \<Rightarrow> ((1, [b]), d, w))\<rparr>"

lemma byte_driver_recvs: "recvs byte_driver d (map (\<lambda>b. [b]) d) []"
proof (induction d)
  case Nil
  then show ?case by (auto simp: byte_driver_def intro: recvs_stop [where n = "-1" and data = "[]"])
next
  case (Cons b d)
  from recvs_data [of byte_driver "b # d" 1 "[b]" d "map (\<lambda>b. [b]) d" "[]"] Cons show ?case
    by (simp add: byte_driver_def)
qed

lemma concat_bytes [simp]: "concat (map (\<lambda>b. [b]) d) = d"
  by (induction d) simp_all

lemma hu_env_ex_open: "open_ok hu_env_ex"
  by (simp add: open_ok_def hu_env_ex_def)

lemma erase_over_the_wire_witness:
  "\<exists>h'. hup_server_loop (hu_hup hu_env_ex) (hup_flash_cmds hu_env_ex) [] byte_driver init_hupacket flash_world_ex
      (ENQ_OF_COMMAND # frame_body None (lit ''erase'') None [lit ''slot0''] @ [END_OF_PACKET]) =
    Some (h', flash_world_ex\<lparr>log_ops := [''erase'', ''close''], log_sent :=
      [response_bytes (hu_hup hu_env_ex) 0 None (lit ''erase'') None [lit ''slot0''] False]\<rparr>, [])"
proof -
  have "Option.bind (partition_meant hu_env_ex (lit ''slot0'') (flash_world_ex\<lparr>last_size := -1\<rparr>))
      (map_of (map (\<lambda>p. (partition_name p, part_id p)) (hu_parts hu_env_ex))) = Some 0"
    unfolding hu_env_ex_def flash_world_ex_def by code_simp
  then have "erase_spec hu_env_ex (lit ''slot0'') flash_world_ex = (0, flash_world_ex\<lparr>log_ops := [''erase'', ''close'']\<rparr>)"
    by (simp add: erase_spec_def opened_def) (simp add: hu_env_ex_def flash_world_ex_def)
  moreover have "exchange_ok (hu_hup hu_env_ex) 0 None (lit ''erase'') None [lit ''slot0''] None [lit ''slot0'']"
    unfolding hu_env_ex_def by code_simp
  ultimately show ?thesis
    using erase_over_the_wire [OF byte_driver_recvs _ hup_shape_init hu_env_itoa hu_env_ex_open,
        of "ENQ_OF_COMMAND # frame_body None (lit ''erase'') None [lit ''slot0''] @ [END_OF_PACKET]" None None "lit ''slot0''" None
          flash_world_ex 0]
    by (auto simp: crc_part_def) (auto simp: hu_env_ex_def flash_world_ex_def)
qed

text \<open>65 letters \<open>z\<close> stand for 260 bytes, which the command writes.\<close>

lemma a85_decode_zs: "a85_decode (replicate n 122) = Inr (replicate (4 * n) 0)"
proof (induction n)
  case 0
  show ?case by (simp add: a85_decode.simps)
next
  case (Suc n)
  then show ?case by (simp add: a85_decode_z) (simp add: numeral_eq_Suc)
qed

lemma flash_over_the_wire_witness:
  "\<exists>h'. hup_server_loop (hu_hup hu_env_ex) (hup_flash_cmds hu_env_ex) [] byte_driver init_hupacket flash_world_ex
      (ENQ_OF_COMMAND # frame_body None (lit ''flash'') None [lit ''slot0'', lit ''0'', lit ''104'', replicate 65 122] @ [END_OF_PACKET]) =
    Some (h', flash_world_ex\<lparr>last_size := 260, log_ops := [''write'', ''close''], log_sent :=
      [response_bytes (hu_hup hu_env_ex) 0 None (lit ''flash'') None [lit ''slot0'', lit ''0'', lit ''104''] False]\<rparr>, [])"
proof -
  let ?recs = "[lit ''slot0'', lit ''0'', lit ''104'', replicate 65 122]"
  have "Option.bind (partition_meant hu_env_ex (lit ''slot0'') flash_world_ex)
      (map_of (map (\<lambda>p. (partition_name p, part_id p)) (hu_parts hu_env_ex))) = Some 0"
    unfolding hu_env_ex_def flash_world_ex_def by code_simp
  then have slot: "opened hu_env_ex (lit ''slot0'') flash_world_ex =
      (Inr \<lparr>fa_id = 0, fa_off = 0x20000, fa_size = 0x80000\<rparr>, flash_world_ex)"
    by (simp add: opened_def) (simp add: hu_env_ex_def)
  have n: "strtol 16 (lit ''104'') = 260" by code_simp
  have "flash_data 260 (replicate 65 122) = Inr (replicate 260 0)"
    by (simp add: flash_data_def a85_decode_zs ASCII85_MAX_CHUNK_SIZE_def)
  then have "flash_spec hu_env_ex (lit ''slot0'') (lit ''0'') (lit ''104'') (replicate 65 122) flash_world_ex =
      (0, flash_world_ex\<lparr>last_size := 260, log_ops := [''write'', ''close'']\<rparr>)"
    using slot by (simp add: flash_spec_def n) (simp add: hu_env_ex_def flash_world_ex_def)
  moreover have "exchange_ok (hu_hup hu_env_ex) 0 None (lit ''flash'') None ?recs None [lit ''slot0'', lit ''0'', lit ''104'']"
    unfolding hu_env_ex_def by code_simp
  ultimately show ?thesis
    using flash_over_the_wire [OF byte_driver_recvs _ hup_shape_init hu_env_itoa hu_env_ex_open,
        of "ENQ_OF_COMMAND # frame_body None (lit ''flash'') None ?recs @ [END_OF_PACKET]" None None "lit ''slot0''" "lit ''0''" "lit ''104''"
          "replicate 65 122" None flash_world_ex 0]
    by (auto simp: crc_part_def) (auto simp: hu_env_ex_def flash_world_ex_def)
qed

section \<open>Datagrams\<close>

text \<open>
  The server over UDP (\<open>lib/app/udp.c\<close>): the driver's handle, with the peer of the last datagram, is
  shared by receiving and by the sending of the command that answers.
\<close>

definition udp_api :: "'n udp_net \<Rightarrow> (unit, udp_handle \<times> 'n) app_api" where
  "udp_api N = \<lparr>api_init = None, api_deinit = None,
     api_recv = \<lambda>len d (u, n). (let (r, u, n) = recv_udp N u len n in (r, d, (u, n)))\<rparr>"

definition udp_env :: "'n udp_net \<Rightarrow> (bytes \<Rightarrow> u16) \<Rightarrow> (int \<Rightarrow> nat \<Rightarrow> bytes) \<Rightarrow> (udp_handle \<times> 'n) hup_env" where
  "udp_env N crc itoa = \<lparr>env_send = \<lambda>bs (u, n). (let (r, n) = send_udp N u bs n in (r, (u, n))),
     env_crc16 = crc, env_itoa = itoa\<rparr>"

text \<open>
  A network with the datagrams that have arrived and those sent, each with its peer: receiving takes the
  oldest, if it fits, and fails with an error when there is none.
\<close>

definition udp_ok :: "'n udp_net \<Rightarrow> ('n \<Rightarrow> (bytes \<times> bytes) list) \<Rightarrow> ('n \<Rightarrow> (bytes \<times> bytes) list) \<Rightarrow> bool" where
  "udp_ok N arrived sent \<longleftrightarrow>
     (\<forall>sock len n. case un_recvfrom N sock len n of ((r, dat, peer), n') \<Rightarrow>
        sent n' = sent n \<and>
        (case arrived n of
           [] \<Rightarrow> r < 0 \<and> un_errno N n' > 0
         | (p, bs) # q \<Rightarrow> length bs \<le> len \<longrightarrow> r = int (length bs) \<and> dat = bs \<and> peer = p \<and> arrived n' = q)) \<and>
     (\<forall>sock bs p n. case un_sendto N sock bs p n of (r, n') \<Rightarrow> arrived n' = arrived n \<and> sent n' = sent n @ [(p, bs)])"

lemma udp_okD:
  assumes "udp_ok N arrived sent"
  shows "un_recvfrom N sock len n = ((r, dat, peer), n') \<Longrightarrow> sent n' = sent n \<and>
      (case arrived n of
         [] \<Rightarrow> r < 0 \<and> un_errno N n' > 0
       | (p, bs) # q \<Rightarrow> length bs \<le> len \<longrightarrow> r = int (length bs) \<and> dat = bs \<and> peer = p \<and> arrived n' = q)"
    and "un_sendto N sock bs p n = (k, n') \<Longrightarrow> arrived n' = arrived n \<and> sent n' = sent n @ [(p, bs)]"
  using assms unfolding udp_ok_def by (metis (mono_tags, lifting) case_prod_conv)+

text \<open>A request that fits a datagram, and the bytes with which the server's command answers it.\<close>

definition answered :: "'w hup_env \<Rightarrow> 'w hup_cmd list \<Rightarrow> bytes \<Rightarrow> bytes \<Rightarrow> bool" where
  "answered env cmds req ans \<longleftrightarrow>
     (\<exists>i name s recs c f. req = ENQ_OF_COMMAND # frame_body i name s recs @ crc_part c @ [END_OF_PACKET] \<and>
        length req \<le> RECV_BUFFER_SIZE \<and> frame_ok i name s recs c \<and> crc_matches env (frame_body i name s recs) c \<and>
        find_cmd cmds name = Some f \<and>
        (\<forall>h w. frame_view h i name s recs c \<longrightarrow> hup_shape h \<longrightarrow>
           (\<exists>h'. f h w = Some (h', snd (env_send env ans w)) \<and> hup_shape h')))"

lemma hup_shape_reset [simp]: "hup_shape (reset_hupacket h) = hup_shape h"
  by (simp add: hup_shape_def reset_hupacket_def)

lemma answered_once:
  assumes "answered env cmds req ans" and "hup_shape h"
  shows "\<exists>h'. process_hupacket env cmds resps req h w = Some (h', snd (env_send env ans w)) \<and> hup_shape h'"
proof -
  from assms(1) obtain i name s recs c f where r: "req = ENQ_OF_COMMAND # frame_body i name s recs @ crc_part c @ [END_OF_PACKET]"
      "frame_ok i name s recs c" "crc_matches env (frame_body i name s recs) c" "find_cmd cmds name = Some f"
    and f: "\<forall>h w. frame_view h i name s recs c \<longrightarrow> hup_shape h \<longrightarrow>
           (\<exists>h'. f h w = Some (h', snd (env_send env ans w)) \<and> hup_shape h')"
    unfolding answered_def by blast
  obtain h1 where h1: "frame_view h1 i name s recs c" "hup_shape h1"
    "process_hupacket env cmds resps req h w = map_option (map_prod reset_hupacket id) (f h1 w)"
    using frame_dispatched [OF assms(2) _ r(2), of ENQ_OF_COMMAND env cmds resps w] r(1,3,4) by (auto simp: is_start_def)
  then obtain h2 where "f h1 w = Some (h2, snd (env_send env ans w))" "hup_shape h2" using f by blast
  with h1(3) show ?thesis by simp
qed

lemma answered_length: "answered env cmds req ans \<Longrightarrow> 0 < length req \<and> length req \<le> RECV_BUFFER_SIZE"
  by (auto simp: answered_def)

text \<open>
  Claim C3.  Several clients over UDP: of any sequence of datagrams, each a request that the server's commands
  answer, every one is answered once, in order, to the peer it came from; then the thread ends with the
  receiver's error.
\<close>

theorem udp_answers_senders:
  assumes "udp_ok N arrived sent" and "hup_shape h"
    and "arrived n = map (\<lambda>(p, req, ans). (p, req)) xs"
    and "\<forall>(p, req, ans)\<in>set xs. answered (udp_env N crc itoa) cmds req ans"
  shows "\<exists>h' u' n'. hup_server_loop (udp_env N crc itoa) cmds resps (udp_api N) h (u, n) () = Some (h', (u', n'), ()) \<and>
    sent n' = sent n @ map (\<lambda>(p, req, ans). (p, ans)) xs"
  using assms(2-4)
proof (induction xs arbitrary: h u n)
  case Nil
  obtain r dat p n' where r: "un_recvfrom N (uh_sock u) RECV_BUFFER_SIZE n = ((r, dat, p), n')"
    by (metis prod.exhaust_sel)
  have "r < 0" "un_errno N n' > 0" "sent n' = sent n"
    using udp_okD(1) [OF assms(1) r] Nil(2) by simp_all
  then show ?case
    by (subst hup_server_loop.simps) (simp add: udp_api_def recv_udp_def r)
next
  case (Cons x xs)
  obtain p req ans where x: "x = (p, req, ans)" by (cases x)
  have a: "answered (udp_env N crc itoa) cmds req ans" using Cons.prems(3) x by simp
  note len = answered_length [OF a]
  obtain r dat q n1 where r: "un_recvfrom N (uh_sock u) RECV_BUFFER_SIZE n = ((r, dat, q), n1)"
    by (metis prod.exhaust_sel)
  have r': "r = int (length req)" "dat = req" "q = p" "arrived n1 = map (\<lambda>(p, req, ans). (p, req)) xs" "sent n1 = sent n"
    using udp_okD(1) [OF assms(1) r] Cons.prems(2) len by (simp_all add: x)
  let ?u = "u\<lparr>uh_client := p\<rparr>"
  obtain k n2 where s: "un_sendto N (uh_sock u) ans p n1 = (k, n2)" by fastforce
  have s': "arrived n2 = arrived n1" "sent n2 = sent n1 @ [(p, ans)]"
    using udp_okD(2) [OF assms(1) s] by simp_all
  obtain h1 where h1: "process_hupacket (udp_env N crc itoa) cmds resps req h (?u, n1) =
      Some (h1, snd (env_send (udp_env N crc itoa) ans (?u, n1)))" "hup_shape h1"
    using answered_once [OF a Cons.prems(1)] by blast
  moreover have "snd (env_send (udp_env N crc itoa) ans (?u, n1)) = (?u, n2)"
    by (simp add: udp_env_def send_udp_def s)
  ultimately have loop: "hup_server_loop (udp_env N crc itoa) cmds resps (udp_api N) h (u, n) () =
      hup_server_loop (udp_env N crc itoa) cmds resps (udp_api N) h1 (?u, n2) ()"
    using len by (subst hup_server_loop.simps) (simp add: udp_api_def recv_udp_def r r')
  show ?case
    using Cons.IH [OF h1(2), of n2 ?u] r' s' Cons.prems(3) by (auto simp: loop x)
qed

text \<open>The version command is one that answers.\<close>

lemma put_all_tx: "put_all hupacket_record_str out h = Some h' \<Longrightarrow> tx_only h h'"
  by (induction out arbitrary: h) (auto elim!: bind_SomeE intro: tx_only_trans record_str_tx)

lemma append_hex_tx: "hupacket_append_hex env v h = Some h' \<Longrightarrow> tx_only h h'"
  by (auto simp: hupacket_append_hex_def Let_def append_str_tx split: if_splits)

lemma send_buffer_tx: "hupacket_send_buffer env h w = Some (r, h', w') \<Longrightarrow> tx_only h h'"
  unfolding hupacket_send_buffer_def
  by (auto elim!: bind_SomeE split: if_splits prod.splits intro: append_char_tx)
    (meson tx_only_trans append_char_tx append_hex_tx)

lemma respond_tx: "hup_respond env rc out h w = Some (r, h', w') \<Longrightarrow> tx_only h h'"
  unfolding hup_respond_def hupacket_ack_response_def hupacket_nak_response_def
  by (auto elim!: bind_SomeE split: if_splits)
    (meson tx_only_trans reset_buffer_tx record_int_tx put_all_tx send_buffer_tx)+

lemma tx_only_shape: "tx_only h h' \<Longrightarrow> hup_shape h' = hup_shape h"
  by (auto simp: tx_only_def hup_shape_def)

lemma hup_ver_respond: "hup_ver env a k d h w = map_option snd (hup_respond env 0 [a, k, d] h w)"
  by (auto simp: hup_ver_def hup_respond_def split: Option.bind_split)

lemma ver_answered:
  assumes "frame_ok i (lit ''ver'') s recs c" and "crc_matches env (frame_body i (lit ''ver'') s recs) c" and "itoa_ok env"
    and "\<forall>t\<in>{a, k, d}. 0 \<notin> set t"
    and "length (response_bytes env 0 i (lit ''ver'') s [a, k, d] (c \<noteq> None)) < RECV_BUFFER_SIZE"
    and "req = ENQ_OF_COMMAND # frame_body i (lit ''ver'') s recs @ crc_part c @ [END_OF_PACKET]" and "length req \<le> RECV_BUFFER_SIZE"
    and "find_cmd cmds (lit ''ver'') = Some (hup_ver env a k d)"
  shows "answered env cmds req (response_bytes env 0 i (lit ''ver'') s [a, k, d] (c \<noteq> None))"
proof -
  have "\<exists>h'. hup_ver env a k d h w = Some (h', snd (env_send env (response_bytes env 0 i (lit ''ver'') s [a, k, d] (c \<noteq> None)) w)) \<and>
      hup_shape h'" if v: "frame_view h i (lit ''ver'') s recs c" and sh: "hup_shape h" for h w
  proof -
    have p: "points h (hid h) i" "points h (hsequence h) s" "hcrc16 h = None \<longleftrightarrow> c = None" "argv h \<noteq> []"
      "hstr h (argv h ! 0) = Some (lit ''ver'')" using frame_view_points [OF v] by auto
    have "length (tx_buffer h) = RECV_BUFFER_SIZE" using sh by (simp add: hup_shape_def)
    from hup_respond_frame [OF p(1,2,4,5) this assms(3), of 0 "[a, k, d]" w] assms(4,5) p(3)
    obtain h' where h': "hup_respond env 0 [a, k, d] h w =
        Some (fst (env_send env (response_bytes env 0 i (lit ''ver'') s [a, k, d] (c \<noteq> None)) w), h',
          snd (env_send env (response_bytes env 0 i (lit ''ver'') s [a, k, d] (c \<noteq> None)) w))"
      by (auto simp: Let_def)
    then show ?thesis using tx_only_shape [OF respond_tx [OF h']] sh by (simp add: hup_ver_respond)
  qed
  then show ?thesis using assms(1,2,6-8) unfolding answered_def by blast
qed

text \<open>A network as the lists of its datagrams, and two clients that ask for the version.\<close>

definition ex_udp :: "((bytes \<times> bytes) list \<times> (bytes \<times> bytes) list) udp_net" where
  "ex_udp = \<lparr>un_socket = \<lambda>n. (3, n), un_bind = \<lambda>s p n. (0, n),
     un_sendto = \<lambda>s bs p (q, out). (int (length bs), (q, out @ [(p, bs)])),
     un_recvfrom = \<lambda>s len (q, out). (case q of [] \<Rightarrow> ((-1, [], []), ([], out))
       | (p, bs) # q \<Rightarrow> ((int (length bs), bs, p), (q, out))),
     un_shutdown = \<lambda>s n. n, un_close = \<lambda>s n. n, un_errno = \<lambda>n. 11\<rparr>"

lemma ex_udp_ok: "udp_ok ex_udp fst snd"
  by (auto simp: udp_ok_def ex_udp_def split: list.splits)

definition ver_env :: "(udp_handle \<times> (bytes \<times> bytes) list \<times> (bytes \<times> bytes) list) hup_env" where
  "ver_env = udp_env ex_udp (\<lambda>bs. of_nat (length bs)) itoa_ex"

definition ver_req :: bytes where
  "ver_req = ENQ_OF_COMMAND # frame_body None (lit ''ver'') None [] @ [END_OF_PACKET]"

definition ver_ans :: bytes where
  "ver_ans = response_bytes ver_env 0 None (lit ''ver'') None [lit ''1.0'', lit ''4.1'', lit ''now''] False"

lemma udp_answers_senders_witness:
  "\<exists>h' u' q. hup_server_loop ver_env [\<lparr>cmd_name = lit ''ver'', cmd_func = hup_ver ver_env (lit ''1.0'') (lit ''4.1'') (lit ''now'')\<rparr>] []
      (udp_api ex_udp) init_hupacket (\<lparr>uh_sock = 3, uh_client = []\<rparr>, ([([1], ver_req), ([2], ver_req)], [])) () =
    Some (h', (u', (q, [([1], ver_ans), ([2], ver_ans)])), ())"
proof -
  let ?cmds = "[\<lparr>cmd_name = lit ''ver'', cmd_func = hup_ver ver_env (lit ''1.0'') (lit ''4.1'') (lit ''now'')\<rparr>]"
  have it: "itoa_ok ver_env" using itoa_ex_ok by (simp add: itoa_ok_def ver_env_def udp_env_def env_ex_def)
  have f: "frame_ok None (lit ''ver'') None [] None" by code_simp
  have l: "length (response_bytes ver_env 0 None (lit ''ver'') None [lit ''1.0'', lit ''4.1'', lit ''now''] (None \<noteq> (None :: bytes option))) < RECV_BUFFER_SIZE"
    unfolding ver_env_def by code_simp
  have "answered ver_env ?cmds ver_req (response_bytes ver_env 0 None (lit ''ver'') None [lit ''1.0'', lit ''4.1'', lit ''now''] (None \<noteq> (None :: bytes option)))"
    by (rule ver_answered [OF f _ it _ l])
      (auto simp: crc_matches_def ver_req_def crc_part_def frame_body_def header_bytes_def marked_def RECV_BUFFER_SIZE_def lit_def)
  then have "\<forall>(p, req, ans)\<in>set [([1], ver_req, ver_ans), ([2], ver_req, ver_ans)]. answered ver_env ?cmds req ans"
    by (simp add: ver_ans_def)
  from udp_answers_senders [OF ex_udp_ok hup_shape_init, where xs = "[([1], ver_req, ver_ans), ([2], ver_req, ver_ans)]",
      OF _ this [unfolded ver_env_def], of "([([1], ver_req), ([2], ver_req)], [])" "[]" "\<lparr>uh_sock = 3, uh_client = []\<rparr>"]
  show ?thesis
    by (fold ver_env_def) auto
qed

end
