(* ===== verification/Mp_Modules.thy ===== *)
theory Mp_Modules
  imports Mp_Main Machine_Uart Zephyr_Storage Zephyr_Filesystem Modsocket Board_Drivers
begin

text \<open>
  What is left of the interpreter's modules: how their objects are printed (the \<open>print\<close> functions of the
  files under \<open>app/micropython\<close>), the clocks of \<open>mphalport.h\<close>, the modules whose functions are single
  calls (\<open>modzephyr.c\<close>, \<open>modtime.c\<close>, \<open>modmachine.c\<close>), the text of \<open>help.c\<close> and the start of the interpreter's thread
  (\<open>src/zephyr_start.c\<close>).

  A printed object is a text.  \<open>None\<close> is reading past a table of names, or a call that does not return.
  The names of devices, the text of a pointer and the kernel's calls are parameters.
\<close>

section \<open>Numbers and names in texts\<close>

definition fmt_d :: "int \<Rightarrow> string" where
  "fmt_d i = (if i < 0 then ''-'' @ decimal (nat (- i)) else decimal (nat i))"

definition fmt_u :: "u32 \<Rightarrow> string" where
  "fmt_u n = decimal (unat n)"

text \<open>Up to the first NUL byte, as a string.\<close>

definition fmt_s :: "bytes \<Rightarrow> string" where
  "fmt_s s = map (\<lambda>b. char_of (unat b)) (c_str s)"

text \<open>A device is called by its first node label when there is one.\<close>

record names_api =
  nm_device :: "dev \<Rightarrow> string"
  nm_nodelabels :: "dev \<Rightarrow> string list option"
  nm_pointer :: "int \<Rightarrow> string"

definition zephyr_device_get_name :: "names_api \<Rightarrow> bool \<Rightarrow> dev \<Rightarrow> string" where
  "zephyr_device_get_name N meta dev =
     (if meta then
        (case nm_nodelabels N dev of Some (l # _) \<Rightarrow> l | _ \<Rightarrow> nm_device N dev)
      else nm_device N dev)"

section \<open>Printing of objects\<close>

definition machine_pin_print :: "names_api \<Rightarrow> bool \<Rightarrow> pin_obj \<Rightarrow> string" where
  "machine_pin_print N meta self =
     ''<Pin '' @ zephyr_device_get_name N meta (po_port self) @ '' '' @ fmt_d (sint (po_pin self)) @ ''>''"

definition machine_timer_print :: "timer_obj \<Rightarrow> string" where
  "machine_timer_print self =
     ''Timer(-1, mode='' @ (if to_mode self = TIMER_MODE_PERIODIC then ''PERIODIC'' else ''ONE_SHOT'') @ '', period='' @
       fmt_u (to_period_ms self) @ '')''"

definition mp_machine_pwm_print :: "names_api \<Rightarrow> bool \<Rightarrow> machine_pwm \<Rightarrow> string" where
  "mp_machine_pwm_print N meta self =
     ''<PWM Controller '' @ zephyr_device_get_name N meta (pw_dev self) @ '' channel='' @ fmt_d (sint (pw_channel self)) @ '' '' @
       (if pw_duty_ns self \<noteq> VALUE_NOT_SET then '' duty_ns='' @ fmt_d (sint (pw_duty_ns self))
        else '' duty_u16='' @ fmt_d (sint (pw_duty_u16 self))) @
       '' freq='' @ fmt_d (sint (pw_freq self)) @ '', flags='' @ (if pw_inverted self then ''1'' else ''0'') @ ''>''"

definition mp_machine_adc_print :: "machine_adc \<Rightarrow> string" where
  "mp_machine_adc_print self = ''ADC('' @ fmt_s (ma_name self) @ ''.'' @ fmt_d (as_channel (ma_spec self)) @ '')''"

text \<open>The fields are cut out of the operation word; \<open>firstbit\<close> is one of two.\<close>

definition machine_hard_spi_print :: "names_api \<Rightarrow> bool \<Rightarrow> machine_spi \<Rightarrow> string" where
  "machine_hard_spi_print N meta self =
     (let op = ucast (sc_operation (ms_config self)) :: u32
      in ''SPI('' @ zephyr_device_get_name N meta (ms_dev self) @ '', baudrate='' @ fmt_u (sc_frequency (ms_config self)) @
         '', polarity='' @ fmt_u (drop_bit 1 (op AND 0x2)) @ '', phase='' @ fmt_u (drop_bit 2 (op AND 0x4)) @
         '', bits='' @ fmt_u (drop_bit 5 (op AND NOT 0x1F)) @
         '', firstbit='' @ (if drop_bit 4 (op AND 0x10) = 0 then ''MSB'' else ''LSB'') @ '')'')"

definition machine_hard_i2c_print :: "names_api \<Rightarrow> bool \<Rightarrow> dev \<Rightarrow> string" where
  "machine_hard_i2c_print N meta dev = ''<I2C '' @ zephyr_device_get_name N meta dev @ ''>''"

definition mp_machine_i2c_target_print :: "names_api \<Rightarrow> i2c_target \<Rightarrow> string" where
  "mp_machine_i2c_target_print N self =
     ''I2CTarget('' @ (case tg_dev self of None \<Rightarrow> '''' | Some d \<Rightarrow> nm_device N d) @ '', addr='' @ decimal (unat (tg_address self)) @ '')''"

definition sensor_print :: "names_api \<Rightarrow> bool \<Rightarrow> dev \<Rightarrow> string" where
  "sensor_print N meta dev = ''<Sensor '' @ zephyr_device_get_name N meta dev @ ''>''"

definition zephyr_disk_access_print :: "disk_obj \<Rightarrow> string" where
  "zephyr_disk_access_print self = ''DiskAccess('' @ fmt_s (dk_pdrv self) @ '')''"

definition zephyr_flash_area_print :: "area_obj \<Rightarrow> string" where
  "zephyr_flash_area_print self = ''FlashArea('' @ decimal (unat (ar_id self)) @ '')''"

definition file_obj_print :: "names_api \<Rightarrow> string \<Rightarrow> int \<Rightarrow> string" where
  "file_obj_print N type_name self = ''<io.'' @ type_name @ '' '' @ nm_pointer N self @ ''>''"

text \<open>The descriptor is printed as a pointer, and the type is the network's.\<close>

definition socket_print :: "names_api \<Rightarrow> (int \<Rightarrow> int) \<Rightarrow> socket_obj \<Rightarrow> string" where
  "socket_print N net_context_get_type self =
     (if ctx self = -1 then ''<socket NULL>''
      else ''<socket '' @ nm_pointer N (ctx self) @ '' type='' @ fmt_d (net_context_get_type (ctx self)) @ ''>'')"

section \<open>Printing of a serial port\<close>

text \<open>The configuration as the driver gives it, in numbers; they index the tables of names.\<close>

record raw_uart_config =
  rc_baudrate :: u32
  rc_parity :: nat
  rc_stop_bits :: nat
  rc_data_bits :: nat
  rc_flow_ctrl :: nat

definition parity_name :: "string list" where
  "parity_name = [''None'', ''Odd'', ''Even'', ''Mark'', ''Space'']"

definition stop_bits_name :: "string list" where
  "stop_bits_name = [''0.5'', ''1'', ''1.5'', ''2'']"

definition data_bits_name :: "string list" where
  "data_bits_name = [''5'', ''6'', ''7'', ''8'', ''9'']"

definition flow_control_name :: "string list" where
  "flow_control_name = [''None'', ''RTS/CTS'', ''DTR/DSR'']"

definition mp_machine_uart_print :: "names_api \<Rightarrow> dev \<Rightarrow> raw_uart_config \<Rightarrow> 'r machine_uart \<Rightarrow> string option" where
  "mp_machine_uart_print N dev config self = do {
     data_bits \<leftarrow> rd data_bits_name (rc_data_bits config);
     parity \<leftarrow> rd parity_name (rc_parity config);
     stop_bits \<leftarrow> rd stop_bits_name (rc_stop_bits config);
     flow_ctrl \<leftarrow> rd flow_control_name (rc_flow_ctrl config);
     Some (''UART(\"'' @ nm_device N dev @ ''\", baudrate='' @ fmt_u (rc_baudrate config) @ '', data_bits='' @ data_bits @
       '', parity_bits='' @ parity @ '', stop_bits='' @ stop_bits @ '', flow_control='' @ flow_ctrl @
       '', timeout='' @ decimal (unat (mu_timeout self)) @ '', timeout_char='' @ decimal (unat (mu_timeout_char self)) @ '')'')
   }"

text \<open>Zephyr's numbers for the settings that the binding can choose.\<close>

definition raw_config :: "uart_config \<Rightarrow> raw_uart_config" where
  "raw_config c =
     \<lparr>rc_baudrate = uc_baudrate c,
      rc_parity = (case uc_parity c of UART_CFG_PARITY_NONE \<Rightarrow> 0 | UART_CFG_PARITY_ODD \<Rightarrow> 1 | UART_CFG_PARITY_EVEN \<Rightarrow> 2),
      rc_stop_bits = (case uc_stop_bits c of UART_CFG_STOP_BITS_1 \<Rightarrow> 1 | UART_CFG_STOP_BITS_2 \<Rightarrow> 3),
      rc_data_bits = (case uc_data_bits c of UART_CFG_DATA_BITS_5 \<Rightarrow> 0 | UART_CFG_DATA_BITS_6 \<Rightarrow> 1 | UART_CFG_DATA_BITS_7 \<Rightarrow> 2
        | UART_CFG_DATA_BITS_8 \<Rightarrow> 3 | UART_CFG_DATA_BITS_9 \<Rightarrow> 4),
      rc_flow_ctrl = (case uc_flow_ctrl c of UART_CFG_FLOW_CTRL_NONE \<Rightarrow> 0 | UART_CFG_FLOW_CTRL_RTS_CTS \<Rightarrow> 1)\<rparr>"

text \<open>
  What the arguments of the constructor can set, printing shows: the numbers of data and stop bits as they
  were given, the parity and the flow control by their names.
\<close>

lemma uart_config_cases:
  assumes "uart_config_of a = Inr c"
  obtains "ua_bits a \<in> {5..9}" "ua_stop a \<in> {1, 2}" "rc_data_bits (raw_config c) = nat (ua_bits a - 5)"
    "rc_stop_bits (raw_config c) = nat (2 * ua_stop a - 1)" "rc_parity (raw_config c) < 3"
    "rc_flow_ctrl (raw_config c) = (if ua_flow a = 0 then 0 else 1)" "rc_baudrate (raw_config c) = word_of_int (ua_baudrate a)"
  using assms
  by (auto simp: uart_config_of_def arg_data_bits_def arg_parity_def arg_stop_bits_def arg_flow_ctrl_def raw_config_def
      sbind_Inr split: if_splits)

lemma fmt_d_digits:
  "fmt_d 1 = ''1''" "fmt_d 2 = ''2''" "fmt_d 5 = ''5''" "fmt_d 6 = ''6''" "fmt_d 7 = ''7''" "fmt_d 8 = ''8''" "fmt_d 9 = ''9''"
  by (simp_all add: fmt_d_def char_of_def bit_0)

lemma uart_print_shows_arguments:
  assumes c: "uart_config_of a = Inr c"
  shows "\<exists>parity\<in>{''None'', ''Odd'', ''Even''}. mp_machine_uart_print N dev (raw_config c) self =
    Some (''UART(\"'' @ nm_device N dev @ ''\", baudrate='' @ fmt_u (word_of_int (ua_baudrate a)) @ '', data_bits='' @ fmt_d (ua_bits a) @
       '', parity_bits='' @ parity @ '', stop_bits='' @ fmt_d (ua_stop a) @
       '', flow_control='' @ (if ua_flow a = 0 then ''None'' else ''RTS/CTS'') @
       '', timeout='' @ decimal (unat (mu_timeout self)) @ '', timeout_char='' @ decimal (unat (mu_timeout_char self)) @ '')'')"
proof (rule uart_config_cases [OF c])
  assume b: "ua_bits a \<in> {5..9}" and s: "ua_stop a \<in> {1, 2}" and r: "rc_data_bits (raw_config c) = nat (ua_bits a - 5)"
    "rc_stop_bits (raw_config c) = nat (2 * ua_stop a - 1)" "rc_parity (raw_config c) < 3"
    "rc_flow_ctrl (raw_config c) = (if ua_flow a = 0 then 0 else 1)" "rc_baudrate (raw_config c) = word_of_int (ua_baudrate a)"
  have "ua_bits a \<in> {5, 6, 7, 8, 9}" using b by auto
  then have "rd data_bits_name (rc_data_bits (raw_config c)) = Some (fmt_d (ua_bits a))"
    unfolding r(1) by (elim insertE emptyE) (simp_all add: data_bits_name_def fmt_d_digits rd_def)
  moreover have "rd stop_bits_name (rc_stop_bits (raw_config c)) = Some (fmt_d (ua_stop a))"
    using s unfolding r(2) by (elim insertE emptyE) (simp_all add: stop_bits_name_def fmt_d_digits rd_def)
  moreover have "\<exists>p\<in>{''None'', ''Odd'', ''Even''}. rd parity_name (rc_parity (raw_config c)) = Some p"
    using r(3) by (auto simp: parity_name_def rd_def less_Suc_eq numeral_3_eq_3)
  moreover have "rd flow_control_name (rc_flow_ctrl (raw_config c)) = Some (if ua_flow a = 0 then ''None'' else ''RTS/CTS'')"
    unfolding r(4) by (simp add: flow_control_name_def rd_def)
  ultimately show ?thesis
    by (auto simp: mp_machine_uart_print_def r(5) simp del: decimal.simps)
qed

text \<open>Flow control by RS-485 is number 3 in Zephyr and has no name: printing such a port reads past the table.\<close>

lemma uart_print_rs485: "rc_flow_ctrl config = 3 \<Longrightarrow> mp_machine_uart_print N dev config self = None"
  by (simp add: mp_machine_uart_print_def flow_control_name_def rd_def del: decimal.simps split: Option.bind_split)

section \<open>Clocks\<close>

text \<open>The kernel's clocks: cycles in 32 bits, milliseconds and ticks since the start, and their rates.\<close>

record 'w clock_api =
  k_cycle_get_32 :: "'w \<Rightarrow> u32"
  k_uptime_get :: "'w \<Rightarrow> int"
  k_uptime_ticks :: "'w \<Rightarrow> int"
  cycles_per_sec :: int
  ticks_per_sec :: int
  k_busy_wait :: "u32 \<Rightarrow> 'w \<Rightarrow> 'w"
  sys_csrand_get :: "nat \<Rightarrow> 'w \<Rightarrow> bytes \<times> 'w"

definition mp_hal_ticks_cpu :: "'w clock_api \<Rightarrow> 'w \<Rightarrow> u32" where
  "mp_hal_ticks_cpu K w = k_cycle_get_32 K w"

text \<open>Cycles to nanoseconds, rounded down, in 64 bits; then microseconds, of which 32 bits are returned.\<close>

definition mp_hal_ticks_us :: "'w clock_api \<Rightarrow> 'w \<Rightarrow> u32" where
  "mp_hal_ticks_us K w =
     (let ns = take_bit 64 (uint (k_cycle_get_32 K w) * 1000000000 div cycles_per_sec K) in word_of_int (ns div 1000))"

text \<open>Rounded to the nearest.\<close>

definition mp_hal_time_ns :: "'w clock_api \<Rightarrow> 'w \<Rightarrow> 64 word" where
  "mp_hal_time_ns K w = word_of_int ((k_uptime_ticks K w * 1000000000 + ticks_per_sec K div 2) div ticks_per_sec K)"

definition mp_hal_delay_us :: "'w clock_api \<Rightarrow> u32 \<Rightarrow> 'w \<Rightarrow> 'w" where
  "mp_hal_delay_us K delay w = k_busy_wait K delay w"

definition mp_hal_get_random :: "'w clock_api \<Rightarrow> nat \<Rightarrow> 'w \<Rightarrow> bytes \<times> 'w" where
  "mp_hal_get_random K n w = sys_csrand_get K n w"

text \<open>
  The microseconds are those of a cycle counter of 32 bits: from two million cycles in a second on they never
  reach the upper half of their range, but start again at 0, so that a difference taken across that moment,
  which is meant modulo a power of two, is wrong.
\<close>

lemma ticks_us_starts_again:
  assumes f: "2000000 \<le> cycles_per_sec K"
  shows "unat (mp_hal_ticks_us K w) < 2 ^ 31" and "k_cycle_get_32 K w' = 0 \<Longrightarrow> mp_hal_ticks_us K w' = 0"
proof -
  let ?c = "uint (k_cycle_get_32 K w)" and ?f = "cycles_per_sec K"
  have c: "0 \<le> ?c" "?c < 2 ^ 32" using uint_bounded [of "k_cycle_get_32 K w"] by simp_all
  have q: "?c * 1000000000 div ?f div 1000 = ?c * 1000000000 div (?f * 1000)"
    by (rule zdiv_zmult2_eq [symmetric]) simp
  have f0: "0 < ?f" and "1000000 * ?c < 2 ^ 31 * ?f" using c f by simp_all
  moreover have "1000000 * ?c div ?f * ?f \<le> 1000000 * ?c"
    using f0 by (simp add: minus_mod_eq_div_mult [symmetric])
  ultimately have "1000000 * ?c div ?f * ?f < 2 ^ 31 * ?f" by linarith
  then have "1000000 * ?c div ?f < 2 ^ 31" using f0 by (simp add: mult_less_cancel_right)
  then have u: "?c * 1000000000 div ?f div 1000 < 2 ^ 31" "0 \<le> ?c * 1000000000 div ?f div 1000"
    unfolding q using f0 c by (simp_all add: pos_imp_zdiv_nonneg_iff)
  have "x < 2 ^ 64" if "x div 1000 < 2 ^ 31" for x :: int
    using that mult_div_mod_eq [of 1000 x] pos_mod_bound [of 1000 x, simplified] by simp
  then have "?c * 1000000000 div ?f < 2 ^ 64" using u(1) by blast
  then have "take_bit 64 (?c * 1000000000 div ?f) = ?c * 1000000000 div ?f"
    using c f by (simp add: take_bit_int_eq_self pos_imp_zdiv_nonneg_iff)
  then have "mp_hal_ticks_us K w = word_of_int (?c * 1000000000 div ?f div 1000)"
    by (simp add: mp_hal_ticks_us_def)
  then have "uint (mp_hal_ticks_us K w) = ?c * 1000000000 div ?f div 1000"
    using u by (simp add: unsigned_of_int take_bit_int_eq_self)
  then show "unat (mp_hal_ticks_us K w) < 2 ^ 31"
    using u by (simp add: unat_eq_nat_uint nat_less_iff)
qed (simp add: mp_hal_ticks_us_def)

section \<open>Modules of single calls\<close>

record 'w zephyr_calls =
  k_is_preempt_thread :: "'w \<Rightarrow> int"
  thread_analyzer_print :: "u32 \<Rightarrow> 'w \<Rightarrow> 'w"
  shell_execute_cmd :: "bytes \<Rightarrow> 'w \<Rightarrow> 'w"
  k_yield :: "'w \<Rightarrow> 'w"
  sys_reboot :: "'w \<Rightarrow> 'w"

definition mod_is_preempt_thread :: "'w zephyr_calls \<Rightarrow> 'w \<Rightarrow> mp_obj" where
  "mod_is_preempt_thread Z w = Mp_Bool (k_is_preempt_thread Z w \<noteq> 0)"

text \<open>A thread is named by its address, of which a small integer keeps 31 bits.\<close>

definition mod_current_tid :: "tid \<Rightarrow> mp_obj" where
  "mod_current_tid cur = small_int (sint cur)"

definition mod_thread_analyze :: "'w zephyr_calls \<Rightarrow> mp_obj \<Rightarrow> 'w \<Rightarrow> (mp_exc + mp_obj) \<times> 'w" where
  "mod_thread_analyze Z cpu_in w =
     (case mp_obj_get_int cpu_in of
        Inl e \<Rightarrow> (Inl e, w) | Inr cpu \<Rightarrow> (Inr Mp_None, thread_analyzer_print Z (word_of_int cpu) w))"

definition mod_shell_exec :: "'w zephyr_calls \<Rightarrow> mp_obj \<Rightarrow> 'w \<Rightarrow> (mp_exc + mp_obj) \<times> 'w" where
  "mod_shell_exec Z cmd_in w =
     (case mp_obj_get_bytes cmd_in of
        Inl e \<Rightarrow> (Inl e, w) | Inr cmd \<Rightarrow> (Inr Mp_None, shell_execute_cmd Z (c_str cmd) w))"

text \<open>The seconds since the start, as the 32 bits of the interpreter's integer type.\<close>

definition mp_time_time_get :: "'w clock_api \<Rightarrow> 'w \<Rightarrow> mp_obj" where
  "mp_time_time_get K w = Mp_Int (sint (word_of_int (k_uptime_get K w sdiv 1000) :: u32))"

definition machine_reset_cause :: mp_obj where
  "machine_reset_cause = small_int 42"

definition mp_machine_idle :: "'w zephyr_calls \<Rightarrow> 'w \<Rightarrow> 'w" where
  "mp_machine_idle Z w = k_yield Z w"

text \<open>Restarting the board does not return.\<close>

definition machine_reset :: "'w zephyr_calls \<Rightarrow> 'w \<Rightarrow> (mp_obj \<times> 'w) option" where
  "machine_reset Z w = (let w = sys_reboot Z w in None)"

text \<open>The text of \<open>help.c\<close>, by its lines.\<close>

definition zephyr_help_text :: string where
  "zephyr_help_text = concat (map (\<lambda>line. line @ [char_of (10 :: nat)])
     [''Welcome to MicroPython!'',
      '''',
      ''For online docs please visit http://docs.micropython.org/'',
      '''',
      ''Control commands:'',
      ''  CTRL-A        -- on a blank line, enter raw REPL mode'',
      ''  CTRL-B        -- on a blank line, enter normal REPL mode'',
      ''  CTRL-C        -- interrupt a running program'',
      ''  CTRL-D        -- on a blank line, do a soft reset of the board'',
      ''  CTRL-E        -- on a blank line, enter paste mode'',
      '''',
      ''For further help on a specific object, type help(obj)''])"

section \<open>The interpreter's thread\<close>

text \<open>First the console, in one of its two forms, then the interpreter; \<open>n\<close> sessions of it are run.\<close>

definition micropy_main ::
  "bool \<Rightarrow> ('w \<Rightarrow> 'w) \<Rightarrow> ('w \<Rightarrow> 'w) \<Rightarrow> nat \<Rightarrow> ('w, 'k) py_runtime \<Rightarrow> 'w gpio_api \<Rightarrow> 'k kernel \<Rightarrow> tid \<Rightarrow> u32 \<Rightarrow> u32 \<Rightarrow> nat \<Rightarrow>
   ('w, 'k) py_state \<Rightarrow> ('w, 'k) py_state option" where
  "micropy_main console_subsys console_init getchar_init n P G K cur main_state stack stack_size s =
     real_main n P G K cur main_state stack stack_size (on_world (if console_subsys then console_init else getchar_init) s)"

text \<open>After any positive number of sessions no interrupt of a pin is left from the last one.\<close>

lemma sessions_no_irq: "sessions (Suc n) P G K cur s = Some s' \<Longrightarrow> ps_irq_list (py_pins s') = []"
  by (induction n arbitrary: s) (auto simp: bind_eq_Some_conv dest: session_leaves_no_irq)

lemma micropy_main_no_irq:
  "micropy_main b ci gi (Suc n) P G K cur ms stack sz s = Some s' \<Longrightarrow> ps_irq_list (py_pins s') = []"
  by (simp only: micropy_main_def real_main_def Let_def case_prod_unfold) (rule sessions_no_irq)

end
