(* ===== verification/Spec2Isabelle.thy ===== *)
theory Spec2Isabelle
  imports Ascii85 Palloc Hupacket Huflash Mp_Thread Zephyr_Filesystem Modsocket Zephyr_Storage App_Uart
    App_Server Modbluetooth Machine_Devices Machine_Pins Machine_Uart Console Mp_Main Board_Drivers App_Main Camera Hu_System Mp_Modules
begin

text \<open>
  Verification of the sdkz firmware: a Zephyr application that serves a packet protocol over serial
  lines and UDP, and a MicroPython port whose modules bind Python to Zephyr's drivers.

  \<^bold>\<open>The program and the theories.\<close>  Paths are under \<open>src/\<close>.

  \<^item> Data path of the packet protocol.  Bytes come from a driver (\<open>lib/app/uart.c\<close>, theory
    \<open>App_Uart\<close>; \<open>lib/app/udp.c\<close>, in \<open>App_Server\<close>) to a server thread (\<open>app/src/hup_server.c\<close>,
    \<open>App_Server\<close>), which hands them to the receiver (\<open>lib/hu/hupacket.c\<close>, \<open>Hupacket\<close>).  A complete
    frame calls a command: those of \<open>lib/hu/huflash.c\<close> and \<open>lib/hu/bootloader.c\<close> (\<open>Huflash\<close>), which
    decode their data with \<open>lib/hu/ascii85.c\<close> (\<open>Ascii85\<close>), and those of \<open>app/src/main.c\<close> and
    \<open>app/src/pwmleds.c\<close> (\<open>App_Server\<close>).  Memory comes from \<open>lib/hu/palloc.c\<close> (\<open>Palloc\<close>).
    The result of a command goes back as a frame through the same driver.
  \<^item> Interpreter.  \<open>app/micropython/mpthreadport.c\<close> (\<open>Mp_Thread\<close>) keeps its threads, \<open>mphalport.c\<close>,
    \<open>uart_core.c\<close> and \<open>src/zephyr_getchar.c\<close> (\<open>Console\<close>) its waiting and its characters, \<open>main.c\<close>
    and \<open>shellcmd.c\<close> (\<open>Mp_Main\<close>) its sessions, which use \<open>Machine_Pins\<close> and \<open>Mp_Thread\<close> when they end.
  \<^item> Bindings.  \<open>zephyr_filesystem.c\<close> (\<open>Zephyr_Filesystem\<close>), \<open>modsocket.c\<close> (\<open>Modsocket\<close>),
    \<open>zephyr_storage.c\<close> (\<open>Zephyr_Storage\<close>), \<open>modbluetooth_zephyr.c\<close> (\<open>Modbluetooth\<close>), \<open>machine_pin.c\<close> and
    \<open>machine_timer.c\<close> (\<open>Machine_Pins\<close>), \<open>machine_uart.c\<close> (\<open>Machine_Uart\<close>), \<open>machine_adc.c\<close>,
    \<open>machine_pwm.c\<close>, \<open>machine_spi.c\<close>, \<open>machine_i2c.c\<close>, \<open>machine_wdt.c\<close>, \<open>modzsensor.c\<close> and
    \<open>zephyr_device.c\<close> (\<open>Machine_Devices\<close>), all over \<open>Mp_Base\<close>, the values and exceptions of Python.
  \<^item> \<open>App_Main\<close>: the start of the application in \<open>app/src/main.c\<close>, which puts the pool, the servers, the active
    slot, the clock and the lamp together, and its end.
  \<^item> \<open>Camera\<close>: the preview of \<open>app/src/camera.c\<close>, from the choice of a format to the frames, over the video
    driver and the display as a parameter; the line that would start it as a thread is commented out.
  \<^item> \<open>Board_Drivers\<close>: \<open>machine_i2c_target.c\<close>, \<open>src/usbd.c\<close>, the drivers under \<open>drivers/\<close>,
    \<open>lib/custom/custom.c\<close>, and the clock and the backup memory of the application.
  \<^item> \<open>Mp_Modules\<close>: how the objects of the bindings are printed, the clocks of \<open>mphalport.h\<close>, the modules of
    single calls (\<open>modzephyr.c\<close>, \<open>modtime.c\<close>, \<open>modmachine.c\<close>, \<open>help.c\<close>) and the
    interpreter's thread (\<open>src/zephyr_start.c\<close>).
  \<^item> \<open>Hu_System\<close>: the data path as a whole.  Abstract specifications of the flash commands, which know nothing of
    frames and buffers, and the theorems that bytes handed to the server implement them; a sequence of
    datagrams through the UDP driver, the server, the receiver and back.
  \<^item> \<open>Sdkz_Prelude\<close>: machine types, arrays with their bounds, strings that end with NUL, error numbers,
    and the lemmas on them that the other theories share.

  \<^bold>\<open>How the code is represented.\<close>  A C function is a HOL function of the same name; a part of one has
  a name of its own and the lines it stands for are those between the function's branches.  Structures are
  records, enumerations are datatypes, unsigned integers are words of their width, so that arithmetic wraps as
  in C; signed values that may overflow are integers with the range written out.  State is passed
  explicitly.  \<open>None\<close> is undefined behaviour (an access outside an object, a null pointer, division by
  zero, a shift that is too long) or a call that does not return, and the text of each theory says which; an
  exception of Python is \<open>Inl\<close>.  Loops are structural where the data allow it, functions with a measure, or
  partial functions where the code may not end; then a theorem says when it does.  Memory that is shared is
  addressed: the pool of \<open>Palloc\<close> by its byte addresses, Python objects by their number, linked lists through
  their links.  Concurrency is a step relation whose steps are the atomic pieces of the code
  (\<open>Mp_Thread\<close>, \<open>App_Uart\<close>, \<open>Machine_Pins\<close>) or a parameter for what others do meanwhile
  (\<open>Console\<close>, \<open>Machine_Uart\<close>).

  \<^bold>\<open>Parameters and what is assumed of them.\<close>  The Zephyr kernel, its drivers and stacks, and the
  interpreter are not part of the repository: they are records of functions over a state of any type.  Where a
  theorem relies on them, the hypothesis has a name: \<open>kernel_ok\<close> (threads), \<open>ring_ok\<close> and
  \<open>uart_ok\<close> (ring buffers and serial devices of the application), \<open>rbuf_ok\<close>, \<open>port_ok\<close>
  and \<open>pause_ok\<close> (those of Python), \<open>grow_ok\<close> (growing strings), \<open>itoa_ok\<close> (numbers as
  text), \<open>cmp_ok\<close> and \<open>desc_ok\<close> (UUIDs), \<open>camera_ok\<close> (video drivers), \<open>open_ok\<close> (opening a
  flash area that succeeds gives one), \<open>udp_ok\<close> (datagrams that fit arrive whole, the oldest first).  Each such theorem is applied to a
  concrete instance after it.  What one component promises another is a locale that the component's own theory
  interprets: \<open>byte_codec\<close> (\<open>Ascii85\<close>), \<open>allocator\<close> (\<open>Palloc\<close>), \<open>text_sink\<close>
  (\<open>Hupacket\<close>), \<open>char_source\<close> (\<open>Console\<close>).

  \<^bold>\<open>What is shown.\<close>
  \<^item> \<open>Ascii85\<close>: the encoder and the decoder never leave their buffers, agree with a reference on every
    input, and invert each other up to the length that the decoder takes.
  \<^item> \<open>Palloc\<close>: allocation is first fit on the list of free blocks, release inserts and joins, the pool
    invariant is kept, live blocks never overlap; when growing a block moves it and when its copy is
    undefined; and what the race on the start of the list does to any pool.
  \<^item> \<open>Hupacket\<close>, \<open>Huflash\<close>: well-formed frames reach their command with exactly their parts, responses
    are read back, a wrong checksum is answered and dispatches nothing, noise is skipped and an
    overlong frame dropped; frames of the largest size or with 64 records overrun their arrays.  Erasing covers the whole partition.
  \<^item> \<open>Hu_System\<close>: an erase or flash request, however its bytes are cut, does to the flash what the specification
    says and is answered by one frame whose reader finds the status; over UDP each request is answered to the peer it
    came from.
  \<^item> \<open>App_Uart\<close>, \<open>App_Server\<close>: interrupt driven sending keeps the order under every interleaving, the
    asynchronous way repeats itself; the server is the receiver on the concatenated input.
  \<^item> \<open>App_Main\<close>: the two servers hold disjoint memory and the end of the application gives exactly that back,
    from what \<open>Palloc\<close> promises its clients.
  \<^item> \<open>Mp_Thread\<close>: no two threads share a stack under every interleaving; creation takes the lowest stack.
  \<^item> \<open>Zephyr_Filesystem\<close>, \<open>Zephyr_Storage\<close>, \<open>Modsocket\<close>: paths are normalised as specified, removal is
    exact, blocks are read back, closed sockets stay closed, for the stream methods too (programs over the two calls of the stream protocol); \<open>rename\<close> passes the new path twice.
  \<^item> \<open>Modbluetooth\<close>: the tables and handles of a service, and two accesses outside of them.
  \<^item> \<open>Machine_Devices\<close>, \<open>Machine_Pins\<close>, \<open>Machine_Uart\<close>: the duty of a pulse and where its product wraps,
    fields of a bus, buffers as one, a sensor's value as one number and back; references between pins and interrupts, the list of timers, which
    callbacks may change; the interrupt handler of a port whose interrupts end returns and keeps the order, and so does reading.
  \<^item> \<open>Console\<close>, \<open>Mp_Main\<close>, \<open>Board_Drivers\<close>: the console is a bounded queue, a reader gets the first
    character, a delay is not shorter than asked for but releases the interpreter's lock twice; sessions leave no
    interrupt behind; both ways in which drivers read the board over I2C agree.
  \<^item> \<open>Mp_Modules\<close>: printing a serial port shows the arguments it was made with, and reads past a table for one
    kind of flow control; where the clock in microseconds starts again.
  \<^item> \<open>Camera\<close>: the driver's buffers go round and none is lost while frames are shown; the image shown stays that
    of the first buffer, which every second time is in the driver's hands.

  \<^bold>\<open>Bounds and fuel.\<close>  \<open>hupacket\<close> and the C strings work on arrays of the code's own sizes; addresses and
  \<open>size_t\<close> are 32 bits wide, as on the targets.  There is no fuel that could run out: \<open>sessions\<close>,
  \<open>real_main\<close>, \<open>main_loop\<close> and \<open>camera_frames\<close> run a given number of rounds, because the code runs them for ever, and say
  what has happened after any number of them.

  \<^bold>\<open>Not modelled.\<close>  Python itself, its heap, its collector and its argument parser (arguments arrive as
  values that are already of the type asked for); the arithmetic of numbers in floating point (a parameter, for the
  sensors and for a timer's frequency; the timer's branch for builds without them is left out); the list that keeps Bluetooth
  objects from the collector; logging; the tables of methods, names and devices, which only say where
  functions are found; functions that do nothing or never return because a feature is switched off
  (\<open>init_zephyr\<close>, \<open>nlr_jump_fail\<close>, the wrappers of \<open>malloc\<close> that stand in for \<open>palloc.c\<close>);
  configuration, board and build files, and the tests.
\<close>

end
